(* ===== verification/Prelude.thy ===== *)
theory Prelude
  imports "HOL-Library.Word" "HOL-Library.Sublist"
begin

text \<open>
  Shared ground of the development: the machine types of the program, the outcome type of
  its functions (a value, an error, or a panic) with the combinators that Rust's
  \<^verbatim>\<open>?\<close>, \<^verbatim>\<open>map_err\<close> and \<^verbatim>\<open>ok_or\<close> stand for, slices that panic out of range, and
  the generic list lemmas that the components use.
\<close>

section \<open>Machine types\<close>

type_synonym byte = "8 word"
type_synonym bytes = "8 word list"
type_synonym u32 = "32 word"
type_synonym u64 = "64 word"

text \<open>An \<open>i64\<close> is a 64-bit word read with \<^const>\<open>sint\<close>.\<close>

type_synonym i64 = "64 word"

text \<open>\<^verbatim>\<open>usize\<close> has 64 bits on the targets the crate is built for; lengths of Rust
  collections are kept as \<^typ>\<open>nat\<close>.\<close>

definition usize_max :: nat where
  "usize_max = 2 ^ 64 - 1"

text \<open>\<^verbatim>\<open>usize::try_from\<close> on a \<^verbatim>\<open>u64\<close>.\<close>

definition usize_try_from :: "u64 \<Rightarrow> nat option" where
  "usize_try_from x = (if unat x \<le> usize_max then Some (unat x) else None)"

lemma usize_try_from_Some [simp]: "usize_try_from x = Some (unat x)"
proof -
  have "unat x < 2 ^ 64"
    using unsigned_less [of x, where ?'a = nat] by simp
  then show ?thesis
    by (simp add: usize_try_from_def usize_max_def)
qed

section \<open>Outcomes\<close>

text \<open>
  A Rust function that returns \<^verbatim>\<open>Result<T, E>\<close> returns \<open>Ok\<close> or \<open>Err\<close>; an
  out-of-range slice, an overflowing checked operation or a panicking callee is the third
  outcome. Keeping it apart from \<open>Err\<close> lets a theorem say that it never happens.
\<close>

datatype ('e, 'a) result = Ok 'a | Err 'e | Panic

primrec res_bind :: "('e, 'a) result \<Rightarrow> ('a \<Rightarrow> ('e, 'b) result) \<Rightarrow> ('e, 'b) result" where
  "res_bind (Ok x) f = f x"
| "res_bind (Err e) f = Err e"
| "res_bind Panic f = Panic"

primrec map_err :: "('e \<Rightarrow> 'f) \<Rightarrow> ('e, 'a) result \<Rightarrow> ('f, 'a) result" where
  "map_err g (Ok x) = Ok x"
| "map_err g (Err e) = Err (g e)"
| "map_err g Panic = Panic"

primrec ok_or :: "'e \<Rightarrow> 'a option \<Rightarrow> ('e, 'a) result" where
  "ok_or e None = Err e"
| "ok_or e (Some x) = Ok x"

text \<open>A library call that reports its failure by a displayable error value.\<close>

primrec of_sum :: "'e + 'a \<Rightarrow> ('e, 'a) result" where
  "of_sum (Inl e) = Err e"
| "of_sum (Inr x) = Ok x"

text \<open>A library call that panics outside its documented domain.\<close>

primrec or_panic :: "'a option \<Rightarrow> ('e, 'a) result" where
  "or_panic None = Panic"
| "or_panic (Some x) = Ok x"

primrec is_ok :: "('e, 'a) result \<Rightarrow> bool" where
  "is_ok (Ok x) = True"
| "is_ok (Err e) = False"
| "is_ok Panic = False"

primrec result_ok :: "('e, 'a) result \<Rightarrow> 'a option" where
  "result_ok (Ok x) = Some x"
| "result_ok (Err e) = None"
| "result_ok Panic = None"

text \<open>A loop whose body may fail: stops at the first error or panic.\<close>

fun res_map :: "('a \<Rightarrow> ('e, 'b) result) \<Rightarrow> 'a list \<Rightarrow> ('e, 'b list) result" where
  "res_map f [] = Ok []"
| "res_map f (x # xs) = res_bind (f x) (\<lambda>y. res_bind (res_map f xs) (\<lambda>ys. Ok (y # ys)))"

named_theorems outcome

lemma res_bind_eq_Ok [outcome]: "res_bind r f = Ok y \<longleftrightarrow> (\<exists>x. r = Ok x \<and> f x = Ok y)"
  by (cases r) auto

lemma res_bind_eq_Err [outcome]:
  "res_bind r f = Err e \<longleftrightarrow> r = Err e \<or> (\<exists>x. r = Ok x \<and> f x = Err e)"
  by (cases r) auto

lemma res_bind_eq_Panic [outcome]:
  "res_bind r f = Panic \<longleftrightarrow> r = Panic \<or> (\<exists>x. r = Ok x \<and> f x = Panic)"
  by (cases r) auto

lemma map_err_eq_Ok [outcome]: "map_err g r = Ok y \<longleftrightarrow> r = Ok y"
  by (cases r) auto

lemma map_err_eq_Err [outcome]: "map_err g r = Err f \<longleftrightarrow> (\<exists>e. r = Err e \<and> f = g e)"
  by (cases r) auto

lemma map_err_eq_Panic [outcome]: "map_err g r = Panic \<longleftrightarrow> r = Panic"
  by (cases r) auto

lemma ok_or_eq_Ok [outcome]: "ok_or e r = Ok y \<longleftrightarrow> r = Some y"
  by (cases r) auto

lemma ok_or_eq_Err [outcome]: "ok_or e r = Err f \<longleftrightarrow> r = None \<and> f = e"
  by (cases r) auto

lemma ok_or_not_Panic [outcome, simp]: "ok_or e r \<noteq> Panic"
  by (cases r) auto

lemma of_sum_eq_Ok [outcome]: "of_sum r = Ok y \<longleftrightarrow> r = Inr y"
  by (cases r) auto

lemma of_sum_eq_Err [outcome]: "of_sum r = Err e \<longleftrightarrow> r = Inl e"
  by (cases r) auto

lemma of_sum_not_Panic [outcome, simp]: "of_sum r \<noteq> Panic"
  by (cases r) auto

lemma or_panic_eq_Ok [outcome]: "or_panic r = Ok y \<longleftrightarrow> r = Some y"
  by (cases r) auto

lemma or_panic_not_Err [outcome, simp]: "or_panic r \<noteq> Err e"
  by (cases r) auto

lemma or_panic_eq_Panic [outcome]: "or_panic r = Panic \<longleftrightarrow> r = None"
  by (cases r) auto

lemma is_ok_iff: "is_ok r \<longleftrightarrow> (\<exists>x. r = Ok x)"
  by (cases r) auto

lemma res_map_not_Panic:
  "(\<And>x. x \<in> set xs \<Longrightarrow> f x \<noteq> Panic) \<Longrightarrow> res_map f xs \<noteq> Panic"
  by (induction xs) (auto simp: outcome)

lemma res_map_Err_elem:
  "res_map f xs = Err e \<Longrightarrow> \<exists>x \<in> set xs. f x = Err e"
  by (induction xs) (auto simp: outcome)

lemma res_map_all_Ok:
  "(\<And>x. x \<in> set xs \<Longrightarrow> f x = Ok (g x)) \<Longrightarrow> res_map f xs = Ok (map g xs)"
  by (induction xs) auto

lemma res_map_eq_Ok:
  "res_map f xs = Ok ys \<longleftrightarrow> list_all2 (\<lambda>x y. f x = Ok y) xs ys"
  by (induction xs arbitrary: ys) (auto simp: outcome list_all2_Cons1)

section \<open>One failure value\<close>

text \<open>\<open>fails_only e r\<close>: \<open>r\<close> is no panic and its only possible error is \<open>e\<close>. The rules of the
  collection \<open>fails\<close> follow the structure of a function body.\<close>

definition fails_only :: "'e \<Rightarrow> ('e, 'a) result \<Rightarrow> bool" where
  "fails_only e r \<longleftrightarrow> r \<noteq> Panic \<and> (\<forall>f. r = Err f \<longrightarrow> f = e)"

named_theorems fails

lemma fails_only_Ok [fails, simp]: "fails_only e (Ok x)"
  by (simp add: fails_only_def)

lemma fails_only_Err [fails]: "fails_only e (Err e)"
  by (simp add: fails_only_def)

lemma fails_only_bind [fails]:
  "fails_only e r \<Longrightarrow> (\<And>x. r = Ok x \<Longrightarrow> fails_only e (f x)) \<Longrightarrow> fails_only e (res_bind r f)"
  by (cases r) (auto simp: fails_only_def)

lemma fails_only_map_err [fails]: "r \<noteq> Panic \<Longrightarrow> fails_only e (map_err (\<lambda>_. e) r)"
  by (cases r) (auto simp: fails_only_def)

lemma fails_only_ok_or [fails]: "fails_only e (ok_or e r)"
  by (cases r) (auto simp: fails_only_def)

lemma fails_only_if [fails]:
  "(c \<Longrightarrow> fails_only e r) \<Longrightarrow> (\<not> c \<Longrightarrow> fails_only e s) \<Longrightarrow> fails_only e (if c then r else s)"
  by simp

lemma fails_only_prod [fails]:
  "(\<And>x y. p = (x, y) \<Longrightarrow> fails_only e (f x y)) \<Longrightarrow> fails_only e (case p of (x, y) \<Rightarrow> f x y)"
  by (cases p) simp

lemma fails_only_not_Panic: "fails_only e r \<Longrightarrow> r \<noteq> Panic"
  by (simp add: fails_only_def)

section \<open>Slices\<close>

text \<open>\<^verbatim>\<open>&xs[..n]\<close>, \<^verbatim>\<open>&xs[n..]\<close> and \<^verbatim>\<open>xs[i]\<close> panic out of range.\<close>

definition slice_to :: "nat \<Rightarrow> 'a list \<Rightarrow> ('e, 'a list) result" where
  "slice_to n xs = (if n \<le> length xs then Ok (take n xs) else Panic)"

definition slice_from :: "nat \<Rightarrow> 'a list \<Rightarrow> ('e, 'a list) result" where
  "slice_from n xs = (if n \<le> length xs then Ok (drop n xs) else Panic)"

definition index :: "'a list \<Rightarrow> nat \<Rightarrow> ('e, 'a) result" where
  "index xs i = (if i < length xs then Ok (xs ! i) else Panic)"

text \<open>\<^verbatim>\<open>dst.copy_from_slice(src)\<close> on an array of \<open>n\<close> bytes panics on a length mismatch.\<close>

definition copy_from_slice :: "nat \<Rightarrow> 'a list \<Rightarrow> ('e, 'a list) result" where
  "copy_from_slice n src = (if length src = n then Ok src else Panic)"

lemmas slice_defs = slice_to_def slice_from_def index_def copy_from_slice_def

text \<open>\<^verbatim>\<open><[u8; N]>::try_from(slice)\<close>.\<close>

definition try_into_array :: "nat \<Rightarrow> 'a list \<Rightarrow> 'a list option" where
  "try_into_array n xs = (if length xs = n then Some xs else None)"

text \<open>\<^verbatim>\<open>chunks_exact(n)\<close> and its remainder.\<close>

function chunks_exact :: "nat \<Rightarrow> 'a list \<Rightarrow> 'a list list" where
  "chunks_exact n xs = (if n = 0 \<or> length xs < n then [] else take n xs # chunks_exact n (drop n xs))"
  by pat_completeness auto
termination
  by (relation "measure (\<lambda>(n, xs). length xs)") auto

declare chunks_exact.simps [simp del]

definition chunks_remainder :: "nat \<Rightarrow> 'a list \<Rightarrow> 'a list" where
  "chunks_remainder n xs = drop (length xs - length xs mod n) xs"

lemma chunks_exact_concat:
  assumes "\<And>x. x \<in> set xss \<Longrightarrow> length x = n" and "0 < n"
  shows "chunks_exact n (concat xss) = xss"
  using assms(1)
proof (induction xss)
  case Nil
  then show ?case using assms(2) by (simp add: chunks_exact.simps)
next
  case (Cons x xss)
  then have "length x = n" and "chunks_exact n (concat xss) = xss"
    by auto
  with assms(2) show ?case
    by (subst chunks_exact.simps) auto
qed

lemma chunks_exact_all_length: "x \<in> set (chunks_exact n xs) \<Longrightarrow> length x = n"
proof (induction n xs rule: chunks_exact.induct)
  case (1 n xs)
  show ?case
  proof (cases "n = 0 \<or> length xs < n")
    case True
    then show ?thesis using "1.prems" by (simp add: chunks_exact.simps)
  next
    case False
    then show ?thesis
      using "1.IH" "1.prems" by (auto simp: chunks_exact.simps [of n xs])
  qed
qed

lemma concat_chunks_exact: "length xs mod n = 0 \<Longrightarrow> concat (chunks_exact n xs) = xs"
proof (induction n xs rule: chunks_exact.induct)
  case (1 n xs)
  show ?case
  proof (cases "n = 0 \<or> length xs < n")
    case True
    then show ?thesis using "1.prems" by (auto simp: chunks_exact.simps)
  next
    case False
    then have "length (drop n xs) mod n = 0"
      using "1.prems" by (simp add: mod_if)
    then show ?thesis
      using "1.IH" False by (simp add: chunks_exact.simps [of n xs])
  qed
qed

lemma length_concat_const:
  "(\<And>x. x \<in> set xss \<Longrightarrow> length x = n) \<Longrightarrow> length (concat xss) = n * length xss"
  by (induction xss) auto

lemma chunks_remainder_concat:
  "(\<And>x. x \<in> set xss \<Longrightarrow> length x = n) \<Longrightarrow> chunks_remainder n (concat xss) = []"
  by (simp add: chunks_remainder_def length_concat_const)

lemma concat_eq_same_length:
  assumes "concat xss = concat yss" and "length xss = length yss"
    and "\<And>x. x \<in> set xss \<Longrightarrow> length x = n" and "\<And>y. y \<in> set yss \<Longrightarrow> length y = n"
  shows "xss = yss"
  using assms
proof (induction xss arbitrary: yss)
  case Nil
  then show ?case by simp
next
  case (Cons x xss)
  then obtain y yss' where y: "yss = y # yss'"
    by (cases yss) auto
  from Cons.prems y have "x @ concat xss = y @ concat yss'" and "length x = length y"
    by auto
  then have "x = y" and "concat xss = concat yss'"
    by (auto simp: append_eq_append_conv)
  with Cons.IH [of yss'] Cons.prems y show ?case by auto
qed

end
