(* ===== verification/Rust_Str.thy ===== *)
theory Rust_Str
  imports Prelude
begin

text \<open>
  The part of Rust's \<^verbatim>\<open>std::str\<close> and \<^verbatim>\<open>core::num\<close> that the program uses. A
  \<^verbatim>\<open>&str\<close> is a list of Unicode scalar values; \<open>utf8_encode\<close> is \<^verbatim>\<open>as_bytes\<close> and
  \<open>from_utf8\<close> is \<^verbatim>\<open>std::str::from_utf8\<close>, a strict decoder (no overlong forms, no
  surrogates, nothing above U+10FFFF). The theory proves the two inverse, and the decimal
  printer and parser inverse on the strict decimal form.
\<close>

section \<open>Strings and UTF-8\<close>

type_synonym str = "nat list"

definition lit :: "string \<Rightarrow> str" where
  "lit s = map of_char s"

definition is_scalar :: "nat \<Rightarrow> bool" where
  "is_scalar c \<longleftrightarrow> c < 0xD800 \<or> (0xE000 \<le> c \<and> c < 0x110000)"

definition wf_str :: "str \<Rightarrow> bool" where
  "wf_str s \<longleftrightarrow> list_all is_scalar s"

definition byte_of :: "nat \<Rightarrow> byte" where
  "byte_of n = word_of_nat n"

definition utf8_char :: "nat \<Rightarrow> bytes" where
  "utf8_char c =
     (if c < 0x80 then [byte_of c]
      else if c < 0x800 then [byte_of (0xC0 + c div 64), byte_of (0x80 + c mod 64)]
      else if c < 0x10000 then
        [byte_of (0xE0 + c div 4096), byte_of (0x80 + c div 64 mod 64), byte_of (0x80 + c mod 64)]
      else
        [byte_of (0xF0 + c div 262144), byte_of (0x80 + c div 4096 mod 64),
         byte_of (0x80 + c div 64 mod 64), byte_of (0x80 + c mod 64)])"

text \<open>\<^verbatim>\<open>str::as_bytes\<close>, and \<^verbatim>\<open>str::len\<close>, which counts bytes.\<close>

definition utf8_encode :: "str \<Rightarrow> bytes" where
  "utf8_encode s = concat (map utf8_char s)"

definition str_len :: "str \<Rightarrow> nat" where
  "str_len s = length (utf8_encode s)"

definition is_cont :: "byte \<Rightarrow> bool" where
  "is_cont b \<longleftrightarrow> 0x80 \<le> unat b \<and> unat b < 0xC0"

definition cont :: "byte \<Rightarrow> nat" where
  "cont b = unat b - 0x80"

fun from_utf8 :: "bytes \<Rightarrow> str option" where
  "from_utf8 [] = Some []"
| "from_utf8 (b # bs) =
     (if unat b < 0x80 then map_option (Cons (unat b)) (from_utf8 bs)
      else if unat b < 0xC2 then None
      else if unat b < 0xE0 then
        (case bs of
           c1 # r \<Rightarrow>
             if is_cont c1 then map_option (Cons ((unat b - 0xC0) * 64 + cont c1)) (from_utf8 r)
             else None
         | _ \<Rightarrow> None)
      else if unat b < 0xF0 then
        (case bs of
           c1 # c2 # r \<Rightarrow>
             (let v = (unat b - 0xE0) * 4096 + cont c1 * 64 + cont c2
              in if is_cont c1 \<and> is_cont c2 \<and> 0x800 \<le> v \<and> is_scalar v
                 then map_option (Cons v) (from_utf8 r) else None)
         | _ \<Rightarrow> None)
      else if unat b < 0xF5 then
        (case bs of
           c1 # c2 # c3 # r \<Rightarrow>
             (let v = (unat b - 0xF0) * 262144 + cont c1 * 4096 + cont c2 * 64 + cont c3
              in if is_cont c1 \<and> is_cont c2 \<and> is_cont c3 \<and> 0x10000 \<le> v \<and> is_scalar v
                 then map_option (Cons v) (from_utf8 r) else None)
         | _ \<Rightarrow> None)
      else None)"

lemma unat_byte_of: "k < 256 \<Longrightarrow> unat (byte_of k) = k"
  by (simp add: byte_of_def unat_of_nat take_bit_eq_mod)

lemma byte_of_unat [simp]: "byte_of (unat b) = b"
  by (simp add: byte_of_def)

lemma unat_byte_less: "unat (b :: byte) < 256"
  using unsigned_less [of b, where ?'a = nat] by simp

lemma lit_simps [simp]:
  "lit [] = []" "lit (c # cs) = of_char c # lit cs"
  by (simp_all add: lit_def)

lemma lit_append [simp]: "lit (xs @ ys) = lit xs @ lit ys"
  by (simp add: lit_def)

lemma utf8_encode_simps [simp]:
  "utf8_encode [] = []" "utf8_encode (c # cs) = utf8_char c @ utf8_encode cs"
  by (simp_all add: utf8_encode_def)

lemma utf8_encode_append [simp]: "utf8_encode (xs @ ys) = utf8_encode xs @ utf8_encode ys"
  by (simp add: utf8_encode_def)

lemma wf_str_simps [simp]:
  "wf_str []" "wf_str (c # cs) \<longleftrightarrow> is_scalar c \<and> wf_str cs"
  "wf_str (xs @ ys) \<longleftrightarrow> wf_str xs \<and> wf_str ys"
  by (simp_all add: wf_str_def)

lemma is_scalar_ascii: "c < 128 \<Longrightarrow> is_scalar c"
  by (simp add: is_scalar_def)

lemma wf_str_ascii: "list_all (\<lambda>c. c < 128) s \<Longrightarrow> wf_str s"
  by (auto simp: wf_str_def list_all_iff is_scalar_def)

lemma wf_str_subset: "wf_str t \<Longrightarrow> set s \<subseteq> set t \<Longrightarrow> wf_str s"
  by (auto simp: wf_str_def list_all_iff)

text \<open>Decoding one encoded scalar, width by width.\<close>

lemma split64: "c div 4096 * 4096 + c div 64 mod 64 * 64 + c mod 64 = (c :: nat)"
proof -
  have "c div 4096 = c div 64 div 64"
    by (simp add: div_mult2_eq [symmetric])
  then have "(c div 4096 * 64 + c div 64 mod 64) = c div 64"
    by simp
  then have "(c div 4096 * 64 + c div 64 mod 64) * 64 + c mod 64 = c"
    by simp
  then show ?thesis
    by (simp add: algebra_simps)
qed

lemma split4096: "c div 262144 * 262144 + c div 4096 mod 64 * 4096 = c div 4096 * (4096 :: nat)"
proof -
  have "c div 262144 = c div 4096 div 64"
    by (simp add: div_mult2_eq [symmetric])
  then have "c div 262144 * 64 + c div 4096 mod 64 = c div 4096"
    by simp
  then have "(c div 262144 * 64 + c div 4096 mod 64) * 4096 = c div 4096 * 4096"
    by simp
  then show ?thesis
    by (simp add: algebra_simps)
qed

lemma from_utf8_char2:
  assumes "0x80 \<le> c" and "c < 0x800"
  shows "from_utf8 (utf8_char c @ rest) = map_option (Cons c) (from_utf8 rest)"
proof -
  from assms have "c div 64 < 32" and "2 \<le> c div 64"
    by auto
  with assms show ?thesis
    by (simp add: utf8_char_def unat_byte_of is_cont_def cont_def)
qed

lemma from_utf8_char3:
  assumes "0x800 \<le> c" and "c < 0x10000" and "is_scalar c"
  shows "from_utf8 (utf8_char c @ rest) = map_option (Cons c) (from_utf8 rest)"
proof -
  from assms have "c div 4096 < 16"
    by auto
  with assms split64 [of c] show ?thesis
    by (simp add: utf8_char_def unat_byte_of is_cont_def cont_def Let_def)
qed

lemma from_utf8_char4:
  assumes "0x10000 \<le> c" and "c < 0x110000" and "is_scalar c"
  shows "from_utf8 (utf8_char c @ rest) = map_option (Cons c) (from_utf8 rest)"
proof -
  define p where "p = c div 262144"
  define q where "q = c div 4096 mod 64"
  define r where "r = c div 64 mod 64"
  define t where "t = c mod 64"
  have c: "p * 262144 + q * 4096 + r * 64 + t = c"
    using split64 [of c] split4096 [of c] unfolding p_def q_def r_def t_def by linarith
  have bounds: "p < 5" "q < 64" "r < 64" "t < 64"
    using assms(2) by (auto simp: p_def q_def r_def t_def)
  have "utf8_char c = [byte_of (0xF0 + p), byte_of (0x80 + q), byte_of (0x80 + r), byte_of (0x80 + t)]"
    using assms(1) by (simp add: utf8_char_def p_def q_def r_def t_def)
  with bounds c assms(1,3) show ?thesis
    by (simp add: unat_byte_of is_cont_def cont_def Let_def)
qed

lemma from_utf8_char:
  assumes "is_scalar c"
  shows "from_utf8 (utf8_char c @ rest) = map_option (Cons c) (from_utf8 rest)"
proof -
  consider (w1) "c < 0x80" | (w2) "0x80 \<le> c" "c < 0x800" | (w3) "0x800 \<le> c" "c < 0x10000"
    | (w4) "0x10000 \<le> c" "c < 0x110000"
    using assms unfolding is_scalar_def by linarith
  then show ?thesis
  proof cases
    case w1
    then show ?thesis by (simp add: utf8_char_def unat_byte_of)
  next
    case w2
    then show ?thesis by (rule from_utf8_char2)
  next
    case w3
    then show ?thesis using assms by (rule from_utf8_char3)
  next
    case w4
    then show ?thesis using assms by (rule from_utf8_char4)
  qed
qed

lemma from_utf8_encode_append:
  "wf_str s \<Longrightarrow> from_utf8 (utf8_encode s @ rest) = map_option ((@) s) (from_utf8 rest)"
  by (induction s)
    (simp_all add: from_utf8_char option.map_comp comp_def option.map_ident append_Nil [abs_def]
      append_Cons [abs_def])

lemma from_utf8_encode: "wf_str s \<Longrightarrow> from_utf8 (utf8_encode s) = Some s"
  using from_utf8_encode_append [of s "[]"] by simp

text \<open>The converse: what the decoder accepts is the encoding of its result.\<close>

lemma is_contE:
  assumes "is_cont b"
  obtains d where "d < 64" and "b = byte_of (0x80 + d)" and "cont b = d"
proof -
  from assms have "unat b = 0x80 + cont b" and "cont b < 64"
    by (auto simp: is_cont_def cont_def)
  then show thesis
    using that [of "cont b"] byte_of_unat [of b] by simp
qed

lemma byte_of_offset: "k \<le> unat b \<Longrightarrow> byte_of (k + (unat b - k)) = b"
  by simp

lemma divmod64:
  assumes "v = x * 64 + d" and "d < (64 :: nat)"
  shows "v div 64 = x" and "v mod 64 = d"
  using assms by simp_all

lemma utf8_char_two:
  assumes "0xC2 \<le> unat b" and "unat b < 0xE0" and "is_cont c1"
  shows "utf8_char ((unat b - 0xC0) * 64 + cont c1) = [b, c1]"
proof -
  obtain d where d: "d < 64" "c1 = byte_of (0x80 + d)" "cont c1 = d"
    using assms(3) by (rule is_contE)
  let ?v = "(unat b - 0xC0) * 64 + d"
  have "?v div 64 = unat b - 0xC0" and "?v mod 64 = d" and "\<not> ?v < 0x80" and "?v < 0x800"
    using d(1) assms(1,2) by auto
  then show ?thesis
    using assms(1) d by (simp add: utf8_char_def byte_of_offset)
qed

lemma utf8_char_three:
  assumes "0xE0 \<le> unat b" and "unat b < 0xF0" and "is_cont c1" and "is_cont c2"
    and v: "v = (unat b - 0xE0) * 4096 + cont c1 * 64 + cont c2" and "0x800 \<le> v"
  shows "utf8_char v = [b, c1, c2]"
proof -
  obtain d1 where d1: "d1 < 64" "c1 = byte_of (0x80 + d1)" "cont c1 = d1"
    using assms(3) by (rule is_contE)
  obtain d2 where d2: "d2 < 64" "c2 = byte_of (0x80 + d2)" "cont c2 = d2"
    using assms(4) by (rule is_contE)
  have w: "v = ((unat b - 0xE0) * 64 + d1) * 64 + d2"
    using v d1(3) d2(3) by simp
  note e2 = divmod64 [OF w d2(1)]
  note e1 = divmod64 [OF e2(1) d1(1)]
  have "v div 4096 = v div 64 div 64"
    by (simp add: div_mult2_eq [symmetric])
  with e1 e2 have "v div 4096 = unat b - 0xE0" and "v div 64 mod 64 = d1" and "v mod 64 = d2"
    by simp_all
  moreover have lt: "v < 0x10000"
    using assms(2) d1(1) d2(1) unfolding v d1(3) d2(3) by linarith
  ultimately show ?thesis
    using assms(1) \<open>0x800 \<le> v\<close> d1 d2 by (simp add: utf8_char_def byte_of_offset)
qed

lemma utf8_char_four:
  assumes "0xF0 \<le> unat b" and "unat b < 0xF5" and "is_cont c1" and "is_cont c2" and "is_cont c3"
    and v: "v = (unat b - 0xF0) * 262144 + cont c1 * 4096 + cont c2 * 64 + cont c3"
    and "0x10000 \<le> v"
  shows "utf8_char v = [b, c1, c2, c3]"
proof -
  obtain d1 where d1: "d1 < 64" "c1 = byte_of (0x80 + d1)" "cont c1 = d1"
    using assms(3) by (rule is_contE)
  obtain d2 where d2: "d2 < 64" "c2 = byte_of (0x80 + d2)" "cont c2 = d2"
    using assms(4) by (rule is_contE)
  obtain d3 where d3: "d3 < 64" "c3 = byte_of (0x80 + d3)" "cont c3 = d3"
    using assms(5) by (rule is_contE)
  have w: "v = (((unat b - 0xF0) * 64 + d1) * 64 + d2) * 64 + d3"
    using v d1(3) d2(3) d3(3) by simp
  note e3 = divmod64 [OF w d3(1)]
  note e2 = divmod64 [OF e3(1) d2(1)]
  note e1 = divmod64 [OF e2(1) d1(1)]
  have "v div 64 div 64 = v div 4096" and "v div 4096 div 64 = v div 262144"
    by (simp_all add: div_mult2_eq [symmetric])
  with e1 e2 e3 have "v div 262144 = unat b - 0xF0" and "v div 4096 mod 64 = d1"
    and "v div 64 mod 64 = d2" and "v mod 64 = d3"
    by simp_all
  then show ?thesis
    using assms(1) \<open>0x10000 \<le> v\<close> d1 d2 d3 by (simp add: utf8_char_def byte_of_offset)
qed

lemma from_utf8_sound: "from_utf8 bs = Some s \<Longrightarrow> utf8_encode s = bs \<and> wf_str s"
proof (induction bs arbitrary: s rule: from_utf8.induct)
  case 1
  then show ?case by simp
next
  case (2 b bs)
  consider (w1) "unat b < 0x80" | (bad) "0x80 \<le> unat b" "unat b < 0xC2"
    | (w2) "0xC2 \<le> unat b" "unat b < 0xE0" | (w3) "0xE0 \<le> unat b" "unat b < 0xF0"
    | (w4) "0xF0 \<le> unat b" "unat b < 0xF5" | (bad2) "0xF5 \<le> unat b"
    by linarith
  then show ?case
  proof cases
    case w1
    with "2.prems" obtain t where t: "from_utf8 bs = Some t" "s = unat b # t"
      by auto
    with "2.IH"(1) w1 show ?thesis
      by (auto simp: utf8_char_def is_scalar_def)
  next
    case w2
    with "2.prems" obtain c1 r t where t: "bs = c1 # r" "is_cont c1" "from_utf8 r = Some t"
      "s = ((unat b - 0xC0) * 64 + cont c1) # t"
      by (auto split: list.splits if_splits)
    from t(2) have "cont c1 < 64" by (auto simp: is_cont_def cont_def)
    with w2 have "is_scalar ((unat b - 0xC0) * 64 + cont c1)"
      unfolding is_scalar_def by linarith
    with "2.IH"(2) w2 t show ?thesis
      using utf8_char_two [OF w2 t(2)] by auto
  next
    case w3
    with "2.prems" obtain c1 c2 r t v where t: "bs = c1 # c2 # r" "is_cont c1" "is_cont c2"
      "v = (unat b - 0xE0) * 4096 + cont c1 * 64 + cont c2" "0x800 \<le> v" "is_scalar v"
      "from_utf8 r = Some t" "s = v # t"
      by (auto simp: Let_def split: list.splits if_splits)
    with "2.IH"(3) w3 show ?thesis
      using utf8_char_three [OF w3 t(2-5)] by auto
  next
    case w4
    with "2.prems" obtain c1 c2 c3 r t v where t: "bs = c1 # c2 # c3 # r" "is_cont c1" "is_cont c2"
      "is_cont c3"
      "v = (unat b - 0xF0) * 262144 + cont c1 * 4096 + cont c2 * 64 + cont c3" "0x10000 \<le> v"
      "is_scalar v" "from_utf8 r = Some t" "s = v # t"
      by (auto simp: Let_def split: list.splits if_splits)
    with "2.IH"(4) w4 show ?thesis
      using utf8_char_four [OF w4 t(2-6)] by auto
  qed (use "2.prems" in auto)
qed

lemma utf8_encode_inj: "wf_str s \<Longrightarrow> wf_str t \<Longrightarrow> utf8_encode s = utf8_encode t \<Longrightarrow> s = t"
  by (metis from_utf8_encode option.inject)

end
