(* ===== verification/Rust_Text.thy ===== *)
theory Rust_Text
  imports Rust_Str
begin

text \<open>
  Text operations of the standard library on the string model of \<open>Rust_Str\<close>: character
  classes, searching and splitting, the \<^verbatim>\<open>Display\<close> of an unsigned integer, integer
  parsing with a radix, and two-digit lowercase hex. Each is the behaviour the standard
  library documents; the lemmas are the ones the parsers of the program rest on.
\<close>

section \<open>Character classes\<close>

abbreviation (input) NL :: nat where "NL \<equiv> 10"
abbreviation (input) SP :: nat where "SP \<equiv> 32"
abbreviation (input) PLUS :: nat where "PLUS \<equiv> 43"

text \<open>\<^verbatim>\<open>char::is_whitespace\<close>: the Unicode \<^verbatim>\<open>White_Space\<close> property.\<close>

definition is_whitespace :: "nat \<Rightarrow> bool" where
  "is_whitespace c \<longleftrightarrow>
     (9 \<le> c \<and> c \<le> 13) \<or> c = 32 \<or> c = 0x85 \<or> c = 0xA0 \<or> c = 0x1680 \<or>
     (0x2000 \<le> c \<and> c \<le> 0x200A) \<or> c = 0x2028 \<or> c = 0x2029 \<or> c = 0x202F \<or> c = 0x205F \<or>
     c = 0x3000"

definition is_ascii_digit :: "nat \<Rightarrow> bool" where
  "is_ascii_digit c \<longleftrightarrow> 48 \<le> c \<and> c \<le> 57"

definition is_ascii_hexdigit :: "nat \<Rightarrow> bool" where
  "is_ascii_hexdigit c \<longleftrightarrow> is_ascii_digit c \<or> (65 \<le> c \<and> c \<le> 70) \<or> (97 \<le> c \<and> c \<le> 102)"

text \<open>\<^verbatim>\<open>char::to_digit\<close> for a radix of at most 36.\<close>

definition to_digit :: "nat \<Rightarrow> nat \<Rightarrow> nat option" where
  "to_digit radix c =
     (let d = (if is_ascii_digit c then c - 48
               else if 97 \<le> c \<and> c \<le> 122 then c - 97 + 10
               else if 65 \<le> c \<and> c \<le> 90 then c - 65 + 10 else radix)
      in if d < radix then Some d else None)"

section \<open>Searching and splitting\<close>

text \<open>\<^verbatim>\<open>s.split(c)\<close>: always at least one piece.\<close>

fun split_on :: "'a \<Rightarrow> 'a list \<Rightarrow> 'a list list" where
  "split_on c [] = [[]]"
| "split_on c (x # xs) =
     (if x = c then [] # split_on c xs
      else (case split_on c xs of [] \<Rightarrow> [[x]] | y # ys \<Rightarrow> (x # y) # ys))"

text \<open>\<^verbatim>\<open>s.split_once(c)\<close>.\<close>

fun split_once :: "'a \<Rightarrow> 'a list \<Rightarrow> ('a list \<times> 'a list) option" where
  "split_once c [] = None"
| "split_once c (x # xs) =
     (if x = c then Some ([], xs)
      else map_option (\<lambda>(l, r). (x # l, r)) (split_once c xs))"

text \<open>\<^verbatim>\<open>s.splitn(3, c)\<close>: at most three pieces, the last one unsplit.\<close>

definition splitn3 :: "'a \<Rightarrow> 'a list \<Rightarrow> 'a list list" where
  "splitn3 c s =
     (case split_once c s of
        None \<Rightarrow> [s]
      | Some (l, r) \<Rightarrow> (case split_once c r of None \<Rightarrow> [l, r] | Some (m, t) \<Rightarrow> [l, m, t]))"

text \<open>\<^verbatim>\<open>s.rfind(pat)\<close>: the index of the last occurrence.\<close>

fun rfind :: "'a list \<Rightarrow> 'a list \<Rightarrow> nat option" where
  "rfind pat [] = (if pat = [] then Some 0 else None)"
| "rfind pat (x # xs) =
     (case rfind pat xs of
        Some i \<Rightarrow> Some (Suc i)
      | None \<Rightarrow> (if prefix pat (x # xs) then Some 0 else None))"

text \<open>\<^verbatim>\<open>s.contains(pat)\<close>.\<close>

definition contains :: "'a list \<Rightarrow> 'a list \<Rightarrow> bool" where
  "contains pat s \<longleftrightarrow> rfind pat s \<noteq> None"

definition strip_prefix :: "'a list \<Rightarrow> 'a list \<Rightarrow> 'a list option" where
  "strip_prefix p s = (if prefix p s then Some (drop (length p) s) else None)"

definition ends_with :: "'a list \<Rightarrow> 'a \<Rightarrow> bool" where
  "ends_with s c \<longleftrightarrow> s \<noteq> [] \<and> last s = c"

definition strip_suffix :: "'a list \<Rightarrow> 'a \<Rightarrow> 'a list option" where
  "strip_suffix s c = (if ends_with s c then Some (butlast s) else None)"

lemma split_on_not_Nil [simp]: "split_on c xs \<noteq> []"
  by (induction xs) (auto split: list.splits)

lemma split_on_piece: "c \<notin> set xs \<Longrightarrow> split_on c xs = [xs]"
  by (induction xs) auto

lemma split_on_append: "c \<notin> set xs \<Longrightarrow> split_on c (xs @ c # ys) = xs # split_on c ys"
  by (induction xs) auto

lemma split_once_append: "c \<notin> set xs \<Longrightarrow> split_once c (xs @ c # ys) = Some (xs, ys)"
  by (induction xs) auto

lemma split_once_Some:
  "split_once c s = Some (l, r) \<Longrightarrow> s = l @ c # r \<and> c \<notin> set l"
  by (induction s arbitrary: l) (auto split: if_splits)

lemma splitn3_append:
  "c \<notin> set xs \<Longrightarrow> c \<notin> set ys \<Longrightarrow> splitn3 c (xs @ c # ys @ c # zs) = [xs, ys, zs]"
  by (simp add: splitn3_def split_once_append)

lemma splitn3_three:
  "splitn3 c s = [xs, ys, zs] \<Longrightarrow> s = xs @ c # ys @ c # zs \<and> c \<notin> set xs \<and> c \<notin> set ys"
  by (auto simp: splitn3_def split: option.splits prod.splits dest!: split_once_Some)

lemma strip_prefix_append [simp]: "strip_prefix p (p @ s) = Some s"
  by (simp add: strip_prefix_def)

lemma ends_with_snoc [simp]: "ends_with (xs @ [c]) d \<longleftrightarrow> c = d"
  by (simp add: ends_with_def)

lemma strip_suffix_snoc [simp]: "strip_suffix (xs @ [c]) c = Some xs"
  by (simp add: strip_suffix_def)

lemma strip_suffix_Some: "strip_suffix s c = Some t \<Longrightarrow> s = t @ [c]"
  by (auto simp: strip_suffix_def ends_with_def split: if_splits)

lemma ends_withE: "ends_with s c \<Longrightarrow> (\<And>t. s = t @ [c] \<Longrightarrow> P) \<Longrightarrow> P"
  by (metis append_butlast_last_id ends_with_def)

text \<open>The pieces of a split, joined again, are the whole.\<close>

fun join :: "'a \<Rightarrow> 'a list list \<Rightarrow> 'a list" where
  "join c [] = []"
| "join c [x] = x"
| "join c (x # xs) = x @ c # join c xs"

lemma join_Cons: "xs \<noteq> [] \<Longrightarrow> join c (x # xs) = x @ c # join c xs"
  by (cases xs) auto

lemma join_split_on: "join c (split_on c s) = s"
proof (induction s)
  case Nil
  then show ?case by simp
next
  case (Cons x s)
  obtain y ys where y: "split_on c s = y # ys"
    by (cases "split_on c s") auto
  with Cons show ?case
    by (cases ys) auto
qed

lemma split_on_pieces: "p \<in> set (split_on c s) \<Longrightarrow> c \<notin> set p"
  by (induction s arbitrary: p) (auto split: list.splits if_splits)

lemma split_on_join:
  assumes "xs \<noteq> []" and "\<And>x. x \<in> set xs \<Longrightarrow> c \<notin> set x"
  shows "split_on c (join c xs) = xs"
  using assms
proof (induction xs)
  case Nil
  then show ?case by simp
next
  case (Cons x xs)
  then show ?case
    by (cases xs) (auto simp: split_on_piece split_on_append)
qed

text \<open>Where the last occurrence is: at \<open>length l\<close>, when nothing later matches.\<close>

lemma rfind_None_iff: "rfind pat s = None \<longleftrightarrow> \<not> sublist pat s"
  by (induction s) (auto simp: sublist_Cons_right split: option.splits)

lemma contains_iff: "contains pat s \<longleftrightarrow> sublist pat s"
  using rfind_None_iff [of pat s] by (auto simp: contains_def)

lemma rfind_Some:
  "rfind pat s = Some i \<Longrightarrow> i \<le> length s \<and> prefix pat (drop i s)"
  by (induction s arbitrary: i) (auto split: option.splits if_splits)

lemma rfind_append:
  assumes "prefix pat s" and "s \<noteq> []" and "\<not> sublist pat (tl s)"
  shows "rfind pat (l @ s) = Some (length l)"
proof (induction l)
  case Nil
  obtain x xs where "s = x # xs"
    using assms(2) by (cases s) auto
  with assms show ?case
    using rfind_None_iff [of pat xs] by (auto split: option.splits)
next
  case (Cons a l)
  then show ?case by simp
qed

section \<open>Integers in text\<close>

text \<open>\<^verbatim>\<open>Display\<close> of an unsigned integer.\<close>

fun dec :: "nat \<Rightarrow> str" where
  "dec n = (if n < 10 then [48 + n] else dec (n div 10) @ [48 + n mod 10])"

declare dec.simps [simp del]

abbreviation dec64 :: "u64 \<Rightarrow> str" where
  "dec64 w \<equiv> dec (unat w)"

text \<open>\<^verbatim>\<open>Display\<close> of a signed integer.\<close>

definition dec_int :: "int \<Rightarrow> str" where
  "dec_int i = (if i < 0 then lit ''-'' @ dec (nat (- i)) else dec (nat i))"

text \<open>The messages of \<^verbatim>\<open>ParseIntError\<close>.\<close>

definition err_empty :: str where "err_empty = lit ''cannot parse integer from empty string''"
definition err_digit :: str where "err_digit = lit ''invalid digit found in string''"
definition err_pos_overflow :: str where
  "err_pos_overflow = lit ''number too large to fit in target type''"

text \<open>The digit loop of \<^verbatim>\<open>from_str_radix\<close> for an unsigned type with \<open>lim\<close> values.\<close>

fun parse_digits :: "nat \<Rightarrow> nat \<Rightarrow> nat \<Rightarrow> str \<Rightarrow> str + nat" where
  "parse_digits lim radix acc [] = Inr acc"
| "parse_digits lim radix acc (c # cs) =
     (case to_digit radix c of
        None \<Rightarrow> Inl err_digit
      | Some d \<Rightarrow>
          (if lim \<le> acc * radix + d then Inl err_pos_overflow
           else parse_digits lim radix (acc * radix + d) cs))"

definition from_str_radix :: "nat \<Rightarrow> nat \<Rightarrow> str \<Rightarrow> str + nat" where
  "from_str_radix lim radix s =
     (case s of
        [] \<Rightarrow> Inl err_empty
      | c # cs \<Rightarrow>
          (if c = PLUS then (if cs = [] then Inl err_digit else parse_digits lim radix 0 cs)
           else parse_digits lim radix 0 s))"

text \<open>\<^verbatim>\<open>s.parse::<u64>()\<close> and \<^verbatim>\<open>u32::from_str_radix(s, 16)\<close>.\<close>

definition parse_u64 :: "str \<Rightarrow> str + u64" where
  "parse_u64 s = map_sum id word_of_nat (from_str_radix (2 ^ 64) 10 s)"

definition u32_from_hex :: "str \<Rightarrow> str + u32" where
  "u32_from_hex s = map_sum id word_of_nat (from_str_radix (2 ^ 32) 16 s)"

lemma to_digit_10: "d < 10 \<Longrightarrow> to_digit 10 (48 + d) = Some d"
  by (simp add: to_digit_def is_ascii_digit_def)

lemma to_digit_10_Some: "is_ascii_digit c \<Longrightarrow> to_digit 10 c = Some (c - 48)"
  by (auto simp: to_digit_def is_ascii_digit_def Let_def)

lemma parse_digits_append:
  "parse_digits lim r acc (xs @ ys) =
     (case parse_digits lim r acc xs of Inl e \<Rightarrow> Inl e | Inr a \<Rightarrow> parse_digits lim r a ys)"
  by (induction xs arbitrary: acc) (auto split: option.splits)

lemma dec_digits: "c \<in> set (dec n) \<Longrightarrow> is_ascii_digit c"
proof (induction n arbitrary: c rule: dec.induct)
  case (1 n)
  then show ?case
    by (auto simp: dec.simps [of n] is_ascii_digit_def split: if_splits)
qed

lemma dec_not_Nil [simp]: "dec n \<noteq> []"
  by (subst dec.simps) simp

lemma dec_hd: "0 < n \<Longrightarrow> hd (dec n) \<noteq> 48"
proof (induction n rule: dec.induct)
  case (1 n)
  then show ?case
    by (cases "n < 10") (auto simp: dec.simps [of n] hd_append)
qed

lemma parse_digits_dec: "n < lim \<Longrightarrow> parse_digits lim 10 0 (dec n) = Inr n"
proof (induction n rule: dec.induct)
  case (1 n)
  show ?case
  proof (cases "n < 10")
    case True
    with "1.prems" show ?thesis by (simp add: dec.simps [of n] to_digit_10)
  next
    case False
    with "1" have "parse_digits lim 10 0 (dec (n div 10)) = Inr (n div 10)"
      by simp
    moreover have "n div 10 * 10 + n mod 10 = n" by simp
    ultimately show ?thesis
      using False "1.prems" by (simp add: dec.simps [of n] parse_digits_append to_digit_10)
  qed
qed

lemma dec_ascii: "list_all (\<lambda>c. c < 128) (dec n)"
  by (fastforce simp: list_all_iff is_ascii_digit_def dest: dec_digits)

lemma dec_no_plus: "dec n = c # cs \<Longrightarrow> c \<noteq> PLUS"
  using dec_digits [of c n] by (auto simp: is_ascii_digit_def)

lemma parse_u64_dec: "parse_u64 (dec64 w) = Inr w"
proof -
  have "unat w < 2 ^ 64"
    using unsigned_less [of w, where ?'a = nat] by simp
  then have "from_str_radix (2 ^ 64) 10 (dec64 w) = Inr (unat w)"
    using parse_digits_dec [of "unat w" "2 ^ 64"]
    by (auto simp: from_str_radix_def dest: dec_no_plus split: list.split)
  then show ?thesis by (simp add: parse_u64_def)
qed

text \<open>On digits without a leading zero the parser inverts the printer.\<close>

lemma parse_digits_strict:
  assumes "parse_digits lim 10 0 s = Inr v" and "s \<noteq> []" and "list_all is_ascii_digit s"
    and "length s > 1 \<Longrightarrow> hd s \<noteq> 48"
  shows "s = dec v \<and> v < max lim 1"
  using assms
proof (induction s arbitrary: v rule: rev_induct)
  case Nil
  then show ?case by simp
next
  case (snoc c s)
  from snoc.prems obtain a where a: "parse_digits lim 10 0 s = Inr a"
    and v: "v = a * 10 + (c - 48)" "a * 10 + (c - 48) < lim" and c: "is_ascii_digit c"
    by (auto simp: parse_digits_append to_digit_10_Some split: sum.splits if_splits)
  show ?case
  proof (cases "s = []")
    case True
    with a v c show ?thesis
      by (auto simp: dec.simps [of "c - 48"] is_ascii_digit_def)
  next
    case False
    with snoc.prems have h: "hd s \<noteq> 48" and "list_all is_ascii_digit s"
      by (auto simp: hd_append)
    with snoc.IH [OF a False] have s: "s = dec a" by auto
    have "a \<noteq> 0"
    proof
      assume "a = 0"
      with s h show False by (simp add: dec.simps [of 0])
    qed
    obtain d where d: "c = 48 + d" "d < 10"
      using c by (auto simp: is_ascii_digit_def intro: that [of "c - 48"])
    with v(1) \<open>a \<noteq> 0\<close> have "v div 10 = a" and "v mod 10 = d" and "\<not> v < 10"
      by auto
    then have "dec v = dec a @ [48 + d]"
      by (simp add: dec.simps [of v])
    with s d v show ?thesis
      by simp
  qed
qed

section \<open>Two-digit hex\<close>

definition hex_digit :: "nat \<Rightarrow> nat" where
  "hex_digit n = (if n < 10 then 48 + n else 87 + n)"

text \<open>The format \<^verbatim>\<open>{b:02x}\<close> of a byte.\<close>

definition fmt_02x :: "byte \<Rightarrow> str" where
  "fmt_02x b = [hex_digit (unat b div 16), hex_digit (unat b mod 16)]"

lemma to_digit_hex: "n < 16 \<Longrightarrow> to_digit 16 (hex_digit n) = Some n"
  by (auto simp: to_digit_def hex_digit_def is_ascii_digit_def Let_def)

lemma hex_digit_class: "n < 16 \<Longrightarrow> is_ascii_hexdigit (hex_digit n)"
  by (auto simp: is_ascii_hexdigit_def is_ascii_digit_def hex_digit_def)

lemma hex_digit_ascii: "n < 16 \<Longrightarrow> hex_digit n < 128 \<and> hex_digit n \<noteq> PLUS \<and> hex_digit n \<noteq> NL"
  by (auto simp: hex_digit_def)

section \<open>ASCII text\<close>

lemma utf8_encode_ascii: "list_all (\<lambda>c. c < 128) s \<Longrightarrow> utf8_encode s = map byte_of s"
  by (induction s) (auto simp: utf8_char_def)

lemma str_len_ascii: "list_all (\<lambda>c. c < 128) s \<Longrightarrow> str_len s = length s"
  by (simp add: str_len_def utf8_encode_ascii)

lemma str_len_append [simp]: "str_len (xs @ ys) = str_len xs + str_len ys"
  by (simp add: str_len_def)

lemma utf8_char_length: "1 \<le> length (utf8_char c)"
  by (simp add: utf8_char_def)

lemma utf8_char_high: "128 \<le> c \<Longrightarrow> 2 \<le> length (utf8_char c)"
  by (simp add: utf8_char_def)

lemma str_len_ge: "length s \<le> str_len s"
proof (induction s)
  case Nil
  then show ?case by (simp add: str_len_def)
next
  case (Cons c s)
  then show ?case
    using utf8_char_length [of c] by (simp add: str_len_def)
qed

end
