(* ===== verification/Crates.thy ===== *)
theory Crates
  imports Rust_Text
begin

text \<open>
  Third-party crates are parameters of the model. Each record below holds the functions of
  one crate that the program calls, and the predicate after it states what that crate
  documents and the program relies on. Nothing is assumed of the functions outside those
  predicates, which appear as named hypotheses in the theorems that need them.
\<close>

section \<open>base64: the STANDARD engine\<close>

text \<open>\<open>b64_decode\<close> returns the bytes, or the \<^verbatim>\<open>Display\<close> text of the decoding error.\<close>

record base64 =
  b64_encode :: "bytes \<Rightarrow> str"
  b64_decode :: "str \<Rightarrow> str + bytes"

text \<open>The standard alphabet and the padding character.\<close>

definition is_b64_char :: "nat \<Rightarrow> bool" where
  "is_b64_char c \<longleftrightarrow>
     (65 \<le> c \<and> c \<le> 90) \<or> (97 \<le> c \<and> c \<le> 122) \<or> is_ascii_digit c \<or> c = 43 \<or> c = 47 \<or> c = 61"

text \<open>Encoding is padded; decoding is its inverse and accepts the canonical form only
  (canonical padding, no stray trailing bits), which is the engine's default.\<close>

definition base64_standard :: "base64 \<Rightarrow> bool" where
  "base64_standard b \<longleftrightarrow>
     (\<forall>x. b64_decode b (b64_encode b x) = Inr x) \<and>
     (\<forall>s x. b64_decode b s = Inr x \<longrightarrow> b64_encode b x = s) \<and>
     (\<forall>x. list_all is_b64_char (b64_encode b x)) \<and>
     (\<forall>x. length (b64_encode b x) = 4 * ((length x + 2) div 3))"

lemma base64_decode_encode [simp]:
  "base64_standard b \<Longrightarrow> b64_decode b (b64_encode b x) = Inr x"
  by (simp add: base64_standard_def)

lemma base64_decode_canonical: "base64_standard b \<Longrightarrow> b64_decode b s = Inr x \<Longrightarrow> b64_encode b x = s"
  by (simp add: base64_standard_def)

lemma base64_chars: "base64_standard b \<Longrightarrow> c \<in> set (b64_encode b x) \<Longrightarrow> is_b64_char c"
  by (auto simp: base64_standard_def list_all_iff)

lemma base64_length: "base64_standard b \<Longrightarrow> length (b64_encode b x) = 4 * ((length x + 2) div 3)"
  by (simp add: base64_standard_def)

lemma is_b64_char_ascii: "is_b64_char c \<Longrightarrow> 43 \<le> c \<and> c < 128"
  by (auto simp: is_b64_char_def is_ascii_digit_def)

lemma base64_ascii: "base64_standard b \<Longrightarrow> list_all (\<lambda>c. c < 128) (b64_encode b x)"
  by (auto simp: list_all_iff dest: base64_chars is_b64_char_ascii)

lemma base64_text:
  assumes "base64_standard b"
  shows "NL \<notin> set (b64_encode b x)" and "SP \<notin> set (b64_encode b x)"
    and "list_all (\<lambda>c. 32 \<le> c) (b64_encode b x)"
  using base64_chars [OF assms, of _ x] is_b64_char_ascii by (fastforce simp: list_all_iff)+

lemma base64_not_Nil: "base64_standard b \<Longrightarrow> x \<noteq> [] \<Longrightarrow> b64_encode b x \<noteq> []"
  using base64_length [of b x] by (cases x) auto

section \<open>sha2: SHA-256\<close>

type_synonym sha256 = "bytes \<Rightarrow> bytes"

definition sha256_size :: "sha256 \<Rightarrow> bool" where
  "sha256_size sha \<longleftrightarrow> (\<forall>x. length (sha x) = 32)"

lemma sha256_length [simp]: "sha256_size sha \<Longrightarrow> length (sha x) = 32"
  by (simp add: sha256_size_def)

section \<open>ed25519-dalek\<close>

text \<open>
  A signing key is its 32-byte seed: \<open>ed_public\<close> is the encoded verifying key of
  \<^verbatim>\<open>SigningKey::from_bytes\<close>, \<open>ed_sign\<close> its deterministic signature. \<open>ed_point_ok\<close>
  says whether \<^verbatim>\<open>VerifyingKey::from_bytes\<close> accepts the bytes and \<open>ed_verify_strict\<close>
  is \<^verbatim>\<open>verify_strict\<close> under that key.
\<close>

record ed25519 =
  ed_public :: "bytes \<Rightarrow> bytes"
  ed_point_ok :: "bytes \<Rightarrow> bool"
  ed_sign :: "bytes \<Rightarrow> bytes \<Rightarrow> bytes"
  ed_verify_strict :: "bytes \<Rightarrow> bytes \<Rightarrow> bytes \<Rightarrow> bool"

text \<open>Sizes, and that a signature verifies under the public key of its seed.\<close>

definition ed25519_signs :: "ed25519 \<Rightarrow> bool" where
  "ed25519_signs ed \<longleftrightarrow>
     (\<forall>seed. length seed = 32 \<longrightarrow> length (ed_public ed seed) = 32) \<and>
     (\<forall>seed m. length seed = 32 \<longrightarrow> length (ed_sign ed seed m) = 64) \<and>
     (\<forall>seed m. length seed = 32 \<longrightarrow>
        ed_point_ok ed (ed_public ed seed) \<and>
        ed_verify_strict ed (ed_public ed seed) m (ed_sign ed seed m))"

text \<open>A signature that verifies binds its message: under one key, \<^verbatim>\<open>verify_strict\<close> does not accept one signature for two
  messages. As with collisions of hashes this can only be asked of given messages.\<close>

definition ed25519_binds :: "ed25519 \<Rightarrow> bytes \<Rightarrow> bytes set \<Rightarrow> bool" where
  "ed25519_binds ed pk ms \<longleftrightarrow>
     (\<forall>m \<in> ms. \<forall>m' \<in> ms. \<forall>s. ed_verify_strict ed pk m s \<and> ed_verify_strict ed pk m' s \<longrightarrow> m = m')"

lemma ed25519_signsD:
  assumes "ed25519_signs ed" and "length seed = 32"
  shows "length (ed_public ed seed) = 32" and "length (ed_sign ed seed m) = 64"
    and "ed_point_ok ed (ed_public ed seed)"
    and "ed_verify_strict ed (ed_public ed seed) m (ed_sign ed seed m)"
  using assms by (auto simp: ed25519_signs_def)

end
