(* ===== verification/Errors.thy ===== *)
theory Errors
  imports Rust_Text
begin

text \<open>
  \<^verbatim>\<open>TrustError\<close> of \<^verbatim>\<open>lys-core/src/error.rs\<close> with the \<^verbatim>\<open>Display\<close> text that
  \<^verbatim>\<open>thiserror\<close> derives from the \<^verbatim>\<open>#[error(..)]\<close> attributes. The \<open>reason\<close> of a
  variant is the text the code puts there.
\<close>

datatype trust_error =
    CertificateGeneration str
  | CertificateParsing str
  | CertificateVerification str
  | CertificateRevocation str
  | MerkleTree str
  | Seal str
  | UnsealFailed
  | AttestationFailed
  | KeyManagement str
  | Signing str
  | InvalidSignature
  | CheckpointEncoding str
  | CheckpointParsing str
  | VerifierKey str
  | NoteVerification
  | LogArtifactEncoding str
  | LogArtifactVerification

type_synonym 'a trust_result = "(trust_error, 'a) result"

fun display_trust_error :: "trust_error \<Rightarrow> str" where
  "display_trust_error (CertificateGeneration reason) = lit ''certificate generation failed: '' @ reason"
| "display_trust_error (CertificateParsing reason) = lit ''certificate parsing failed: '' @ reason"
| "display_trust_error (CertificateVerification reason) = lit ''certificate verification failed: '' @ reason"
| "display_trust_error (CertificateRevocation reason) = lit ''certificate revocation failed: '' @ reason"
| "display_trust_error (MerkleTree reason) = lit ''merkle tree operation failed: '' @ reason"
| "display_trust_error (Seal reason) = lit ''seal failed: '' @ reason"
| "display_trust_error UnsealFailed = lit ''unseal failed''"
| "display_trust_error AttestationFailed = lit ''attestation verification failed''"
| "display_trust_error (KeyManagement reason) = lit ''key management failed: '' @ reason"
| "display_trust_error (Signing reason) = lit ''signing failed: '' @ reason"
| "display_trust_error InvalidSignature = lit ''invalid signature''"
| "display_trust_error (CheckpointEncoding reason) = lit ''checkpoint encoding failed: '' @ reason"
| "display_trust_error (CheckpointParsing reason) = lit ''checkpoint parsing failed: '' @ reason"
| "display_trust_error (VerifierKey reason) = lit ''invalid note verifier key: '' @ reason"
| "display_trust_error NoteVerification = lit ''note verification failed''"
| "display_trust_error (LogArtifactEncoding reason) = lit ''log artifact encoding failed: '' @ reason"
| "display_trust_error LogArtifactVerification = lit ''log artifact verification failed''"

declare display_trust_error.simps [simp del]

end
