(* ===== verification/Interfaces.thy ===== *)
theory Interfaces
  imports Prelude
begin

text \<open>
  The contracts that several components share, as locales. A \<open>wire_codec\<close> is an
  encoder with a decoder that gives every valid value back; a \<open>canonical_codec\<close> also
  accepts nothing but the encodings of valid values, which is what the program calls
  strict or canonical parsing. A \<open>collapsing\<close> operation never panics and reports every
  failure by one fixed error value, which is what the program calls non-oracle
  verification. The switch \<open>hyp\<close> of the codecs carries the documented behaviour of the
  library the codec is built on (base64, CBOR), where it is built on one.
\<close>

locale wire_codec =
  fixes hyp :: bool
    and valid :: "'v \<Rightarrow> bool"
    and enc :: "'v \<Rightarrow> 'w"
    and parse :: "'w \<Rightarrow> ('e, 'v) result"
  assumes parse_enc: "hyp \<Longrightarrow> valid v \<Longrightarrow> parse (enc v) = Ok v"
begin

lemma enc_inj: "hyp \<Longrightarrow> valid v \<Longrightarrow> valid w \<Longrightarrow> enc v = enc w \<Longrightarrow> v = w"
  by (metis parse_enc result.inject(1))

lemma reparse: "hyp \<Longrightarrow> valid v \<Longrightarrow> parse t = Ok v \<Longrightarrow> parse (enc v) = parse t"
  by (simp add: parse_enc)

end

locale canonical_codec = wire_codec +
  assumes parse_canonical: "hyp \<Longrightarrow> parse t = Ok v \<Longrightarrow> valid v \<and> enc v = t"
begin

lemma parse_iff: "hyp \<Longrightarrow> parse t = Ok v \<longleftrightarrow> valid v \<and> t = enc v"
  using parse_enc parse_canonical by blast

lemma parse_unique: "hyp \<Longrightarrow> parse t = Ok v \<Longrightarrow> parse u = Ok v \<Longrightarrow> t = u"
  using parse_canonical by blast

lemma noncanonical_rejected: "hyp \<Longrightarrow> (\<And>v. valid v \<Longrightarrow> enc v \<noteq> t) \<Longrightarrow> \<not> is_ok (parse t)"
  using parse_canonical by (auto simp: is_ok_iff)

end

locale collapsing =
  fixes run :: "'i \<Rightarrow> ('e, 'a) result"
    and failure :: 'e
  assumes only_failure: "run i = Err e \<Longrightarrow> e = failure"
    and no_panic: "run i \<noteq> Panic"
begin

lemma run_cases: "(\<exists>x. run i = Ok x) \<or> run i = Err failure"
  using only_failure no_panic by (cases "run i") auto

lemma fails: "fails_only failure (run i)"
  using only_failure no_panic by (auto simp: fails_only_def)

lemma not_ok_iff: "\<not> is_ok (run i) \<longleftrightarrow> run i = Err failure"
  using run_cases [of i] by (auto simp: is_ok_iff)

lemma indistinguishable:
  "\<not> is_ok (run i) \<Longrightarrow> \<not> is_ok (run j) \<Longrightarrow> run i = run j"
  by (simp add: not_ok_iff)

text \<open>A caller that maps every error to its own single value collapses as well.\<close>

lemma map_err_const: "map_err (\<lambda>_. e) (run i) = Err f \<Longrightarrow> f = e"
  by (auto simp: outcome)

end

section \<open>Append-only logs\<close>

text \<open>
  A log that starts empty and grows by appends: \<open>holds xs t\<close> says that \<open>t\<close> holds the stored
  forms \<open>xs\<close> of its entries in order, \<open>enc\<close> is the stored form of an entry (an error when it
  has none), and \<open>room n\<close> that a log of \<open>n\<close> entries can still grow. The client replays a
  sequence of entries, which is how a log is rebuilt on restart.
\<close>

locale append_log =
  fixes holds :: "'s list \<Rightarrow> 't \<Rightarrow> bool"
    and empty_log :: "'t"
    and enc :: "'l \<Rightarrow> ('e, 's) result"
    and append :: "'t \<Rightarrow> 'l \<Rightarrow> ('e, 't \<times> 'n) result"
    and room :: "nat \<Rightarrow> bool"
    and size_of :: "nat \<Rightarrow> 'n"
  assumes holds_empty: "holds [] empty_log"
    and append_Ok: "\<And>xs t l x. holds xs t \<Longrightarrow> room (length xs) \<Longrightarrow> enc l = Ok x \<Longrightarrow>
      \<exists>t'. append t l = Ok (t', size_of (Suc (length xs))) \<and> holds (xs @ [x]) t'"
    and append_Err: "\<And>t l e. enc l = Err e \<Longrightarrow> append t l = Err e"
    and enc_total: "\<And>l. enc l \<noteq> Panic"
    and room_down: "\<And>m n. room n \<Longrightarrow> m \<le> n \<Longrightarrow> room m"
begin

fun replay :: "'t \<Rightarrow> 'l list \<Rightarrow> ('e, 't) result" where
  "replay t [] = Ok t"
| "replay t (l # ls) = res_bind (append t l) (\<lambda>(t', n). replay t' ls)"

lemma replay_Ok:
  "holds xs t \<Longrightarrow> res_map enc ls = Ok ys \<Longrightarrow> (ls \<noteq> [] \<Longrightarrow> room (length xs + length ls - 1)) \<Longrightarrow>
   \<exists>t'. replay t ls = Ok t' \<and> holds (xs @ ys) t'"
proof (induction ls arbitrary: t xs ys)
  case Nil
  then show ?case by simp
next
  case (Cons l ls)
  from Cons.prems(2) obtain y zs where y: "enc l = Ok y" "res_map enc ls = Ok zs" "ys = y # zs"
    by (auto simp: outcome)
  have "room (length xs)"
    using Cons.prems(3) room_down by fastforce
  with append_Ok [OF Cons.prems(1) _ y(1)] obtain t' where
    t': "append t l = Ok (t', size_of (Suc (length xs)))" "holds (xs @ [y]) t'" by blast
  have "\<exists>u. replay t' ls = Ok u \<and> holds ((xs @ [y]) @ zs) u"
    by (rule Cons.IH [OF t'(2) y(2)]) (use Cons.prems(3) in \<open>cases ls; simp\<close>)
  with t'(1) y(3) show ?case by simp
qed

lemma replay_empty:
  "res_map enc ls = Ok ys \<Longrightarrow> (ls \<noteq> [] \<Longrightarrow> room (length ls - 1)) \<Longrightarrow>
   \<exists>t. replay empty_log ls = Ok t \<and> holds ys t"
  using replay_Ok [OF holds_empty] by simp

lemma replay_Err:
  "holds xs t \<Longrightarrow> res_map enc ls = Err e \<Longrightarrow> room (length xs + length ls) \<Longrightarrow> replay t ls = Err e"
proof (induction ls arbitrary: t xs)
  case Nil
  then show ?case by simp
next
  case (Cons l ls)
  show ?case
  proof (cases "enc l")
    case (Ok y)
    have "room (length xs)" using Cons.prems(3) room_down by fastforce
    with append_Ok [OF Cons.prems(1) _ Ok] obtain t' where
      t': "append t l = Ok (t', size_of (Suc (length xs)))" "holds (xs @ [y]) t'" by blast
    moreover have "replay t' ls = Err e"
      using Cons.IH [OF t'(2)] Cons.prems(2,3) Ok by (auto simp: outcome)
    ultimately show ?thesis by simp
  next
    case (Err f)
    with append_Err [OF Err] Cons.prems(2) show ?thesis by simp
  next
    case Panic
    with enc_total show ?thesis by simp
  qed
qed

end

end
