(* ===== verification/Identity.thy ===== *)
theory Identity
  imports Crates Errors Interfaces
begin

text \<open>
  \<^verbatim>\<open>Ed25519Identity\<close> of \<^verbatim>\<open>lys-core/src/keys/identity.rs\<close>: the key pair and its pure
  operations. The file and environment constructors are in the theory of the key files.
\<close>

record identity =
  signing_key :: bytes
  verifying_key :: bytes

definition from_seed :: "ed25519 \<Rightarrow> bytes \<Rightarrow> identity" where
  "from_seed ed seed = \<lparr>signing_key = seed, verifying_key = ed_public ed seed\<rparr>"

definition public_key_bytes :: "identity \<Rightarrow> bytes" where
  "public_key_bytes i = verifying_key i"

definition sign :: "ed25519 \<Rightarrow> identity \<Rightarrow> bytes \<Rightarrow> bytes" where
  "sign ed i message = ed_sign ed (signing_key i) message"

definition verify_signature :: "ed25519 \<Rightarrow> bytes \<Rightarrow> bytes \<Rightarrow> bytes \<Rightarrow> unit trust_result" where
  "verify_signature ed public_key message signature =
     res_bind (ok_or InvalidSignature (try_into_array 64 signature)) (\<lambda>sig_bytes.
     if \<not> ed_point_ok ed public_key then Err InvalidSignature
     else if \<not> ed_verify_strict ed public_key message sig_bytes then Err InvalidSignature
     else Ok ())"

text \<open>Every identity of the program comes from a 32-byte seed through \<open>from_seed\<close>.\<close>

definition wf_identity :: "ed25519 \<Rightarrow> identity \<Rightarrow> bool" where
  "wf_identity ed i \<longleftrightarrow> length (signing_key i) = 32 \<and> verifying_key i = ed_public ed (signing_key i)"

lemma wf_from_seed: "length seed = 32 \<Longrightarrow> wf_identity ed (from_seed ed seed)"
  by (simp add: wf_identity_def from_seed_def)

lemma wf_identity_sizes:
  assumes "ed25519_signs ed" and "wf_identity ed i"
  shows "length (public_key_bytes i) = 32" and "length (sign ed i m) = 64"
  using assms by (auto simp: wf_identity_def public_key_bytes_def sign_def ed25519_signsD)

lemma verify_signature_Ok:
  "verify_signature ed pk m s = Ok () \<longleftrightarrow>
     length s = 64 \<and> ed_point_ok ed pk \<and> ed_verify_strict ed pk m s"
  by (auto simp: verify_signature_def try_into_array_def)

lemma verify_signature_sign:
  assumes "ed25519_signs ed" and "wf_identity ed i"
  shows "verify_signature ed (public_key_bytes i) m (sign ed i m) = Ok ()"
  using assms
  by (auto simp: verify_signature_Ok wf_identity_def public_key_bytes_def sign_def ed25519_signsD)

interpretation verify_sig: collapsing "\<lambda>(ed, pk, m, s). verify_signature ed pk m s" InvalidSignature
  by unfold_locales
    (auto simp: verify_signature_def try_into_array_def outcome split: if_splits)

end
