(* ===== verification/Hex.thy ===== *)
theory Hex
  imports Rust_Text Interfaces
begin

unbundle bit_operations_syntax

text \<open>
  Big-endian integers as bytes (\<^verbatim>\<open>to_be_bytes\<close>), the lowercase hex printer that
  \<^verbatim>\<open>lys-core/src/lib.rs\<close> and \<^verbatim>\<open>lys/src/commands/hex.rs\<close> both carry, and the strict
  64-digit parser of the command line. The parser inverts the printer.
\<close>

section \<open>Big-endian bytes\<close>

primrec be_bytes :: "nat \<Rightarrow> nat \<Rightarrow> bytes" where
  "be_bytes 0 v = []"
| "be_bytes (Suc k) v = be_bytes k (v div 256) @ [byte_of (v mod 256)]"

definition be_val :: "bytes \<Rightarrow> nat" where
  "be_val bs = foldl (\<lambda>a b. a * 256 + unat b) 0 bs"

lemma be_val_Nil [simp]: "be_val [] = 0"
  by (simp add: be_val_def)

lemma be_val_snoc [simp]: "be_val (bs @ [b]) = be_val bs * 256 + unat b"
  by (simp add: be_val_def)

lemma length_be_bytes [simp]: "length (be_bytes k v) = k"
  by (induction k arbitrary: v) auto

lemma be_bytes_be_val: "be_bytes (length bs) (be_val bs) = bs"
proof (induction bs rule: rev_induct)
  case Nil
  then show ?case by simp
next
  case (snoc b bs)
  have "(be_val bs * 256 + unat b) div 256 = be_val bs" and "(be_val bs * 256 + unat b) mod 256 = unat b"
    using unat_byte_less [of b] by simp_all
  with snoc show ?case by simp
qed

lemma be_val_be_bytes: "v < 256 ^ k \<Longrightarrow> be_val (be_bytes k v) = v"
proof (induction k arbitrary: v)
  case 0
  then show ?case by simp
next
  case (Suc k)
  then have "v div 256 < 256 ^ k"
    by (simp add: less_mult_imp_div_less mult.commute)
  with Suc show ?case
    by (simp add: unat_byte_of)
qed

lemma be_val_bound: "be_val bs < 256 ^ length bs"
proof (induction bs rule: rev_induct)
  case Nil
  then show ?case by simp
next
  case (snoc b bs)
  then show ?case
    using unat_byte_less [of b] by simp
qed

lemma foldl_be_val: "foldl (\<lambda>a b. a * 256 + unat b) acc bs = acc * 256 ^ length bs + be_val bs"
  by (induction bs rule: rev_induct) (auto simp: algebra_simps)

text \<open>\<^verbatim>\<open>to_be_bytes\<close> of a \<^verbatim>\<open>u32\<close>.\<close>

definition u32_to_be_bytes :: "u32 \<Rightarrow> bytes" where
  "u32_to_be_bytes w = be_bytes 4 (unat w)"

section \<open>Printing\<close>

primrec hex_lower :: "bytes \<Rightarrow> str" where
  "hex_lower [] = []"
| "hex_lower (b # bs) = fmt_02x b @ hex_lower bs"

text \<open>The command line's own copy.\<close>

primrec cli_hex_lower :: "bytes \<Rightarrow> str" where
  "cli_hex_lower [] = []"
| "cli_hex_lower (b # bs) = fmt_02x b @ cli_hex_lower bs"

lemma cli_hex_lower_eq: "cli_hex_lower bs = hex_lower bs"
  by (induction bs) auto

lemma byte_nibbles: "unat (b :: byte) div 16 < 16" "unat b mod 16 < 16"
  using unat_byte_less [of b] by auto

lemma hex_lower_chars: "c \<in> set (hex_lower bs) \<Longrightarrow> is_ascii_hexdigit c \<and> c < 128 \<and> c \<noteq> PLUS"
  by (induction bs)
    (auto simp: fmt_02x_def byte_nibbles hex_digit_class hex_digit_ascii)

lemma length_hex_lower [simp]: "length (hex_lower bs) = 2 * length bs"
  by (induction bs) (auto simp: fmt_02x_def)

lemma hex_lower_ascii: "list_all (\<lambda>c. c < 128) (hex_lower bs)"
  by (auto simp: list_all_iff dest: hex_lower_chars)

lemma parse_digits_hex_lower:
  assumes "acc * 256 ^ length bs + be_val bs < lim"
  shows "parse_digits lim 16 acc (hex_lower bs) = Inr (acc * 256 ^ length bs + be_val bs)"
  using assms
proof (induction bs arbitrary: acc)
  case Nil
  then show ?case by simp
next
  case (Cons b bs)
  let ?acc = "acc * 256 + unat b"
  have split: "acc * 256 ^ length (b # bs) + be_val (b # bs) = ?acc * 256 ^ length bs + be_val bs"
    using foldl_be_val [of acc "b # bs"] foldl_be_val [of ?acc bs] by simp
  with Cons have IH: "parse_digits lim 16 ?acc (hex_lower bs) = Inr (?acc * 256 ^ length bs + be_val bs)"
    and lim: "?acc * 256 ^ length bs + be_val bs < lim"
    by auto
  have "?acc \<le> ?acc * 256 ^ length bs"
    by simp
  with lim have l2: "?acc < lim"
    using le_add1 [of "?acc * 256 ^ length bs" "be_val bs"] by (meson le_less_trans order_trans)
  have nib: "(acc * 16 + unat b div 16) * 16 + unat b mod 16 = ?acc"
    by simp
  with l2 have l1: "acc * 16 + unat b div 16 < lim"
    by linarith
  from IH l1 l2 nib split show ?case
    by (simp add: fmt_02x_def to_digit_hex byte_nibbles ac_simps)
qed

section \<open>Parsing 64 digits\<close>

fun parse_hex_pairs :: "bytes list \<Rightarrow> bytes option" where
  "parse_hex_pairs [] = Some []"
| "parse_hex_pairs (pair # pairs) =
     (case to_digit 16 (unat (pair ! 0)) of
        None \<Rightarrow> None
      | Some high \<Rightarrow>
          (case to_digit 16 (unat (pair ! 1)) of
             None \<Rightarrow> None
           | Some low \<Rightarrow>
               (if push_bit 4 high OR low < 256
                then map_option (Cons (byte_of (push_bit 4 high OR low))) (parse_hex_pairs pairs)
                else None)))"

definition parse_hex_32 :: "str \<Rightarrow> bytes option" where
  "parse_hex_32 text =
     (let bytes = utf8_encode text
      in if length bytes \<noteq> 64 then None else parse_hex_pairs (chunks_exact 2 bytes))"

lemma nibbles_or:
  assumes "h < 16" and "l < (16 :: nat)"
  shows "push_bit 4 h OR l = h * 16 + l"
proof -
  have "and (push_bit 4 h) l = 0"
  proof (rule bit_eqI)
    fix n
    show "bit (push_bit 4 h AND l) n = bit 0 n"
    proof (cases "n < 4")
      case True
      then show ?thesis by (simp add: bit_simps)
    next
      case False
      have "l = take_bit 4 l"
        using assms(2) by (simp add: take_bit_nat_eq_self)
      with False have "\<not> bit l n"
        by (metis bit_take_bit_iff)
      then show ?thesis by (simp add: bit_simps)
    qed
  qed
  then have "push_bit 4 h + l = push_bit 4 h OR l"
    by (simp add: disjunctive_add_eq_or)
  then show ?thesis
    by (simp add: push_bit_eq_mult)
qed

lemma chunks_exact_hex:
  "chunks_exact 2 (utf8_encode (hex_lower bs)) = map (\<lambda>b. map byte_of (fmt_02x b)) bs"
proof -
  have "utf8_encode (hex_lower bs) = concat (map (\<lambda>b. map byte_of (fmt_02x b)) bs)"
    by (induction bs)
      (auto simp: fmt_02x_def utf8_char_def hex_digit_ascii byte_nibbles)
  moreover have "chunks_exact 2 (concat (map (\<lambda>b. map byte_of (fmt_02x b)) bs))
      = map (\<lambda>b. map byte_of (fmt_02x b)) bs"
    by (rule chunks_exact_concat) (auto simp: fmt_02x_def)
  ultimately show ?thesis by simp
qed

lemma unat_hex_byte: "n < 16 \<Longrightarrow> unat (byte_of (hex_digit n)) = hex_digit n"
  using hex_digit_ascii [of n] by (simp add: unat_byte_of)

lemma parse_hex_pairs_map:
  "parse_hex_pairs (map (\<lambda>b. map byte_of (fmt_02x b)) bs) = Some bs"
proof (induction bs)
  case Nil
  then show ?case by simp
next
  case (Cons b bs)
  have "unat b div 16 * 16 + unat b mod 16 = unat b"
    by simp
  with Cons show ?case
    by (simp add: fmt_02x_def unat_hex_byte byte_nibbles to_digit_hex nibbles_or unat_byte_less)
qed

lemma parse_hex_32_hex_lower: "length bs = 32 \<Longrightarrow> parse_hex_32 (hex_lower bs) = Some bs"
  using str_len_ascii [OF hex_lower_ascii, of bs]
  by (simp add: parse_hex_32_def str_len_def chunks_exact_hex parse_hex_pairs_map)

lemma parse_hex_pairs_length: "parse_hex_pairs ps = Some bs \<Longrightarrow> length bs = length ps"
  by (induction ps arbitrary: bs) (auto split: option.splits if_splits)

interpretation hex32: wire_codec True "\<lambda>bs. length bs = 32" hex_lower
  "\<lambda>t. ok_or () (parse_hex_32 t)"
  by unfold_locales (simp add: parse_hex_32_hex_lower)

end
