(* ===== verification/Verifier_Key_Model.thy ===== *)
theory Verifier_Key_Model
  imports Identity Hex
begin

text \<open>
  \<^verbatim>\<open>lys-core/src/checkpoint/verifier_key.rs\<close>, and \<^verbatim>\<open>key_id\<close> of
  \<^verbatim>\<open>note.rs\<close> on which it rests: key-name rules, the verifier key with its 4-byte id, and
  its text form \<^verbatim>\<open><name>+<hex id>+<base64(0x01 || key)>\<close>.
\<close>

section \<open>Names and key ids\<close>

definition validate_note_name :: "str \<Rightarrow> unit trust_result" where
  "validate_note_name name =
     (if name = [] then Err (VerifierKey (lit ''key name must not be empty''))
      else if list_ex is_whitespace name
        then Err (VerifierKey (lit ''key name must not contain whitespace''))
      else if PLUS \<in> set name
        then Err (VerifierKey (lit ''key name must not contain '' @ [39, 43, 39]))
      else Ok ())"

definition key_id :: "sha256 \<Rightarrow> str \<Rightarrow> bytes \<Rightarrow> bytes trust_result" where
  "key_id sha name public_key =
     res_bind (validate_note_name name) (\<lambda>_.
     let digest = sha (utf8_encode name @ [0x0a] @ [0x01] @ public_key)
     in res_bind (slice_to 4 digest) (\<lambda>head. copy_from_slice 4 head))"

section \<open>The verifier key\<close>

record verifier_key =
  vk_name :: str
  vk_key_id :: bytes
  vk_public_key :: bytes

definition verifier_key_new :: "sha256 \<Rightarrow> str \<Rightarrow> bytes \<Rightarrow> verifier_key trust_result" where
  "verifier_key_new sha name public_key =
     res_bind (key_id sha name public_key) (\<lambda>kid.
     Ok \<lparr>vk_name = name, vk_key_id = kid, vk_public_key = public_key\<rparr>)"

definition parse_key_id_hex :: "str \<Rightarrow> bytes trust_result" where
  "parse_key_id_hex hex_id =
     (if str_len hex_id \<noteq> 8 \<or> \<not> list_all (\<lambda>b. is_ascii_hexdigit (unat b)) (utf8_encode hex_id)
      then Err (VerifierKey (lit ''key ID must be exactly 8 hex characters''))
      else res_bind
        (map_err (\<lambda>e. VerifierKey (lit ''key ID is not valid hex: '' @ e)) (of_sum (u32_from_hex hex_id)))
        (\<lambda>v. Ok (u32_to_be_bytes v)))"

text \<open>The format \<^verbatim>\<open>{alg:#04x}\<close> of a byte.\<close>

definition fmt_0x :: "byte \<Rightarrow> str" where
  "fmt_0x b = lit ''0x'' @ fmt_02x b"

text \<open>The second half of \<open>from_spec\<close>: the checks on the decoded key part.\<close>

definition from_spec_key :: "sha256 \<Rightarrow> str \<Rightarrow> bytes \<Rightarrow> bytes \<Rightarrow> verifier_key trust_result" where
  "from_spec_key sha name declared_id key_bytes =
     (if key_bytes = [] \<or> length key_bytes \<noteq> 33
      then Err (VerifierKey
             (lit ''key part must decode to 33 bytes (algorithm byte + 32-byte public key), got ''
              @ dec (length key_bytes)))
      else let alg = hd key_bytes; public_key_slice = tl key_bytes in
        if alg \<noteq> 0x01
        then Err (VerifierKey
             (lit ''unsupported algorithm byte '' @ fmt_0x alg @ lit '', expected 0x01 (Ed25519)''))
        else
          res_bind (copy_from_slice 32 public_key_slice) (\<lambda>public_key.
          res_bind (key_id sha name public_key) (\<lambda>computed_id.
          if declared_id \<noteq> computed_id
          then Err (VerifierKey
             (lit ''declared key ID does not match the key ID computed from the name and public key''))
          else Ok \<lparr>vk_name = name, vk_key_id = computed_id, vk_public_key = public_key\<rparr>)))"

definition from_spec :: "sha256 \<Rightarrow> base64 \<Rightarrow> str \<Rightarrow> verifier_key trust_result" where
  "from_spec sha b64 spec =
     (case splitn3 PLUS spec of
        [name, hex_id, key_b64] \<Rightarrow>
          res_bind (validate_note_name name) (\<lambda>_.
          res_bind (parse_key_id_hex hex_id) (\<lambda>declared_id.
          res_bind
            (map_err (\<lambda>e. VerifierKey (lit ''key part is not canonical standard base64: '' @ e))
              (of_sum (b64_decode b64 key_b64)))
            (\<lambda>key_bytes. from_spec_key sha name declared_id key_bytes)))
      | _ \<Rightarrow> Err (VerifierKey (lit ''expected <name>+<hex keyid>+<base64 key>'')))"

definition to_spec :: "base64 \<Rightarrow> verifier_key \<Rightarrow> str" where
  "to_spec b64 k =
     vk_name k @ [PLUS] @ hex_lower (vk_key_id k) @ [PLUS] @ b64_encode b64 (0x01 # vk_public_key k)"

section \<open>Lemmas\<close>

definition valid_note_name :: "str \<Rightarrow> bool" where
  "valid_note_name name \<longleftrightarrow> name \<noteq> [] \<and> (\<forall>c \<in> set name. \<not> is_whitespace c) \<and> PLUS \<notin> set name"

lemma validate_note_name_Ok [outcome]: "validate_note_name name = Ok u \<longleftrightarrow> valid_note_name name"
  by (auto simp: validate_note_name_def valid_note_name_def list_ex_iff)

lemma validate_valid [simp]: "valid_note_name name \<Longrightarrow> validate_note_name name = Ok ()"
  by (simp add: validate_note_name_Ok)

lemma validate_note_name_not_Panic [simp]: "validate_note_name name \<noteq> Panic"
  by (simp add: validate_note_name_def)

lemma validate_note_name_Err:
  "validate_note_name name = Err e \<Longrightarrow> \<not> valid_note_name name \<and> (\<exists>r. e = VerifierKey r)"
  by (auto simp: validate_note_name_def valid_note_name_def list_ex_iff split: if_splits)

lemma valid_note_name_no_ws:
  assumes "valid_note_name name"
  shows "NL \<notin> set name" and "SP \<notin> set name" and "PLUS \<notin> set name" and "name \<noteq> []"
proof -
  from assms have "\<not> is_whitespace c" if "c \<in> set name" for c
    using that by (auto simp: valid_note_name_def)
  from this [of NL] this [of SP] show "NL \<notin> set name" and "SP \<notin> set name"
    by (auto simp: is_whitespace_def)
qed (use assms in \<open>auto simp: valid_note_name_def\<close>)

text \<open>The key id of a valid name, as the first four bytes of the digest.\<close>

definition key_id_of :: "sha256 \<Rightarrow> str \<Rightarrow> bytes \<Rightarrow> bytes" where
  "key_id_of sha name pk = take 4 (sha (utf8_encode name @ [0x0a, 0x01] @ pk))"

lemma key_id_valid:
  "sha256_size sha \<Longrightarrow> valid_note_name name \<Longrightarrow> key_id sha name pk = Ok (key_id_of sha name pk)"
  by (simp add: key_id_def key_id_of_def slice_defs)

lemma length_key_id_of [simp]: "sha256_size sha \<Longrightarrow> length (key_id_of sha name pk) = 4"
  by (simp add: key_id_of_def)

lemma key_id_cases:
  assumes "sha256_size sha"
  shows "key_id sha name pk = (case validate_note_name name of Err e \<Rightarrow> Err e
     | _ \<Rightarrow> Ok (key_id_of sha name pk))"
  using assms
  by (cases "validate_note_name name") (auto simp: key_id_def key_id_of_def slice_defs)

lemma key_id_Ok:
  "sha256_size sha \<Longrightarrow> key_id sha name pk = Ok kid \<longleftrightarrow> valid_note_name name \<and> kid = key_id_of sha name pk"
  by (auto simp: key_id_def key_id_of_def slice_defs outcome)

lemma key_id_not_Panic: "sha256_size sha \<Longrightarrow> key_id sha name pk \<noteq> Panic"
  by (auto simp: key_id_cases split: result.splits)

definition wf_verifier_key :: "sha256 \<Rightarrow> verifier_key \<Rightarrow> bool" where
  "wf_verifier_key sha k \<longleftrightarrow>
     valid_note_name (vk_name k) \<and> length (vk_public_key k) = 32 \<and>
     vk_key_id k = key_id_of sha (vk_name k) (vk_public_key k)"

lemma verifier_key_new_wf:
  assumes "sha256_size sha" and "length pk = 32"
  shows "verifier_key_new sha name pk = Ok k \<Longrightarrow> wf_verifier_key sha k \<and> vk_name k = name \<and> vk_public_key k = pk"
  using assms by (auto simp: verifier_key_new_def outcome key_id_Ok wf_verifier_key_def)

lemma verifier_key_new_valid:
  "sha256_size sha \<Longrightarrow> valid_note_name name \<Longrightarrow>
   verifier_key_new sha name pk =
     Ok \<lparr>vk_name = name, vk_key_id = key_id_of sha name pk, vk_public_key = pk\<rparr>"
  by (simp add: verifier_key_new_def key_id_valid)

lemma parse_key_id_hex_lower:
  assumes "length kid = 4"
  shows "parse_key_id_hex (hex_lower kid) = Ok kid"
proof -
  let ?h = "hex_lower kid"
  have len: "str_len ?h = 8"
    using str_len_ascii [OF hex_lower_ascii, of kid] assms by simp
  have bytes: "list_all (\<lambda>b. is_ascii_hexdigit (unat b)) (utf8_encode ?h)"
    using hex_lower_ascii [of kid]
    by (auto simp: utf8_encode_ascii list_all_iff unat_byte_of dest: hex_lower_chars)
  have bound: "be_val kid < 2 ^ 32"
    using be_val_bound [of kid] assms by simp
  have "?h \<noteq> []"
    using assms by (metis length_0_conv length_hex_lower mult_eq_0_iff zero_neq_numeral)
  then obtain c cs where c: "?h = c # cs"
    by (cases ?h) auto
  then have "c \<noteq> PLUS"
    using hex_lower_chars [of c kid] by auto
  with c have "from_str_radix (2 ^ 32) 16 ?h = Inr (be_val kid)"
    using parse_digits_hex_lower [of 0 kid "2 ^ 32"] bound by (simp add: from_str_radix_def)
  then have "u32_from_hex ?h = Inr (word_of_nat (be_val kid))"
    by (simp add: u32_from_hex_def)
  moreover have "u32_to_be_bytes (word_of_nat (be_val kid)) = kid"
    using bound be_bytes_be_val [of kid] assms
    by (simp add: u32_to_be_bytes_def unat_of_nat take_bit_eq_mod)
  ultimately show ?thesis
    using len bytes by (simp add: parse_key_id_hex_def)
qed

lemma parse_key_id_hex_length: "parse_key_id_hex s = Ok kid \<Longrightarrow> length kid = 4"
  by (auto simp: parse_key_id_hex_def outcome u32_to_be_bytes_def simp del: be_bytes.simps
      split: if_splits)

lemma parse_key_id_hex_not_Panic [simp]: "parse_key_id_hex s \<noteq> Panic"
  by (auto simp: parse_key_id_hex_def outcome)

lemma from_spec_to_spec:
  assumes "sha256_size sha" and "base64_standard b64" and "wf_verifier_key sha k"
  shows "from_spec sha b64 (to_spec b64 k) = Ok k"
proof -
  let ?pk = "vk_public_key k" and ?name = "vk_name k"
  from assms(3) have n: "valid_note_name ?name" and l: "length ?pk = 32"
    and i: "vk_key_id k = key_id_of sha ?name ?pk"
    by (auto simp: wf_verifier_key_def)
  from assms(1) i have li: "length (vk_key_id k) = 4" by simp
  have "PLUS \<notin> set (hex_lower (vk_key_id k))"
    using hex_lower_chars by blast
  then have "splitn3 PLUS (to_spec b64 k) = [?name, hex_lower (vk_key_id k), b64_encode b64 (0x01 # ?pk)]"
    using valid_note_name_no_ws(3) [OF n] splitn3_append by (simp add: to_spec_def)
  then show ?thesis
    using assms(1,2) n l i li
    by (simp add: from_spec_def from_spec_key_def parse_key_id_hex_lower copy_from_slice_def key_id_valid)
qed

lemma from_spec_key_Ok:
  assumes "sha256_size sha" and "valid_note_name name" and "from_spec_key sha name kid kb = Ok k"
  shows "wf_verifier_key sha k \<and> vk_name k = name \<and> vk_key_id k = kid \<and> kb = 0x01 # vk_public_key k"
  using assms
  by (cases kb)
    (auto simp: from_spec_key_def outcome key_id_Ok wf_verifier_key_def copy_from_slice_def
      split: if_splits)

lemma from_spec_key_errors:
  assumes "sha256_size sha"
  shows "from_spec_key sha name kid kb \<noteq> Panic"
    and "from_spec_key sha name kid kb = Err e \<Longrightarrow> \<exists>r. e = VerifierKey r"
  using assms key_id_not_Panic [OF assms]
  by (auto simp: from_spec_key_def outcome copy_from_slice_def key_id_def slice_to_def Let_def
      split: if_splits dest: validate_note_name_Err)

text \<open>What a parsed key looks like: the three parts of its text.\<close>

lemma from_spec_Ok:
  assumes "sha256_size sha" and "from_spec sha b64 spec = Ok k"
  shows "wf_verifier_key sha k \<and>
    (\<exists>hex_id key_b64. spec = vk_name k @ [PLUS] @ hex_id @ [PLUS] @ key_b64 \<and>
       parse_key_id_hex hex_id = Ok (vk_key_id k) \<and>
       b64_decode b64 key_b64 = Inr (0x01 # vk_public_key k))"
proof -
  from assms(2) obtain name hex_id key_b64 where sp: "splitn3 PLUS spec = [name, hex_id, key_b64]"
    by (auto simp: from_spec_def split: list.splits)
  with assms(2) obtain kid kb where p: "valid_note_name name" "parse_key_id_hex hex_id = Ok kid"
    "b64_decode b64 key_b64 = Inr kb" "from_spec_key sha name kid kb = Ok k"
    by (auto simp: from_spec_def outcome)
  with from_spec_key_Ok [OF assms(1) p(1,4)] splitn3_three [OF sp] show ?thesis
    by auto
qed

lemma from_spec_errors:
  assumes "sha256_size sha"
  shows "from_spec sha b64 spec \<noteq> Panic" and "from_spec sha b64 spec = Err e \<Longrightarrow> \<exists>r. e = VerifierKey r"
  using from_spec_key_errors [OF assms]
  by (auto simp: from_spec_def outcome parse_key_id_hex_def
      split: list.splits if_splits dest: validate_note_name_Err)

interpretation vkey_spec: wire_codec "sha256_size sha \<and> base64_standard b64" "wf_verifier_key sha"
  "to_spec b64" "from_spec sha b64" for sha b64
  by unfold_locales (simp add: from_spec_to_spec)

end
