(* ===== verification/Merkle_Spec.thy ===== *)
theory Merkle_Spec
  imports Crates
begin

text \<open>
  The RFC 6962 Merkle tree that \<^verbatim>\<open>lys-core/src/merkle\<close> is specified against: the tree
  hash \<^verbatim>\<open>MTH\<close>, the audit path \<^verbatim>\<open>PATH\<close>, the consistency proof \<^verbatim>\<open>PROOF\<close>, and what a
  verifier recomputes from each. The theory proves both directions: the proofs of a tree
  verify (completeness), and what verifies belongs to the tree (soundness). Soundness is
  relative to the absence of a SHA-256 collision among the byte strings that the two sides
  hash, which are listed by the \<open>\<dots>_inputs\<close> functions: a claim that fails exhibits a
  collision among finitely many computed strings.
\<close>

section \<open>The split point\<close>

text \<open>The largest power of two smaller than \<open>n\<close>, for \<open>n \<ge> 2\<close>.\<close>

fun split_point :: "nat \<Rightarrow> nat" where
  "split_point n = (if n \<le> 2 then 1 else 2 * split_point ((n + 1) div 2))"

declare split_point.simps [simp del]

lemma split_point_pos [simp]: "0 < split_point n"
  by (induction n rule: split_point.induct) (subst split_point.simps, simp)

lemma split_point_less: "2 \<le> n \<Longrightarrow> split_point n < n"
proof (induction n rule: split_point.induct)
  case (1 n)
  show ?case
  proof (cases "n \<le> 2")
    case True
    with "1.prems" show ?thesis by (simp add: split_point.simps)
  next
    case False
    with "1.IH" have "split_point ((n + 1) div 2) < (n + 1) div 2" by simp
    with False show ?thesis by (simp add: split_point.simps [of n])
  qed
qed

lemma split_point_half: "n \<le> 2 * split_point n"
proof (induction n rule: split_point.induct)
  case (1 n)
  show ?case
  proof (cases "n \<le> 2")
    case True
    then show ?thesis by (simp add: split_point.simps)
  next
    case False
    with "1.IH" have "(n + 1) div 2 \<le> 2 * split_point ((n + 1) div 2)" by simp
    with False show ?thesis by (simp add: split_point.simps [of n])
  qed
qed

lemma split_point_power: "\<exists>i. split_point n = 2 ^ i"
proof (induction n rule: split_point.induct)
  case (1 n)
  show ?case
  proof (cases "n \<le> 2")
    case True
    then have "split_point n = 2 ^ 0" by (simp add: split_point.simps)
    then show ?thesis ..
  next
    case False
    with "1.IH" obtain i where "split_point ((n + 1) div 2) = 2 ^ i" by auto
    with False have "split_point n = 2 ^ Suc i" by (simp add: split_point.simps [of n])
    then show ?thesis ..
  qed
qed

lemma power2_between: "2 ^ i < (n :: nat) \<Longrightarrow> n \<le> 2 * 2 ^ i \<Longrightarrow> 2 ^ j < n \<Longrightarrow> n \<le> 2 * 2 ^ j \<Longrightarrow> i = j"
proof (induction i j rule: linorder_wlog)
  case (le i j)
  show ?case
  proof (rule ccontr)
    assume "i \<noteq> j"
    with le(1) have "Suc i \<le> j" by simp
    then have "(2 :: nat) ^ Suc i \<le> 2 ^ j" by (rule power_increasing) simp
    with le(3,4) show False by simp
  qed
next
  case (sym i j)
  then show ?case by blast
qed

text \<open>A tree reaching past the split point of a larger one splits at the same point.\<close>

lemma split_point_prefix:
  assumes "split_point n < m" and "m \<le> n"
  shows "split_point m = split_point n"
proof -
  obtain i j where ij: "split_point m = 2 ^ i" "split_point n = 2 ^ j"
    using split_point_power by metis
  have "2 \<le> m"
    using assms(1) split_point_pos [of n] by linarith
  then have "split_point m < m" by (rule split_point_less)
  moreover have "m \<le> 2 * split_point m" by (rule split_point_half)
  moreover have "m \<le> 2 * split_point n"
    using assms(2) split_point_half [of n] by linarith
  ultimately have "i = j"
    using assms(1) ij power2_between [of i m j] by simp
  with ij show ?thesis by simp
qed

lemma split_point_le_power:
  assumes "2 \<le> n" and "n \<le> 2 ^ Suc d"
  shows "split_point n \<le> 2 ^ d"
proof -
  obtain i where i: "split_point n = 2 ^ i"
    using split_point_power by metis
  with split_point_less [OF assms(1)] assms(2) have "(2 :: nat) ^ i < 2 ^ Suc d"
    by linarith
  then have "i < Suc d"
    by (rule power_less_imp_less_exp [rotated]) simp
  then have "i \<le> d" by simp
  with i show ?thesis by (simp add: power_increasing)
qed

section \<open>Tree hash, audit path, consistency proof\<close>

definition leaf_hash :: "sha256 \<Rightarrow> bytes \<Rightarrow> bytes" where
  "leaf_hash sha d = sha (0x00 # d)"

definition node_hash :: "sha256 \<Rightarrow> bytes \<Rightarrow> bytes \<Rightarrow> bytes" where
  "node_hash sha l r = sha (0x01 # l @ r)"

abbreviation sp_of :: "'a list \<Rightarrow> nat" where
  "sp_of ds \<equiv> split_point (length ds)"

lemma sp_less: "\<not> length ds \<le> 1 \<Longrightarrow> sp_of ds < length ds"
  using split_point_less [of "length ds"] by simp

function mth :: "sha256 \<Rightarrow> bytes list \<Rightarrow> bytes" where
  "mth sha ds =
     (if ds = [] then sha []
      else if length ds \<le> 1 then leaf_hash sha (hd ds)
      else node_hash sha (mth sha (take (sp_of ds) ds)) (mth sha (drop (sp_of ds) ds)))"
  by pat_completeness auto
termination
  by (relation "measure (\<lambda>(sha, ds). length ds)") (auto simp: sp_less split_point_less intro!: diff_less)

function path :: "sha256 \<Rightarrow> nat \<Rightarrow> bytes list \<Rightarrow> bytes list" where
  "path sha m ds =
     (if length ds \<le> 1 then []
      else if m < sp_of ds
        then path sha m (take (sp_of ds) ds) @ [mth sha (drop (sp_of ds) ds)]
        else path sha (m - sp_of ds) (drop (sp_of ds) ds) @ [mth sha (take (sp_of ds) ds)])"
  by pat_completeness auto
termination
  by (relation "measure (\<lambda>(sha, m, ds). length ds)") (auto simp: sp_less split_point_less intro!: diff_less)

function subproof :: "sha256 \<Rightarrow> nat \<Rightarrow> bytes list \<Rightarrow> bool \<Rightarrow> bytes list" where
  "subproof sha m ds b =
     (if m = length ds \<or> length ds \<le> 1 then (if b then [] else [mth sha ds])
      else if m \<le> sp_of ds
        then subproof sha m (take (sp_of ds) ds) b @ [mth sha (drop (sp_of ds) ds)]
        else subproof sha (m - sp_of ds) (drop (sp_of ds) ds) False @ [mth sha (take (sp_of ds) ds)])"
  by pat_completeness auto
termination
  by (relation "measure (\<lambda>(sha, m, ds, b). length ds)") (auto simp: sp_less split_point_less intro!: diff_less)

section \<open>What a verifier recomputes\<close>

text \<open>The root that an audit path leads to, for leaf \<open>m\<close> of \<open>n\<close> with leaf hash \<open>h\<close>.\<close>

function root_from_path :: "sha256 \<Rightarrow> nat \<Rightarrow> nat \<Rightarrow> bytes \<Rightarrow> bytes list \<Rightarrow> bytes option" where
  "root_from_path sha m n h p =
     (if n \<le> 1 then (if p = [] then Some h else None)
      else if p = [] then None
      else if m < split_point n
        then map_option (\<lambda>x. node_hash sha x (last p))
               (root_from_path sha m (split_point n) h (butlast p))
        else map_option (\<lambda>x. node_hash sha (last p) x)
               (root_from_path sha (m - split_point n) (n - split_point n) h (butlast p)))"
  by pat_completeness auto
termination
  by (relation "measure (\<lambda>(sha, m, n, h, p). n)") (auto simp: split_point_less)

text \<open>The old and the new root that a consistency proof from size \<open>m\<close> to size \<open>n\<close> leads to.\<close>

function roots_from_proof ::
  "sha256 \<Rightarrow> nat \<Rightarrow> nat \<Rightarrow> bool \<Rightarrow> bytes \<Rightarrow> bytes list \<Rightarrow> (bytes \<times> bytes) option" where
  "roots_from_proof sha m n b old p =
     (if m = n \<or> n \<le> 1
      then (if b then (if p = [] then Some (old, old) else None)
            else (case p of [x] \<Rightarrow> Some (x, x) | _ \<Rightarrow> None))
      else if p = [] then None
      else if m \<le> split_point n
        then map_option (\<lambda>(x, y). (x, node_hash sha y (last p)))
               (roots_from_proof sha m (split_point n) b old (butlast p))
        else map_option (\<lambda>(x, y). (node_hash sha (last p) x, node_hash sha (last p) y))
               (roots_from_proof sha (m - split_point n) (n - split_point n) False old (butlast p)))"
  by pat_completeness auto
termination
  by (relation "measure (\<lambda>(sha, m, n, b, old, p). n)") (auto simp: split_point_less)

declare mth.simps [simp del] path.simps [simp del] subproof.simps [simp del]
  root_from_path.simps [simp del] roots_from_proof.simps [simp del]

lemma mth_Nil: "mth sha [] = sha []"
  by (simp add: mth.simps)

lemma mth_single: "mth sha [d] = leaf_hash sha d"
  by (simp add: mth.simps)

lemma mth_node:
  "2 \<le> length ds \<Longrightarrow> mth sha ds = node_hash sha (mth sha (take (sp_of ds) ds)) (mth sha (drop (sp_of ds) ds))"
  by (subst mth.simps) auto

lemma length_mth [simp]: "sha256_size sha \<Longrightarrow> length (mth sha ds) = 32"
  by (subst mth.simps) (simp add: leaf_hash_def node_hash_def)

lemma length_node_hash [simp]: "sha256_size sha \<Longrightarrow> length (node_hash sha l r) = 32"
  by (simp add: node_hash_def)

section \<open>Completeness\<close>

theorem path_complete:
  "m < length ds \<Longrightarrow>
   root_from_path sha m (length ds) (leaf_hash sha (ds ! m)) (path sha m ds) = Some (mth sha ds)"
proof (induction sha m ds rule: path.induct)
  case (1 sha m ds)
  let ?k = "sp_of ds"
  consider (small) "length ds \<le> 1" | (left) "2 \<le> length ds" "m < ?k" | (right) "2 \<le> length ds" "\<not> m < ?k"
    by linarith
  then show ?case
  proof cases
    case small
    with "1.prems" have "length ds = 1" and "m = 0" by auto
    then obtain d where "ds = [d]" by (auto simp: length_Suc_conv)
    with \<open>m = 0\<close> show ?thesis
      by (simp add: root_from_path.simps path.simps mth_single)
  next
    case left
    then have k: "?k < length ds" using split_point_less by blast
    with left "1.IH"(1) have
      "root_from_path sha m ?k (leaf_hash sha (ds ! m)) (path sha m (take ?k ds))
       = Some (mth sha (take ?k ds))"
      by simp
    with left show ?thesis
      by (simp add: root_from_path.simps [of sha m "length ds"] path.simps [of sha m ds] mth_node)
  next
    case right
    then have k: "?k < length ds" using split_point_less by blast
    with right "1.prems" "1.IH"(2) have
      "root_from_path sha (m - ?k) (length ds - ?k) (leaf_hash sha (ds ! m)) (path sha (m - ?k) (drop ?k ds))
       = Some (mth sha (drop ?k ds))"
      by simp
    with right show ?thesis
      by (simp add: root_from_path.simps [of sha m "length ds"] path.simps [of sha m ds] mth_node)
  qed
qed

lemma mth_prefix_node:
  assumes "sp_of ds < m" and "m \<le> length ds"
  shows "mth sha (take m ds) =
    node_hash sha (mth sha (take (sp_of ds) ds)) (mth sha (take (m - sp_of ds) (drop (sp_of ds) ds)))"
proof -
  have "sp_of (take m ds) = sp_of ds"
    using split_point_prefix [OF assms] assms(2) by simp
  moreover have "2 \<le> m"
    using assms(1) split_point_pos [of "length ds"] by linarith
  moreover have "drop (sp_of ds) (take m ds) = take (m - sp_of ds) (drop (sp_of ds) ds)"
    by (simp add: drop_take)
  moreover have "take (sp_of ds) (take m ds) = take (sp_of ds) ds"
    using assms(1) by (simp add: min_def)
  ultimately show ?thesis
    using mth_node [of "take m ds" sha] assms(2) by simp
qed

text \<open>Without the flag the old root is read from the proof, not from the argument.\<close>

lemma roots_from_proof_False:
  "roots_from_proof sha m n False old p = roots_from_proof sha m n False old' p"
proof (induction n arbitrary: m p rule: less_induct)
  case (less n)
  show ?case
  proof (cases "m = n \<or> n \<le> 1")
    case True
    then show ?thesis
      by (simp add: roots_from_proof.simps [of sha m n False _ p])
  next
    case False
    then have "split_point n < n" and "n - split_point n < n"
      using split_point_less [of n] split_point_pos [of n] by auto
    then show ?thesis
      using less.IH False by (simp add: roots_from_proof.simps [of sha m n False _ p])
  qed
qed

theorem subproof_complete:
  "0 < m \<Longrightarrow> m \<le> length ds \<Longrightarrow>
   roots_from_proof sha m (length ds) b (mth sha (take m ds)) (subproof sha m ds b)
     = Some (mth sha (take m ds), mth sha ds)"
proof (induction sha m ds b rule: subproof.induct)
  case (1 sha m ds b)
  let ?k = "sp_of ds"
  consider (base) "m = length ds" | (left) "m \<noteq> length ds" "2 \<le> length ds" "m \<le> ?k"
    | (right) "m \<noteq> length ds" "2 \<le> length ds" "\<not> m \<le> ?k"
    using "1.prems" by linarith
  then show ?case
  proof cases
    case base
    then show ?thesis
      by (simp add: roots_from_proof.simps subproof.simps)
  next
    case left
    then have k: "?k < length ds" using split_point_less by blast
    with left "1.IH"(1) "1.prems" have
      "roots_from_proof sha m ?k b (mth sha (take m ds)) (subproof sha m (take ?k ds) b)
       = Some (mth sha (take m ds), mth sha (take ?k ds))"
      by (simp add: min_absorb1)
    with left show ?thesis
      by (simp add: roots_from_proof.simps [of sha m "length ds"] subproof.simps [of sha m ds] mth_node)
  next
    case right
    then have k: "?k < length ds" using split_point_less by blast
    let ?e = "mth sha (take (m - ?k) (drop ?k ds))"
    have "roots_from_proof sha (m - ?k) (length ds - ?k) False ?e
        (subproof sha (m - ?k) (drop ?k ds) False) = Some (?e, mth sha (drop ?k ds))"
      using right "1.IH"(2) "1.prems" k by simp
    then have "roots_from_proof sha (m - ?k) (length ds - ?k) False (mth sha (take m ds))
        (subproof sha (m - ?k) (drop ?k ds) False) = Some (?e, mth sha (drop ?k ds))"
      using roots_from_proof_False by metis
    then show ?thesis
      using right "1.prems" mth_prefix_node [of ds m sha]
      by (simp add: roots_from_proof.simps [of sha m "length ds"] subproof.simps [of sha m ds] mth_node)
  qed
qed

section \<open>Sizes\<close>

lemma length_path_le: "length ds \<le> 2 ^ d \<Longrightarrow> m < length ds \<Longrightarrow> length (path sha m ds) \<le> d"
proof (induction sha m ds arbitrary: d rule: path.induct)
  case (1 sha m ds)
  show ?case
  proof (cases "length ds \<le> 1")
    case True
    then show ?thesis by (simp add: path.simps)
  next
    case False
    then obtain e where d: "d = Suc e"
      using "1.prems" by (cases d) auto
    have k: "sp_of ds \<le> 2 ^ e" "sp_of ds < length ds" "length ds - sp_of ds \<le> 2 ^ e"
      using False "1.prems"(1) split_point_le_power [of "length ds" e] split_point_less [of "length ds"]
        split_point_half [of "length ds"] d by auto
    show ?thesis
      using "1.IH" [of e] "1.prems" False k d by (subst path.simps) auto
  qed
qed

lemma length_subproof_le:
  "length ds \<le> 2 ^ d \<Longrightarrow> 0 < m \<Longrightarrow> m \<le> length ds \<Longrightarrow> length (subproof sha m ds b) \<le> Suc d"
proof (induction sha m ds b arbitrary: d rule: subproof.induct)
  case (1 sha m ds b)
  show ?case
  proof (cases "m = length ds \<or> length ds \<le> 1")
    case True
    then show ?thesis by (auto simp: subproof.simps)
  next
    case False
    then obtain e where d: "d = Suc e"
      using "1.prems" by (cases d) auto
    have k: "sp_of ds \<le> 2 ^ e" "sp_of ds < length ds" "length ds - sp_of ds \<le> 2 ^ e"
      using False "1.prems"(1) split_point_le_power [of "length ds" e] split_point_less [of "length ds"]
        split_point_half [of "length ds"] d by auto
    show ?thesis
      using "1.IH" [of e] "1.prems" False k d by (subst subproof.simps) auto
  qed
qed

lemma path_node_length: "sha256_size sha \<Longrightarrow> x \<in> set (path sha m ds) \<Longrightarrow> length x = 32"
  by (induction sha m ds rule: path.induct)
    (subst (asm) (2) path.simps, auto split: if_splits)

lemma subproof_node_length: "sha256_size sha \<Longrightarrow> x \<in> set (subproof sha m ds b) \<Longrightarrow> length x = 32"
  by (induction sha m ds b rule: subproof.induct)
    (subst (asm) (2) subproof.simps, auto split: if_splits)

lemma root_from_path_length:
  assumes "sha256_size sha" and "length h = 32" and "root_from_path sha m n h p = Some r"
  shows "length r = 32"
  using assms(3) assms(1,2)
  by (subst (asm) root_from_path.simps) (auto split: if_splits)

section \<open>The strings that are hashed\<close>

text \<open>By the tree hash of the leaves \<open>ds\<close>, by a verifier of an audit path, and by a verifier
  of a consistency proof.\<close>

function mth_inputs :: "sha256 \<Rightarrow> bytes list \<Rightarrow> bytes list" where
  "mth_inputs sha ds =
     (if ds = [] then [[]]
      else if length ds \<le> 1 then [0x00 # hd ds]
      else (0x01 # mth sha (take (sp_of ds) ds) @ mth sha (drop (sp_of ds) ds))
           # mth_inputs sha (take (sp_of ds) ds) @ mth_inputs sha (drop (sp_of ds) ds))"
  by pat_completeness auto
termination
  by (relation "measure (\<lambda>(sha, ds). length ds)") (auto simp: sp_less split_point_less intro!: diff_less)

function path_inputs :: "sha256 \<Rightarrow> nat \<Rightarrow> nat \<Rightarrow> bytes \<Rightarrow> bytes list \<Rightarrow> bytes list" where
  "path_inputs sha m n h p =
     (if n \<le> 1 \<or> p = [] then []
      else if m < split_point n
        then (case root_from_path sha m (split_point n) h (butlast p) of
                None \<Rightarrow> [] | Some x \<Rightarrow> [0x01 # x @ last p])
             @ path_inputs sha m (split_point n) h (butlast p)
        else (case root_from_path sha (m - split_point n) (n - split_point n) h (butlast p) of
                None \<Rightarrow> [] | Some x \<Rightarrow> [0x01 # last p @ x])
             @ path_inputs sha (m - split_point n) (n - split_point n) h (butlast p))"
  by pat_completeness auto
termination
  by (relation "measure (\<lambda>(sha, m, n, h, p). n)") (auto simp: split_point_less)

function proof_inputs :: "sha256 \<Rightarrow> nat \<Rightarrow> nat \<Rightarrow> bool \<Rightarrow> bytes \<Rightarrow> bytes list \<Rightarrow> bytes list" where
  "proof_inputs sha m n b old p =
     (if m = n \<or> n \<le> 1 \<or> p = [] then []
      else if m \<le> split_point n
        then (case roots_from_proof sha m (split_point n) b old (butlast p) of
                None \<Rightarrow> [] | Some (x, y) \<Rightarrow> [0x01 # y @ last p])
             @ proof_inputs sha m (split_point n) b old (butlast p)
        else (case roots_from_proof sha (m - split_point n) (n - split_point n) False old (butlast p) of
                None \<Rightarrow> [] | Some (x, y) \<Rightarrow> [0x01 # last p @ x, 0x01 # last p @ y])
             @ proof_inputs sha (m - split_point n) (n - split_point n) False old (butlast p))"
  by pat_completeness auto
termination
  by (relation "measure (\<lambda>(sha, m, n, b, old, p). n)") (auto simp: split_point_less)

declare mth_inputs.simps [simp del] path_inputs.simps [simp del] proof_inputs.simps [simp del]

lemma mth_inputs_single: "mth_inputs sha [d] = [0x00 # d]"
  by (simp add: mth_inputs.simps)

lemma mth_inputs_node:
  "2 \<le> length ds \<Longrightarrow>
   mth_inputs sha ds = (0x01 # mth sha (take (sp_of ds) ds) @ mth sha (drop (sp_of ds) ds))
     # mth_inputs sha (take (sp_of ds) ds) @ mth_inputs sha (drop (sp_of ds) ds)"
  by (subst mth_inputs.simps) auto

text \<open>No collision of the hash among the strings of \<open>A\<close>.\<close>

abbreviation collision_free :: "sha256 \<Rightarrow> bytes set \<Rightarrow> bool" where
  "collision_free sha A \<equiv> inj_on sha A"

lemma collision_free_node:
  assumes "collision_free sha A" and "node_hash sha l r = node_hash sha l' r'"
    and "0x01 # l @ r \<in> A" and "0x01 # l' @ r' \<in> A" and "length l = length l'"
  shows "l = l'" and "r = r'"
proof -
  have "0x01 # l @ r = 0x01 # l' @ r'"
    using assms(1,2,3,4) by (auto simp: node_hash_def dest: inj_onD)
  with assms(5) show "l = l'" and "r = r'" by auto
qed

section \<open>Soundness\<close>

lemma leaf_hash_inj:
  "collision_free sha A \<Longrightarrow> leaf_hash sha d = leaf_hash sha e \<Longrightarrow> 0x00 # d \<in> A \<Longrightarrow> 0x00 # e \<in> A \<Longrightarrow> d = e"
  by (auto simp: leaf_hash_def dest: inj_onD)

theorem mth_inj:
  assumes "sha256_size sha"
  shows "length es = length ds \<Longrightarrow> mth sha es = mth sha ds \<Longrightarrow>
    collision_free sha (set (mth_inputs sha es) \<union> set (mth_inputs sha ds)) \<Longrightarrow> es = ds"
proof (induction "length ds" arbitrary: es ds rule: less_induct)
  case less
  consider (nil) "length ds = 0" | (one) "length ds = Suc 0" | (node) "2 \<le> length ds"
    by linarith
  then show ?case
  proof cases
    case nil
    with less.prems(1) show ?thesis by simp
  next
    case one
    with less.prems(1) obtain d e where de: "ds = [d]" "es = [e]"
      by (metis length_0_conv length_Suc_conv)
    have "e = d"
      by (rule leaf_hash_inj [OF less.prems(3)])
        (use less.prems(2) in \<open>simp_all add: de mth_single mth_inputs_single\<close>)
    with de show ?thesis by simp
  next
    case node
    let ?k = "sp_of ds"
    let ?A = "set (mth_inputs sha es) \<union> set (mth_inputs sha ds)"
    have k: "?k < length ds" "length ds - ?k < length ds"
      using node split_point_less [of "length ds"] by (auto intro!: diff_less)
    have eq: "mth sha (take ?k es) = mth sha (take ?k ds)" "mth sha (drop ?k es) = mth sha (drop ?k ds)"
      using collision_free_node [OF less.prems(3), of "mth sha (take ?k es)" "mth sha (drop ?k es)"
          "mth sha (take ?k ds)" "mth sha (drop ?k ds)"] less.prems(1,2) node assms
      by (auto simp: mth_node mth_inputs_node)
    have sub: "set (mth_inputs sha (f ?k es)) \<union> set (mth_inputs sha (f ?k ds)) \<subseteq> ?A"
      if "f = take \<or> f = drop" for f
      using that node less.prems(1) by (auto simp: mth_inputs_node)
    have "take ?k es = take ?k ds"
      using less.hyps [of "take ?k ds" "take ?k es"] k eq(1) less.prems(1)
        inj_on_subset [OF less.prems(3) sub [of take]] by simp
    moreover have "drop ?k es = drop ?k ds"
      using less.hyps [of "drop ?k ds" "drop ?k es"] k eq(2) less.prems(1)
        inj_on_subset [OF less.prems(3) sub [of drop]] by simp
    ultimately show ?thesis
      using append_take_drop_id by metis
  qed
qed

lemma butlast_last_nodes:
  assumes "\<forall>x \<in> set p. length x = (32::nat)" and "p \<noteq> []"
  shows "\<forall>x \<in> set (butlast p). length x = 32" and "length (last p) = 32"
  using assms by (auto dest: in_set_butlastD)

theorem path_sound:
  assumes "sha256_size sha"
  shows "m < length ds \<Longrightarrow> \<forall>x \<in> set p. length x = 32 \<Longrightarrow>
    root_from_path sha m (length ds) (leaf_hash sha d) p = Some (mth sha ds) \<Longrightarrow>
    collision_free sha (set (mth_inputs sha ds) \<union> {0x00 # d}
       \<union> set (path_inputs sha m (length ds) (leaf_hash sha d) p)) \<Longrightarrow>
    d = ds ! m \<and> p = path sha m ds"
proof (induction "length ds" arbitrary: m ds p rule: less_induct)
  case less
  let ?k = "sp_of ds" and ?h = "leaf_hash sha d"
  let ?A = "set (mth_inputs sha ds) \<union> {0x00 # d} \<union> set (path_inputs sha m (length ds) ?h p)"
  have h: "length ?h = 32" using assms by (simp add: leaf_hash_def)
  consider (one) "length ds \<le> 1" | (left) "2 \<le> length ds" "m < ?k" | (right) "2 \<le> length ds" "\<not> m < ?k"
    by linarith
  then show ?case
  proof cases
    case one
    then obtain e where "ds = [e]" "m = 0" using less.prems(1)
      by (cases ds) auto
    then have "p = []" and "?h = leaf_hash sha e"
      using less.prems(3) by (simp_all add: root_from_path.simps mth_single split: if_splits)
    moreover have "d = e"
      by (rule leaf_hash_inj [OF less.prems(4) \<open>?h = leaf_hash sha e\<close>])
        (simp_all add: \<open>ds = [e]\<close> mth_inputs_single)
    ultimately show ?thesis
      using \<open>ds = [e]\<close> \<open>m = 0\<close> by (simp add: path.simps)
  next
    case left
    have k: "?k < length ds" using left split_point_less by auto
    from left less.prems(3) obtain x where x: "p \<noteq> []"
      "root_from_path sha m ?k ?h (butlast p) = Some x" "node_hash sha x (last p) = mth sha ds"
      by (subst (asm) root_from_path.simps) (auto split: if_splits)
    then have pi: "path_inputs sha m (length ds) ?h p = (0x01 # x @ last p) # path_inputs sha m ?k ?h (butlast p)"
      using left by (subst path_inputs.simps) auto
    have eq: "x = mth sha (take ?k ds)" "last p = mth sha (drop ?k ds)"
      using collision_free_node [OF less.prems(4), of x "last p" "mth sha (take ?k ds)" "mth sha (drop ?k ds)"]
        x root_from_path_length [OF assms h x(2)] left assms
      by (auto simp: mth_node mth_inputs_node pi)
    have "collision_free sha (set (mth_inputs sha (take ?k ds)) \<union> {0x00 # d} \<union> set (path_inputs sha m ?k ?h (butlast p)))"
      by (rule inj_on_subset [OF less.prems(4)]) (use left in \<open>auto simp: mth_inputs_node pi\<close>)
    then have "d = take ?k ds ! m \<and> butlast p = path sha m (take ?k ds)"
      using less.hyps [of "take ?k ds" m "butlast p"] left k x eq butlast_last_nodes [OF less.prems(2)] by simp
    then show ?thesis
      using left eq x(1) append_butlast_last_id [of p] by (simp add: path.simps [of sha m ds])
  next
    case right
    have k: "?k < length ds" "length ds - ?k < length ds" "m - ?k < length ds - ?k"
      using right less.prems(1) split_point_less [of "length ds"] by (auto intro!: diff_less)
    from right less.prems(3) obtain x where x: "p \<noteq> []"
      "root_from_path sha (m - ?k) (length ds - ?k) ?h (butlast p) = Some x" "node_hash sha (last p) x = mth sha ds"
      by (subst (asm) root_from_path.simps) (auto split: if_splits)
    then have pi: "path_inputs sha m (length ds) ?h p
        = (0x01 # last p @ x) # path_inputs sha (m - ?k) (length ds - ?k) ?h (butlast p)"
      using right by (subst path_inputs.simps) auto
    have eq: "last p = mth sha (take ?k ds)" "x = mth sha (drop ?k ds)"
      using collision_free_node [OF less.prems(4), of "last p" x "mth sha (take ?k ds)" "mth sha (drop ?k ds)"]
        x butlast_last_nodes [OF less.prems(2) x(1)] right assms
      by (auto simp: mth_node mth_inputs_node pi)
    have "collision_free sha (set (mth_inputs sha (drop ?k ds)) \<union> {0x00 # d}
        \<union> set (path_inputs sha (m - ?k) (length ds - ?k) ?h (butlast p)))"
      by (rule inj_on_subset [OF less.prems(4)]) (use right in \<open>auto simp: mth_inputs_node pi\<close>)
    then have "d = drop ?k ds ! (m - ?k) \<and> butlast p = path sha (m - ?k) (drop ?k ds)"
      using less.hyps [of "drop ?k ds" "m - ?k" "butlast p"] right k x eq less.prems(1)
        butlast_last_nodes [OF less.prems(2)] by simp
    then show ?thesis
      using right less.prems(1) eq x(1) append_butlast_last_id [of p] by (simp add: path.simps [of sha m ds])
  qed
qed

text \<open>One step of a consistency proof, on either side of the split point.\<close>

lemma roots_from_proof_left:
  assumes "m \<noteq> n" and "2 \<le> n" and "m \<le> split_point n" and "roots_from_proof sha m n b old p = Some (x, z)"
  obtains y where "p \<noteq> []" "roots_from_proof sha m (split_point n) b old (butlast p) = Some (x, y)"
    "z = node_hash sha y (last p)"
    "proof_inputs sha m n b old p = (0x01 # y @ last p) # proof_inputs sha m (split_point n) b old (butlast p)"
proof -
  from assms obtain y where "p \<noteq> []"
    "roots_from_proof sha m (split_point n) b old (butlast p) = Some (x, y)" "z = node_hash sha y (last p)"
    by (auto simp: roots_from_proof.simps [of sha m n b old p] split: if_splits)
  with assms(1-3) show thesis
    by (intro that) (simp_all add: proof_inputs.simps [of sha m n b old p])
qed

lemma roots_from_proof_right:
  assumes "m \<noteq> n" and "2 \<le> n" and "split_point n < m" and "roots_from_proof sha m n b old p = Some (w, z)"
  obtains x y where "p \<noteq> []"
    "roots_from_proof sha (m - split_point n) (n - split_point n) False old (butlast p) = Some (x, y)"
    "w = node_hash sha (last p) x" "z = node_hash sha (last p) y"
    "proof_inputs sha m n b old p = (0x01 # last p @ x) # (0x01 # last p @ y)
       # proof_inputs sha (m - split_point n) (n - split_point n) False old (butlast p)"
proof -
  from assms obtain x y where "p \<noteq> []"
    "roots_from_proof sha (m - split_point n) (n - split_point n) False old (butlast p) = Some (x, y)"
    "w = node_hash sha (last p) x" "z = node_hash sha (last p) y"
    by (auto simp: roots_from_proof.simps [of sha m n b old p] split: if_splits)
  with assms(1-3) show thesis
    by (intro that) (simp_all add: proof_inputs.simps [of sha m n b old p])
qed

lemma roots_from_proof_length:
  "sha256_size sha \<Longrightarrow> length old = 32 \<Longrightarrow> \<forall>x \<in> set p. length x = 32 \<Longrightarrow>
   roots_from_proof sha m n b old p = Some (x, y) \<Longrightarrow> length x = 32 \<and> length y = 32"
proof (induction n arbitrary: m b p x y rule: less_induct)
  case (less n)
  show ?case
  proof (cases "m = n \<or> n \<le> 1 \<or> p = []")
    case True
    then show ?thesis
      using less.prems by (auto simp: roots_from_proof.simps [of sha m n b old p] split: if_splits list.splits)
  next
    case False
    then have n: "m \<noteq> n" "2 \<le> n" "p \<noteq> []" by auto
    then have k: "split_point n < n" "n - split_point n < n"
      using split_point_less [of n] by (auto intro!: diff_less)
    note nodes = butlast_last_nodes [OF less.prems(3) n(3)]
    show ?thesis
    proof (cases "m \<le> split_point n")
      case True
      then show ?thesis
        using roots_from_proof_left [OF n(1,2) True less.prems(4)] less.IH [OF k(1) less.prems(1,2) nodes(1)]
          less.prems(1) by (metis length_node_hash)
    next
      case False
      then show ?thesis
        using roots_from_proof_right [OF n(1,2) _ less.prems(4)] less.prems(1)
        by (metis length_node_hash not_le_imp_less)
    qed
  qed
qed

text \<open>The prefix case of a node: the old tree reaches past the split point of the new one.\<close>

lemma mth_split_at:
  assumes "split_point n < length es" and "length es \<le> n"
  shows "mth sha es = node_hash sha (mth sha (take (split_point n) es)) (mth sha (drop (split_point n) es))"
    and "mth_inputs sha es = (0x01 # mth sha (take (split_point n) es) @ mth sha (drop (split_point n) es))
      # mth_inputs sha (take (split_point n) es) @ mth_inputs sha (drop (split_point n) es)"
proof -
  have "2 \<le> length es"
    using assms(1) split_point_pos [of n] by linarith
  moreover have "sp_of es = split_point n"
    using split_point_prefix [OF assms] .
  ultimately show
    "mth sha es = node_hash sha (mth sha (take (split_point n) es)) (mth sha (drop (split_point n) es))"
    "mth_inputs sha es = (0x01 # mth sha (take (split_point n) es) @ mth sha (drop (split_point n) es))
      # mth_inputs sha (take (split_point n) es) @ mth_inputs sha (drop (split_point n) es)"
    using mth_node [of es sha] mth_inputs_node [of es sha] by simp_all
qed

theorem proof_sound:
  assumes "sha256_size sha"
  shows "0 < length es \<Longrightarrow> length es \<le> length ds \<Longrightarrow> \<forall>x \<in> set p. length x = 32 \<Longrightarrow> length old = 32 \<Longrightarrow>
    roots_from_proof sha (length es) (length ds) b old p = Some (mth sha es, mth sha ds) \<Longrightarrow>
    collision_free sha (set (mth_inputs sha es) \<union> set (mth_inputs sha ds)
       \<union> set (proof_inputs sha (length es) (length ds) b old p)) \<Longrightarrow>
    es = take (length es) ds"
proof (induction "length ds" arbitrary: es ds b p rule: less_induct)
  case less
  let ?k = "sp_of ds" and ?m = "length es" and ?n = "length ds"
  let ?A = "set (mth_inputs sha es) \<union> set (mth_inputs sha ds) \<union> set (proof_inputs sha ?m ?n b old p)"
  consider (base) "?m = ?n" | (left) "?m \<noteq> ?n" "2 \<le> ?n" "?m \<le> ?k" | (right) "?m \<noteq> ?n" "2 \<le> ?n" "?k < ?m"
    using less.prems(1,2) by linarith
  then show ?case
  proof cases
    case base
    then have "mth sha es = mth sha ds"
      using less.prems(5) by (auto simp: roots_from_proof.simps [of sha ?n ?n b old p] split: if_splits list.splits)
    moreover have "collision_free sha (set (mth_inputs sha es) \<union> set (mth_inputs sha ds))"
      by (rule inj_on_subset [OF less.prems(6)]) auto
    ultimately show ?thesis
      using mth_inj [OF assms base] base by simp
  next
    case left
    have k: "?k < ?n" using left split_point_less by auto
    from roots_from_proof_left [OF left less.prems(5)] obtain y where y: "p \<noteq> []"
      "roots_from_proof sha ?m ?k b old (butlast p) = Some (mth sha es, y)"
      "mth sha ds = node_hash sha y (last p)"
      "proof_inputs sha ?m ?n b old p = (0x01 # y @ last p) # proof_inputs sha ?m ?k b old (butlast p)" .
    note nodes = butlast_last_nodes [OF less.prems(3) y(1)]
    have "y = mth sha (take ?k ds)"
      by (rule collision_free_node(1) [OF less.prems(6), of y "last p" _ "mth sha (drop ?k ds)"])
        (use y left assms roots_from_proof_length [OF assms less.prems(4) nodes(1) y(2)]
          in \<open>simp_all add: mth_node mth_inputs_node\<close>)
    moreover have "collision_free sha (set (mth_inputs sha es) \<union> set (mth_inputs sha (take ?k ds))
        \<union> set (proof_inputs sha ?m ?k b old (butlast p)))"
      by (rule inj_on_subset [OF less.prems(6)]) (use left y(4) in \<open>auto simp: mth_inputs_node\<close>)
    ultimately have "es = take ?m (take ?k ds)"
      using less.hyps [of "take ?k ds" es "butlast p" b] less.prems(1,4) left k y(2) nodes by simp
    then show ?thesis
      using left by (simp add: min_absorb1)
  next
    case right
    have k: "?k < ?n" "?n - ?k < ?n" "?m - ?k \<le> ?n - ?k"
      using right less.prems(2) split_point_less [of ?n] by (auto intro!: diff_less)
    from roots_from_proof_right [OF right less.prems(5)] obtain x y where xy: "p \<noteq> []"
      "roots_from_proof sha (?m - ?k) (?n - ?k) False old (butlast p) = Some (x, y)"
      "mth sha es = node_hash sha (last p) x" "mth sha ds = node_hash sha (last p) y"
      "proof_inputs sha ?m ?n b old p = (0x01 # last p @ x) # (0x01 # last p @ y)
        # proof_inputs sha (?m - ?k) (?n - ?k) False old (butlast p)" .
    note nodes = butlast_last_nodes [OF less.prems(3) xy(1)]
    note es = mth_split_at [OF right(3) less.prems(2), of sha]
    have old: "last p = mth sha (take ?k es)" "x = mth sha (drop ?k es)"
      using collision_free_node [OF less.prems(6), of "last p" x "mth sha (take ?k es)" "mth sha (drop ?k es)"]
        xy(3,5) nodes(2) es assms by simp_all
    have new: "last p = mth sha (take ?k ds)" "y = mth sha (drop ?k ds)"
      using collision_free_node [OF less.prems(6), of "last p" y "mth sha (take ?k ds)" "mth sha (drop ?k ds)"]
        xy(4,5) nodes(2) right(2) assms by (simp_all add: mth_node mth_inputs_node)
    have free: "collision_free sha (set (mth_inputs sha (take ?k es)) \<union> set (mth_inputs sha (take ?k ds)))"
      "collision_free sha (set (mth_inputs sha (drop ?k es)) \<union> set (mth_inputs sha (drop ?k ds))
        \<union> set (proof_inputs sha (?m - ?k) (?n - ?k) False old (butlast p)))"
      by (rule inj_on_subset [OF less.prems(6)],
          use right(2) xy(5) es(2) in \<open>auto simp: mth_inputs_node\<close>)+
    have "take ?k es = take ?k ds"
      by (rule mth_inj [OF assms _ _ free(1)]) (use old new k right in auto)
    moreover have "drop ?k es = take (?m - ?k) (drop ?k ds)"
      using less.hyps [of "drop ?k ds" "drop ?k es" "butlast p" False] k right xy(2) old new nodes free(2)
        less.prems(4) by simp
    ultimately have "take ?k es @ drop ?k es = take ?k ds @ take (?m - ?k) (drop ?k ds)"
      by simp
    then show ?thesis
      using right(3) by (simp add: take_add [symmetric])
  qed
qed

end
