(* ===== verification/Merkle_Model.thy ===== *)
theory Merkle_Model
  imports Merkle_Spec Errors Interfaces
begin

text \<open>
  \<^verbatim>\<open>lys-core/src/merkle\<close>: leaves, the append-only tree and the proof wrappers, over the
  \<^verbatim>\<open>ct-merkle\<close> crate as a parameter. The crate is required to implement RFC 6962 as stated
  in \<^verbatim>\<open>Merkle_Spec\<close> inside its documented domain and may panic outside it; the theory proves
  that the wrappers never leave that domain, that their proofs verify, and that what verifies
  is in the tree.
\<close>

section \<open>The crate ct-merkle\<close>

text \<open>\<open>'t\<close> is \<^verbatim>\<open>MemoryBackedTree<Sha256, _>\<close>, a root is the digest with the leaf count,
  proofs are their byte form; \<open>None\<close> is a panic, \<open>Inl\<close> a displayed error.\<close>

record 't ct_merkle =
  ct_new :: 't
  ct_push :: "'t \<Rightarrow> bytes \<Rightarrow> 't option"
  ct_len :: "'t \<Rightarrow> u64"
  ct_is_empty :: "'t \<Rightarrow> bool"
  ct_root :: "'t \<Rightarrow> bytes \<times> u64"
  ct_prove_inclusion :: "'t \<Rightarrow> nat \<Rightarrow> bytes option"
  ct_prove_consistency :: "'t \<Rightarrow> nat \<Rightarrow> bytes option"
  ct_inclusion_from_bytes :: "bytes \<Rightarrow> str + bytes"
  ct_consistency_from_bytes :: "bytes \<Rightarrow> str + bytes"
  ct_verify_inclusion :: "bytes \<times> u64 \<Rightarrow> bytes \<Rightarrow> u64 \<Rightarrow> bytes \<Rightarrow> str + unit"
  ct_verify_consistency :: "bytes \<times> u64 \<Rightarrow> bytes \<times> u64 \<Rightarrow> bytes \<Rightarrow> str + unit"

text \<open>The tree that results from pushing \<open>ls\<close> in order.\<close>

definition ct_tree :: "'t ct_merkle \<Rightarrow> bytes list \<Rightarrow> 't option" where
  "ct_tree ct ls = foldl (\<lambda>t l. Option.bind t (\<lambda>t. ct_push ct t l)) (Some (ct_new ct)) ls"

text \<open>\<^verbatim>\<open>push\<close> is documented to panic on a tree of more than \<^verbatim>\<open>usize::MAX / 2\<close> leaves and to succeed otherwise: \<open>2 ^ 63\<close> leaves are
  reached, and \<open>ct_tree\<close> is \<open>None\<close> for every longer list.\<close>

definition ct_max_leaves :: nat where
  "ct_max_leaves = 2 ^ 63"

text \<open>What the crate documents of a tree that holds \<open>ls\<close>: length, root, \<open>PATH\<close> of every
  index in range, and \<open>PROOF\<close> for every proper non-empty prefix.\<close>

definition ct_tree_ok :: "sha256 \<Rightarrow> 't ct_merkle \<Rightarrow> bytes list \<Rightarrow> 't \<Rightarrow> bool" where
  "ct_tree_ok sha ct ls t \<longleftrightarrow>
     ct_len ct t = of_nat (length ls) \<and>
     (ct_is_empty ct t \<longleftrightarrow> ls = []) \<and>
     ct_root ct t = (mth sha ls, of_nat (length ls)) \<and>
     (\<forall>i < length ls. ct_prove_inclusion ct t i = Some (concat (path sha i ls))) \<and>
     (\<forall>k. 0 < k \<and> k < length ls \<longrightarrow>
        ct_prove_consistency ct t k = Some (concat (subproof sha (length ls - k) ls True))) \<and>
     (ls \<noteq> [] \<longrightarrow> ct_prove_consistency ct t 0 \<noteq> None)"

definition ct_trees_ok :: "sha256 \<Rightarrow> 't ct_merkle \<Rightarrow> bool" where
  "ct_trees_ok sha ct \<longleftrightarrow>
     (\<forall>ls. ct_tree ct ls \<noteq> None \<longleftrightarrow> length ls \<le> ct_max_leaves) \<and>
     (\<forall>ls t. ct_tree ct ls = Some t \<longrightarrow> ct_tree_ok sha ct ls t)"

text \<open>A proof is a sequence of 32-byte digests; verification recomputes the root.\<close>

definition ct_verifier_ok :: "sha256 \<Rightarrow> 't ct_merkle \<Rightarrow> bool" where
  "ct_verifier_ok sha ct \<longleftrightarrow>
     (\<forall>bs. ct_inclusion_from_bytes ct bs = Inr bs \<and> length bs mod 32 = 0
         \<or> isl (ct_inclusion_from_bytes ct bs) \<and> length bs mod 32 \<noteq> 0) \<and>
     (\<forall>bs. ct_consistency_from_bytes ct bs = Inr bs \<and> length bs mod 32 = 0
         \<or> isl (ct_consistency_from_bytes ct bs) \<and> length bs mod 32 \<noteq> 0) \<and>
     (\<forall>r n d i bs. length bs mod 32 = 0 \<longrightarrow>
        (ct_verify_inclusion ct (r, n) d i bs = Inr () \<longleftrightarrow>
         i < n \<and> root_from_path sha (unat i) (unat n) (leaf_hash sha d) (chunks_exact 32 bs) = Some r)) \<and>
     (\<forall>r1 r2 n1 n2 bs. length bs mod 32 = 0 \<longrightarrow> n1 \<noteq> n2 \<longrightarrow>
        (ct_verify_consistency ct (r2, n2) (r1, n1) bs = Inr () \<longleftrightarrow>
         0 < n1 \<and> n1 < n2 \<and>
         roots_from_proof sha (unat n1) (unat n2) True r1 (chunks_exact 32 bs) = Some (r1, r2)))"

section \<open>leaf.rs\<close>

text \<open>\<open>postcard\<close> is the crate's \<^verbatim>\<open>to_allocvec\<close> at the leaf type, its error displayed.\<close>

type_synonym 'l postcard = "'l \<Rightarrow> str + bytes"

definition from_raw_bytes :: "bytes \<Rightarrow> bytes" where
  "from_raw_bytes bs = bs"

definition serialize_leaf :: "'l postcard \<Rightarrow> 'l \<Rightarrow> bytes trust_result" where
  "serialize_leaf postcard leaf =
     map_err (\<lambda>e. MerkleTree (lit ''failed to serialize leaf for Merkle tree: '' @ e))
       (of_sum (postcard leaf))"

definition raw_leaf_hash :: "sha256 \<Rightarrow> bytes \<Rightarrow> bytes" where
  "raw_leaf_hash sha leaf_bytes = sha ([0x00] @ leaf_bytes)"

section \<open>proof.rs\<close>

record root_hash =
  rh_digest :: bytes
  rh_leaves :: u64

record inclusion_proof =
  ip_inner :: bytes

record consistency_proof =
  cp_inner :: bytes

definition root_from_inner :: "bytes \<times> u64 \<Rightarrow> root_hash" where
  "root_from_inner r = \<lparr>rh_digest = fst r, rh_leaves = snd r\<rparr>"

definition root_inner :: "root_hash \<Rightarrow> bytes \<times> u64" where
  "root_inner r = (rh_digest r, rh_leaves r)"

definition from_parts :: "bytes \<Rightarrow> u64 \<Rightarrow> root_hash" where
  "from_parts digest num_leaves = root_from_inner (digest, num_leaves)"

definition to_parts :: "root_hash \<Rightarrow> bytes \<times> u64" where
  "to_parts r = (rh_digest r, rh_leaves r)"

definition inclusion_try_from_bytes :: "'t ct_merkle \<Rightarrow> bytes \<Rightarrow> inclusion_proof trust_result" where
  "inclusion_try_from_bytes ct bs =
     res_bind
       (map_err (\<lambda>e. MerkleTree (lit ''inclusion proof bytes are malformed: '' @ e))
         (of_sum (ct_inclusion_from_bytes ct bs)))
       (\<lambda>p. Ok \<lparr>ip_inner = p\<rparr>)"

definition consistency_try_from_bytes :: "'t ct_merkle \<Rightarrow> bytes \<Rightarrow> consistency_proof trust_result" where
  "consistency_try_from_bytes ct bs =
     res_bind
       (map_err (\<lambda>e. MerkleTree (lit ''consistency proof bytes are malformed: '' @ e))
         (of_sum (ct_consistency_from_bytes ct bs)))
       (\<lambda>p. Ok \<lparr>cp_inner = p\<rparr>)"

definition verify_inclusion ::
  "'t ct_merkle \<Rightarrow> 'l postcard \<Rightarrow> root_hash \<Rightarrow> 'l \<Rightarrow> u64 \<Rightarrow> inclusion_proof \<Rightarrow> unit trust_result" where
  "verify_inclusion ct postcard root leaf i p =
     res_bind (serialize_leaf postcard leaf) (\<lambda>serialized.
     map_err (\<lambda>e. MerkleTree (lit ''inclusion proof verification failed: '' @ e))
       (of_sum (ct_verify_inclusion ct (root_inner root) serialized i (ip_inner p))))"

definition verify_inclusion_raw ::
  "'t ct_merkle \<Rightarrow> root_hash \<Rightarrow> bytes \<Rightarrow> u64 \<Rightarrow> inclusion_proof \<Rightarrow> unit trust_result" where
  "verify_inclusion_raw ct root leaf_bytes i p =
     map_err (\<lambda>e. MerkleTree (lit ''inclusion proof verification failed: '' @ e))
       (of_sum (ct_verify_inclusion ct (root_inner root) leaf_bytes i (ip_inner p)))"

definition verify_consistency ::
  "'t ct_merkle \<Rightarrow> root_hash \<Rightarrow> root_hash \<Rightarrow> consistency_proof \<Rightarrow> unit trust_result" where
  "verify_consistency ct old_root new_root p =
     map_err (\<lambda>e. MerkleTree (lit ''consistency proof verification failed: '' @ e))
       (of_sum (ct_verify_consistency ct (root_inner new_root) (root_inner old_root) (cp_inner p)))"

section \<open>tree.rs\<close>

record 't append_only_tree =
  aot_inner :: 't

definition tree_new :: "'t ct_merkle \<Rightarrow> 't append_only_tree" where
  "tree_new ct = \<lparr>aot_inner = ct_new ct\<rparr>"

definition tree_len :: "'t ct_merkle \<Rightarrow> 't append_only_tree \<Rightarrow> u64" where
  "tree_len ct t = ct_len ct (aot_inner t)"

definition tree_is_empty :: "'t ct_merkle \<Rightarrow> 't append_only_tree \<Rightarrow> bool" where
  "tree_is_empty ct t = ct_is_empty ct (aot_inner t)"

definition tree_root :: "'t ct_merkle \<Rightarrow> 't append_only_tree \<Rightarrow> root_hash" where
  "tree_root ct t = root_from_inner (ct_root ct (aot_inner t))"

definition prove_inclusion :: "'t ct_merkle \<Rightarrow> 't append_only_tree \<Rightarrow> u64 \<Rightarrow> inclusion_proof trust_result" where
  "prove_inclusion ct t leaf_index =
     (let len = ct_len ct (aot_inner t) in
      if leaf_index \<ge> len
      then Err (MerkleTree (lit ''inclusion proof requested for leaf index '' @ dec64 leaf_index
             @ lit '' but tree has '' @ dec64 len @ lit '' leaves''))
      else
        res_bind
          (ok_or (MerkleTree (lit ''inclusion proof leaf index '' @ dec64 leaf_index
             @ lit '' does not fit in usize'')) (usize_try_from leaf_index))
          (\<lambda>idx. res_bind (or_panic (ct_prove_inclusion ct (aot_inner t) idx))
          (\<lambda>p. Ok \<lparr>ip_inner = p\<rparr>)))"

definition prove_consistency ::
  "'t ct_merkle \<Rightarrow> 't append_only_tree \<Rightarrow> u64 \<Rightarrow> u64 \<Rightarrow> consistency_proof trust_result" where
  "prove_consistency ct t old_size new_size =
     (let len = ct_len ct (aot_inner t) in
      if new_size \<noteq> len
      then Err (MerkleTree (lit ''consistency proof requires new_size to equal current tree length: ''
             @ lit ''new_size='' @ dec64 new_size @ lit '', current_len='' @ dec64 len))
      else if old_size = 0
      then Err (MerkleTree (lit ''consistency proof requires old_size > 0; ''
             @ lit ''RFC 6962 has no consistency proof from an empty tree''))
      else if old_size > new_size
      then Err (MerkleTree (lit ''consistency proof old_size must be <= new_size: ''
             @ lit ''old_size='' @ dec64 old_size @ lit '', new_size='' @ dec64 new_size))
      else
        let num_additions = new_size - old_size in
        res_bind
          (ok_or (MerkleTree (lit ''consistency proof num_additions '' @ dec64 num_additions
             @ lit '' does not fit in usize'')) (usize_try_from num_additions))
          (\<lambda>k. res_bind (or_panic (ct_prove_consistency ct (aot_inner t) k))
          (\<lambda>p. Ok \<lparr>cp_inner = p\<rparr>)))"

text \<open>The mutating operations return the updated tree with the value they return.\<close>

definition append_raw ::
  "'t ct_merkle \<Rightarrow> 't append_only_tree \<Rightarrow> bytes \<Rightarrow> ('t append_only_tree \<times> u64) trust_result" where
  "append_raw ct t leaf_bytes =
     res_bind (or_panic (ct_push ct (aot_inner t) (from_raw_bytes leaf_bytes))) (\<lambda>inner.
     Ok (t\<lparr>aot_inner := inner\<rparr>, ct_len ct inner))"

fun append_raw_loop ::
  "'t ct_merkle \<Rightarrow> 't append_only_tree \<Rightarrow> bytes list \<Rightarrow> 't append_only_tree trust_result" where
  "append_raw_loop ct t [] = Ok t"
| "append_raw_loop ct t (leaf # leaves) =
     res_bind (append_raw ct t leaf) (\<lambda>(t', n). append_raw_loop ct t' leaves)"

definition reconstruct_from_raw_leaves ::
  "'t ct_merkle \<Rightarrow> bytes list \<Rightarrow> 't append_only_tree trust_result" where
  "reconstruct_from_raw_leaves ct leaves = append_raw_loop ct (tree_new ct) leaves"

definition append_leaf ::
  "'t ct_merkle \<Rightarrow> 'l postcard \<Rightarrow> 't append_only_tree \<Rightarrow> 'l \<Rightarrow> ('t append_only_tree \<times> u64) trust_result" where
  "append_leaf ct postcard t leaf =
     res_bind (serialize_leaf postcard leaf) (\<lambda>serialized.
     res_bind (or_panic (ct_push ct (aot_inner t) serialized)) (\<lambda>inner.
     Ok (t\<lparr>aot_inner := inner\<rparr>, ct_len ct inner)))"

fun append_loop ::
  "'t ct_merkle \<Rightarrow> 'l postcard \<Rightarrow> 't append_only_tree \<Rightarrow> 'l list \<Rightarrow> 't append_only_tree trust_result" where
  "append_loop ct postcard t [] = Ok t"
| "append_loop ct postcard t (leaf # leaves) =
     res_bind (append_leaf ct postcard t leaf) (\<lambda>(t', n). append_loop ct postcard t' leaves)"

definition reconstruct_from_leaves ::
  "'t ct_merkle \<Rightarrow> 'l postcard \<Rightarrow> 'l list \<Rightarrow> 't append_only_tree trust_result" where
  "reconstruct_from_leaves ct postcard leaves = append_loop ct postcard (tree_new ct) leaves"

section \<open>The tree as a log\<close>

definition tree_holds :: "'t ct_merkle \<Rightarrow> bytes list \<Rightarrow> 't append_only_tree \<Rightarrow> bool" where
  "tree_holds ct ls t \<longleftrightarrow> ct_tree ct ls = Some (aot_inner t)"

definition tree_room :: "sha256 \<Rightarrow> 't ct_merkle \<Rightarrow> nat \<Rightarrow> bool" where
  "tree_room sha ct n \<longleftrightarrow> ct_trees_ok sha ct \<and> n < ct_max_leaves"

lemma ct_tree_Nil: "ct_tree ct [] = Some (ct_new ct)"
  by (simp add: ct_tree_def)

lemma ct_tree_snoc: "ct_tree ct (ls @ [l]) = Option.bind (ct_tree ct ls) (\<lambda>t. ct_push ct t l)"
  by (simp add: ct_tree_def)

lemma tree_holds_new: "tree_holds ct [] (tree_new ct)"
  by (simp add: tree_holds_def tree_new_def ct_tree_Nil)

text \<open>A push on a tree with room succeeds; it holds one leaf more.\<close>

lemma push_holds:
  assumes "tree_holds ct ls t" and "tree_room sha ct (length ls)"
  obtains u where "ct_push ct (aot_inner t) l = Some u" and "tree_holds ct (ls @ [l]) (t\<lparr>aot_inner := u\<rparr>)"
    and "ct_len ct u = of_nat (Suc (length ls))"
proof -
  from assms have "ct_tree ct (ls @ [l]) \<noteq> None"
    by (auto simp: tree_room_def ct_trees_ok_def)
  with assms(1) obtain u where u: "ct_push ct (aot_inner t) l = Some u" "ct_tree ct (ls @ [l]) = Some u"
    by (auto simp: tree_holds_def ct_tree_snoc)
  moreover from assms(2) u(2) have "ct_tree_ok sha ct (ls @ [l]) u"
    by (auto simp: tree_room_def ct_trees_ok_def)
  ultimately show thesis
    by (intro that [of u]) (simp_all add: tree_holds_def ct_tree_ok_def)
qed

interpretation raw_log: append_log "tree_holds ct" "tree_new ct"
  "\<lambda>l. Ok (from_raw_bytes l) :: bytes trust_result" "append_raw ct" "tree_room sha ct" of_nat
  for sha :: sha256 and ct :: "'t ct_merkle"
proof unfold_locales
  fix xs l and t :: "'t append_only_tree" and x
  assume a: "tree_holds ct xs t" "tree_room sha ct (length xs)"
    "Ok (from_raw_bytes l) = (Ok x :: bytes trust_result)"
  from a(1,2) obtain u where "ct_push ct (aot_inner t) x = Some u"
    "tree_holds ct (xs @ [x]) (t\<lparr>aot_inner := u\<rparr>)" "ct_len ct u = of_nat (Suc (length xs))"
    by (rule push_holds)
  with a(3) show "\<exists>t'. append_raw ct t l = Ok (t', of_nat (Suc (length xs))) \<and> tree_holds ct (xs @ [x]) t'"
    by (simp add: append_raw_def)
qed (auto simp: tree_holds_new tree_room_def)

interpretation leaf_log: append_log "tree_holds ct" "tree_new ct"
  "serialize_leaf postcard" "append_leaf ct postcard" "tree_room sha ct" of_nat
  for sha :: sha256 and ct :: "'t ct_merkle" and postcard :: "'l postcard"
proof unfold_locales
  fix xs l and t :: "'t append_only_tree" and x
  assume a: "tree_holds ct xs t" "tree_room sha ct (length xs)" "serialize_leaf postcard l = Ok x"
  from a(1,2) obtain u where "ct_push ct (aot_inner t) x = Some u"
    "tree_holds ct (xs @ [x]) (t\<lparr>aot_inner := u\<rparr>)" "ct_len ct u = of_nat (Suc (length xs))"
    by (rule push_holds)
  with a(3) show "\<exists>t'. append_leaf ct postcard t l = Ok (t', of_nat (Suc (length xs))) \<and> tree_holds ct (xs @ [x]) t'"
    by (simp add: append_leaf_def)
qed (auto simp: tree_holds_new tree_room_def append_leaf_def serialize_leaf_def outcome)

lemma append_raw_loop_replay: "append_raw_loop ct t ls = raw_log.replay ct t ls"
  by (induction ct t ls rule: append_raw_loop.induct) (simp_all add: outcome split: result.splits prod.splits)

lemma append_loop_replay: "append_loop ct postcard t ls = leaf_log.replay ct postcard t ls"
  by (induction ct postcard t ls rule: append_loop.induct)
    (simp_all add: outcome split: result.splits prod.splits)

lemma tree_room_last:
  assumes "ct_trees_ok sha ct" and "length ls \<le> ct_max_leaves" and "ls \<noteq> []"
  shows "tree_room sha ct (length ls - 1)"
proof -
  have "0 < length ls" using assms(3) by simp
  with assms(1,2) show ?thesis
    unfolding tree_room_def by linarith
qed

lemma reconstruct_raw_holds:
  assumes "ct_trees_ok sha ct" and "length ls \<le> ct_max_leaves"
  obtains t where "reconstruct_from_raw_leaves ct ls = Ok t" and "tree_holds ct ls t"
proof -
  have "res_map (\<lambda>l. Ok (from_raw_bytes l) :: bytes trust_result) ls = Ok ls"
    by (induction ls) (simp_all add: from_raw_bytes_def)
  from raw_log.replay_empty [OF this tree_room_last [OF assms]] show thesis
    using that by (auto simp: reconstruct_from_raw_leaves_def append_raw_loop_replay)
qed

lemma append_raw_loop_Ok: "append_raw_loop ct t ls = Ok u \<Longrightarrow> tree_holds ct xs t \<Longrightarrow> tree_holds ct (xs @ ls) u"
proof (induction ls arbitrary: t xs)
  case Nil
  then show ?case by simp
next
  case (Cons l ls)
  from Cons.prems(1) obtain v where v: "ct_push ct (aot_inner t) l = Some v"
    "append_raw_loop ct (t\<lparr>aot_inner := v\<rparr>) ls = Ok u"
    by (auto simp: append_raw_def from_raw_bytes_def outcome)
  then have "tree_holds ct (xs @ [l]) (t\<lparr>aot_inner := v\<rparr>)"
    using Cons.prems(2) by (simp add: tree_holds_def ct_tree_snoc)
  from Cons.IH [OF v(2) this] show ?case by simp
qed

lemma reconstruct_raw_Ok: "reconstruct_from_raw_leaves ct ls = Ok t \<Longrightarrow> tree_holds ct ls t"
  using append_raw_loop_Ok [OF _ tree_holds_new] by (fastforce simp: reconstruct_from_raw_leaves_def)

lemma reconstruct_holds:
  assumes "ct_trees_ok sha ct" and "length ls \<le> ct_max_leaves" and "res_map (serialize_leaf postcard) ls = Ok bs"
  obtains t where "reconstruct_from_leaves ct postcard ls = Ok t" and "tree_holds ct bs t"
  using leaf_log.replay_empty [OF assms(3) tree_room_last [OF assms(1,2)]] that
  by (auto simp: reconstruct_from_leaves_def append_loop_replay)

section \<open>Trees that hold leaves\<close>

lemma tree_holds_length:
  assumes "ct_trees_ok sha ct" and "tree_holds ct ls t"
  shows "length ls \<le> 2 ^ 63" and "unat (of_nat (length ls) :: u64) = length ls"
proof -
  show *: "length ls \<le> 2 ^ 63"
    using assms by (fastforce simp: ct_trees_ok_def tree_holds_def ct_max_leaves_def)
  then show "unat (of_nat (length ls) :: u64) = length ls"
    by (simp add: unat_of_nat)
qed

lemma tree_holds_ok: "ct_trees_ok sha ct \<Longrightarrow> tree_holds ct ls t \<Longrightarrow> ct_tree_ok sha ct ls (aot_inner t)"
  by (auto simp: ct_trees_ok_def tree_holds_def)

lemma tree_holds_len:
  "ct_trees_ok sha ct \<Longrightarrow> tree_holds ct ls t \<Longrightarrow> tree_len ct t = of_nat (length ls)"
  by (drule (1) tree_holds_ok) (simp add: tree_len_def ct_tree_ok_def)

lemma tree_holds_root:
  "ct_trees_ok sha ct \<Longrightarrow> tree_holds ct ls t \<Longrightarrow>
   tree_root ct t = from_parts (mth sha ls) (of_nat (length ls))"
  by (drule (1) tree_holds_ok) (simp add: tree_root_def from_parts_def ct_tree_ok_def)

lemma of_nat_less_iff64:
  assumes "n < 2 ^ 64"
  shows "i < (of_nat n :: u64) \<longleftrightarrow> unat i < n"
  using assms by (simp add: word_less_nat_alt unat_of_nat)

lemma tree_holds_less:
  "ct_trees_ok sha ct \<Longrightarrow> tree_holds ct ls t \<Longrightarrow> i < (of_nat (length ls) :: u64) \<longleftrightarrow> unat i < length ls"
  using tree_holds_length(1) [of sha ct ls t] by (intro of_nat_less_iff64) simp

lemma prove_inclusion_holds:
  assumes "ct_trees_ok sha ct" and "tree_holds ct ls t"
  shows "prove_inclusion ct t i =
    (if unat i < length ls then Ok \<lparr>ip_inner = concat (path sha (unat i) ls)\<rparr>
     else Err (MerkleTree (lit ''inclusion proof requested for leaf index '' @ dec64 i
             @ lit '' but tree has '' @ dec64 (of_nat (length ls)) @ lit '' leaves'')))"
  using tree_holds_ok [OF assms] tree_holds_less [OF assms, of i]
  by (auto simp: prove_inclusion_def Let_def ct_tree_ok_def not_le)

lemma prove_consistency_holds:
  assumes "ct_trees_ok sha ct" and "tree_holds ct ls t" and "0 < m" and "unat m < length ls"
  shows "prove_consistency ct t m (of_nat (length ls)) =
    Ok \<lparr>cp_inner = concat (subproof sha (unat m) ls True)\<rparr>"
proof -
  note len = tree_holds_length [OF assms(1,2)]
  have "m < of_nat (length ls)"
    using assms(4) tree_holds_less [OF assms(1,2), of m] by simp
  then have "unat (of_nat (length ls) - m) = length ls - unat m"
    using unat_sub [of m "of_nat (length ls)"] len(2) by simp
  moreover have "0 < unat m"
    using assms(3) by (simp add: word_less_nat_alt)
  ultimately show ?thesis
    using tree_holds_ok [OF assms(1,2)] assms(3,4) \<open>m < of_nat (length ls)\<close>
    by (auto simp: prove_consistency_def Let_def ct_tree_ok_def not_less)
qed

text \<open>No argument makes the wrappers panic, although the crate panics out of range.\<close>

lemma prove_inclusion_not_Panic:
  "ct_trees_ok sha ct \<Longrightarrow> tree_holds ct ls t \<Longrightarrow> prove_inclusion ct t i \<noteq> Panic"
  by (simp add: prove_inclusion_holds)

lemma prove_consistency_not_Panic:
  assumes "ct_trees_ok sha ct" and "tree_holds ct ls t"
  shows "prove_consistency ct t m n \<noteq> Panic"
proof
  assume *: "prove_consistency ct t m n = Panic"
  note ok = tree_holds_ok [OF assms] and len = tree_holds_length [OF assms]
  from * ok have c: "n = of_nat (length ls)" "m \<noteq> 0" "m \<le> n"
    "ct_prove_consistency ct (aot_inner t) (unat (n - m)) = None"
    by (auto simp: prove_consistency_def Let_def ct_tree_ok_def outcome split: if_splits)
  then have "unat (n - m) = length ls - unat m" "unat m \<le> length ls" "0 < unat m"
    using unat_sub [of m n] len(2) by (simp_all add: word_le_nat_alt unat_gt_0)
  then have "unat (n - m) < length ls"
    by linarith
  with c(4) ok show False
    by (cases "unat (n - m) = 0") (auto simp: ct_tree_ok_def)
qed

section \<open>Verification\<close>

definition wf_proof_bytes :: "bytes \<Rightarrow> bool" where
  "wf_proof_bytes bs \<longleftrightarrow> length bs mod 32 = 0"

lemma inclusion_try_from_bytes_cases:
  assumes "ct_verifier_ok sha ct"
  shows "inclusion_try_from_bytes ct bs = Ok p \<longleftrightarrow> wf_proof_bytes bs \<and> p = \<lparr>ip_inner = bs\<rparr>"
    and "inclusion_try_from_bytes ct bs \<noteq> Panic"
    and "\<not> wf_proof_bytes bs \<Longrightarrow> \<exists>r. inclusion_try_from_bytes ct bs = Err (MerkleTree r)"
proof -
  from assms have "ct_inclusion_from_bytes ct bs = Inr bs \<and> length bs mod 32 = 0
         \<or> isl (ct_inclusion_from_bytes ct bs) \<and> length bs mod 32 \<noteq> 0"
    by (simp add: ct_verifier_ok_def)
  then show "inclusion_try_from_bytes ct bs = Ok p \<longleftrightarrow> wf_proof_bytes bs \<and> p = \<lparr>ip_inner = bs\<rparr>"
    and "inclusion_try_from_bytes ct bs \<noteq> Panic"
    and "\<not> wf_proof_bytes bs \<Longrightarrow> \<exists>r. inclusion_try_from_bytes ct bs = Err (MerkleTree r)"
    by (auto simp: inclusion_try_from_bytes_def wf_proof_bytes_def isl_def outcome)
qed

lemma consistency_try_from_bytes_cases:
  assumes "ct_verifier_ok sha ct"
  shows "consistency_try_from_bytes ct bs = Ok p \<longleftrightarrow> wf_proof_bytes bs \<and> p = \<lparr>cp_inner = bs\<rparr>"
    and "consistency_try_from_bytes ct bs \<noteq> Panic"
    and "\<not> wf_proof_bytes bs \<Longrightarrow> \<exists>r. consistency_try_from_bytes ct bs = Err (MerkleTree r)"
proof -
  from assms have "ct_consistency_from_bytes ct bs = Inr bs \<and> length bs mod 32 = 0
         \<or> isl (ct_consistency_from_bytes ct bs) \<and> length bs mod 32 \<noteq> 0"
    by (simp add: ct_verifier_ok_def)
  then show "consistency_try_from_bytes ct bs = Ok p \<longleftrightarrow> wf_proof_bytes bs \<and> p = \<lparr>cp_inner = bs\<rparr>"
    and "consistency_try_from_bytes ct bs \<noteq> Panic"
    and "\<not> wf_proof_bytes bs \<Longrightarrow> \<exists>r. consistency_try_from_bytes ct bs = Err (MerkleTree r)"
    by (auto simp: consistency_try_from_bytes_def wf_proof_bytes_def isl_def outcome)
qed

lemma verify_inclusion_raw_Ok:
  "ct_verifier_ok sha ct \<Longrightarrow> wf_proof_bytes (ip_inner p) \<Longrightarrow>
   verify_inclusion_raw ct (from_parts r n) d i p = Ok u \<longleftrightarrow>
   i < n \<and> root_from_path sha (unat i) (unat n) (leaf_hash sha d) (chunks_exact 32 (ip_inner p)) = Some r"
  by (simp add: ct_verifier_ok_def verify_inclusion_raw_def from_parts_def root_from_inner_def root_inner_def
      wf_proof_bytes_def outcome)

lemma verify_inclusion_raw_not_Panic [simp]: "verify_inclusion_raw ct r d i p \<noteq> Panic"
  by (simp add: verify_inclusion_raw_def outcome)

lemma verify_inclusion_raw_Err:
  "verify_inclusion_raw ct r d i p = Err e \<Longrightarrow> \<exists>s. e = MerkleTree s"
  by (auto simp: verify_inclusion_raw_def outcome)

lemma verify_consistency_Ok:
  "ct_verifier_ok sha ct \<Longrightarrow> wf_proof_bytes (cp_inner p) \<Longrightarrow> n1 \<noteq> n2 \<Longrightarrow>
   verify_consistency ct (from_parts r1 n1) (from_parts r2 n2) p = Ok u \<longleftrightarrow>
   0 < n1 \<and> n1 < n2 \<and>
   roots_from_proof sha (unat n1) (unat n2) True r1 (chunks_exact 32 (cp_inner p)) = Some (r1, r2)"
  by (simp add: ct_verifier_ok_def verify_consistency_def from_parts_def root_from_inner_def root_inner_def
      wf_proof_bytes_def outcome)

lemma verify_consistency_not_Panic [simp]: "verify_consistency ct r1 r2 p \<noteq> Panic"
  by (simp add: verify_consistency_def outcome)

lemma verify_inclusion_serialized:
  "serialize_leaf postcard leaf = Ok d \<Longrightarrow>
   verify_inclusion ct postcard r leaf i p = verify_inclusion_raw ct r d i p"
  by (simp add: verify_inclusion_def verify_inclusion_raw_def)

section \<open>Proof bytes\<close>

lemma path_bytes:
  assumes "sha256_size sha"
  shows "chunks_exact 32 (concat (path sha m ds)) = path sha m ds" and "wf_proof_bytes (concat (path sha m ds))"
    and "length (concat (path sha m ds)) = 32 * length (path sha m ds)"
  using chunks_exact_concat [of "path sha m ds" 32] length_concat_const [of "path sha m ds" 32]
    path_node_length [OF assms] by (auto simp: wf_proof_bytes_def)

lemma subproof_bytes:
  assumes "sha256_size sha"
  shows "chunks_exact 32 (concat (subproof sha m ds b)) = subproof sha m ds b"
    and "wf_proof_bytes (concat (subproof sha m ds b))"
    and "length (concat (subproof sha m ds b)) = 32 * length (subproof sha m ds b)"
  using chunks_exact_concat [of "subproof sha m ds b" 32] length_concat_const [of "subproof sha m ds b" 32]
    subproof_node_length [OF assms] by (auto simp: wf_proof_bytes_def)

lemma proof_chunks:
  "wf_proof_bytes bs \<Longrightarrow> (\<forall>x \<in> set (chunks_exact 32 bs). length x = 32) \<and> concat (chunks_exact 32 bs) = bs"
  unfolding wf_proof_bytes_def by (intro conjI ballI concat_chunks_exact) (erule chunks_exact_all_length)

text \<open>A tree's own proofs verify, against its root and against the root of a prefix.\<close>

lemma verify_own_path:
  assumes "sha256_size sha" and "ct_verifier_ok sha ct" and "unat n = length ls" and "unat i < length ls"
  shows "verify_inclusion_raw ct (from_parts (mth sha ls) n) (ls ! unat i) i
    \<lparr>ip_inner = concat (path sha (unat i) ls)\<rparr> = Ok ()"
  using assms path_bytes [OF assms(1), of "unat i" ls] path_complete [OF assms(4)]
  by (simp add: verify_inclusion_raw_Ok word_less_nat_alt)

lemma verify_own_subproof:
  assumes "sha256_size sha" and "ct_verifier_ok sha ct"
    and "unat n = length ls" and "0 < m" and "m < n"
  shows "verify_consistency ct (from_parts (mth sha (take (unat m) ls)) m) (from_parts (mth sha ls) n)
    \<lparr>cp_inner = concat (subproof sha (unat m) ls True)\<rparr> = Ok ()"
proof -
  have "0 < unat m" "unat m \<le> length ls"
    using assms(3-5) by (simp_all add: word_less_nat_alt)
  from subproof_complete [OF this, of sha True] show ?thesis
    using assms subproof_bytes [OF assms(1), of "unat m" ls True] by (simp add: verify_consistency_Ok)
qed

text \<open>The strings hashed by a tree and by the verification of a claim against it.\<close>

definition inclusion_inputs :: "sha256 \<Rightarrow> bytes list \<Rightarrow> bytes \<Rightarrow> u64 \<Rightarrow> bytes \<Rightarrow> bytes set" where
  "inclusion_inputs sha ls d i bs =
     set (mth_inputs sha ls) \<union> {0x00 # d}
       \<union> set (path_inputs sha (unat i) (length ls) (leaf_hash sha d) (chunks_exact 32 bs))"

definition consistency_inputs :: "sha256 \<Rightarrow> bytes list \<Rightarrow> bytes list \<Rightarrow> bytes \<Rightarrow> bytes set" where
  "consistency_inputs sha es ds bs =
     set (mth_inputs sha es) \<union> set (mth_inputs sha ds)
       \<union> set (proof_inputs sha (length es) (length ds) True (mth sha es) (chunks_exact 32 bs))"

lemma verify_inclusion_raw_sound:
  assumes "sha256_size sha" and "ct_verifier_ok sha ct" and "wf_proof_bytes bs" and "unat n = length ls"
    and "verify_inclusion_raw ct (from_parts (mth sha ls) n) d i \<lparr>ip_inner = bs\<rparr> = Ok ()"
    and "collision_free sha (inclusion_inputs sha ls d i bs)"
  shows "unat i < length ls" and "d = ls ! unat i" and "bs = concat (path sha (unat i) ls)"
proof -
  from assms have *: "unat i < length ls"
    "root_from_path sha (unat i) (length ls) (leaf_hash sha d) (chunks_exact 32 bs) = Some (mth sha ls)"
    by (simp_all add: verify_inclusion_raw_Ok word_less_nat_alt)
  from path_sound [OF assms(1) *(1) conjunct1 [OF proof_chunks [OF assms(3)]] *(2)] assms(6)
  have "d = ls ! unat i" and "chunks_exact 32 bs = path sha (unat i) ls"
    by (auto simp: inclusion_inputs_def)
  with *(1) proof_chunks [OF assms(3)] show "unat i < length ls" and "d = ls ! unat i"
    and "bs = concat (path sha (unat i) ls)"
    by simp_all
qed

lemma verify_consistency_sound:
  assumes "sha256_size sha" and "ct_verifier_ok sha ct" and "wf_proof_bytes bs"
    and "unat m = length es" and "unat n = length ds" and "m \<noteq> n"
    and "verify_consistency ct (from_parts (mth sha es) m) (from_parts (mth sha ds) n) \<lparr>cp_inner = bs\<rparr> = Ok ()"
    and "collision_free sha (consistency_inputs sha es ds bs)"
  shows "length es < length ds" and "es = take (length es) ds"
proof -
  from assms have *: "0 < length es" "length es < length ds"
    "roots_from_proof sha (length es) (length ds) True (mth sha es) (chunks_exact 32 bs)
       = Some (mth sha es, mth sha ds)"
    by (simp_all add: verify_consistency_Ok word_less_nat_alt)
  show "length es < length ds" by fact
  show "es = take (length es) ds"
    using proof_sound [OF assms(1) *(1) less_imp_le [OF *(2)] conjunct1 [OF proof_chunks [OF assms(3)]] _ *(3)]
      assms(1,8) by (simp add: consistency_inputs_def)
qed

end
