(* ===== verification/Checkpoint_Body.thy ===== *)
theory Checkpoint_Body
  imports Verifier_Key_Model Merkle_Model
begin

text \<open>
  \<^verbatim>\<open>lys-core/src/checkpoint/body.rs\<close>: the C2SP tlog-checkpoint body, its three-line text
  and its strict parser, which tolerates extension lines. The main lemma says exactly which
  texts parse to a body.
\<close>

section \<open>Model\<close>

record checkpoint_body =
  cb_origin :: str
  cb_tree_size :: u64
  cb_root_hash :: bytes

definition checkpoint_new :: "str \<Rightarrow> u64 \<Rightarrow> bytes \<Rightarrow> checkpoint_body trust_result" where
  "checkpoint_new origin tree_size root =
     res_bind
       (map_err (\<lambda>e. CheckpointEncoding (lit ''invalid checkpoint origin: '' @ display_trust_error e))
         (validate_note_name origin))
       (\<lambda>_. Ok \<lparr>cb_origin = origin, cb_tree_size = tree_size, cb_root_hash = root\<rparr>)"

definition from_root :: "str \<Rightarrow> root_hash \<Rightarrow> checkpoint_body trust_result" where
  "from_root origin root = (case to_parts root of (h, n) \<Rightarrow> checkpoint_new origin n h)"

definition encode_body :: "base64 \<Rightarrow> checkpoint_body \<Rightarrow> str" where
  "encode_body b64 b =
     cb_origin b @ [NL] @ dec64 (cb_tree_size b) @ [NL] @ b64_encode b64 (cb_root_hash b) @ [NL]"

definition parse_tree_size :: "str \<Rightarrow> u64 trust_result" where
  "parse_tree_size line =
     (if line = [] \<or> \<not> list_all (\<lambda>b. is_ascii_digit (unat b)) (utf8_encode line)
      then Err (CheckpointParsing (lit ''tree size must be ASCII decimal digits only''))
      else if str_len line > 1 \<and> hd line = 48
      then Err (CheckpointParsing (lit ''tree size must not have leading zeros''))
      else map_err (\<lambda>e. CheckpointParsing (lit ''tree size does not fit in u64: '' @ e))
             (of_sum (parse_u64 line)))"

definition parse_root_line :: "base64 \<Rightarrow> str \<Rightarrow> bytes trust_result" where
  "parse_root_line b64 line =
     (if str_len line \<noteq> 44
      then Err (CheckpointParsing
             (lit ''root hash line must be exactly 44 base64 characters, got '' @ dec (str_len line)))
      else
        res_bind
          (map_err (\<lambda>e. CheckpointParsing (lit ''root hash line is not canonical standard base64: '' @ e))
            (of_sum (b64_decode b64 line)))
          (\<lambda>decoded. ok_or
            (CheckpointParsing (lit ''root hash must decode to 32 bytes, got '' @ dec (length decoded)))
            (try_into_array 32 decoded)))"

definition parse_body :: "base64 \<Rightarrow> str \<Rightarrow> checkpoint_body trust_result" where
  "parse_body b64 text =
     (case strip_suffix text NL of
        None \<Rightarrow> Err (CheckpointParsing (lit ''checkpoint body must end with a newline''))
      | Some without_final_newline \<Rightarrow>
          let lines = split_on NL without_final_newline in
          if length lines < 3
          then Err (CheckpointParsing
                 (lit ''checkpoint body must have at least 3 lines, got '' @ dec (length lines)))
          else if list_ex (\<lambda>line. line = []) lines
          then Err (CheckpointParsing (lit ''checkpoint body must not contain empty lines''))
          else
            res_bind (index lines 0) (\<lambda>origin.
            res_bind
              (map_err (\<lambda>e. CheckpointParsing (lit ''invalid checkpoint origin: '' @ display_trust_error e))
                (validate_note_name origin)) (\<lambda>_.
            res_bind (res_bind (index lines 1) parse_tree_size) (\<lambda>tree_size.
            res_bind (res_bind (index lines 2) (parse_root_line b64)) (\<lambda>root.
            Ok \<lparr>cb_origin = origin, cb_tree_size = tree_size, cb_root_hash = root\<rparr>)))))"

definition to_root :: "checkpoint_body \<Rightarrow> root_hash" where
  "to_root b = from_parts (cb_root_hash b) (cb_tree_size b)"

section \<open>Lemmas\<close>

definition wf_body :: "checkpoint_body \<Rightarrow> bool" where
  "wf_body b \<longleftrightarrow> valid_note_name (cb_origin b) \<and> length (cb_root_hash b) = 32"

text \<open>Extension lines: non-empty, each followed by a newline.\<close>

definition ext_lines :: "str list \<Rightarrow> bool" where
  "ext_lines es \<longleftrightarrow> (\<forall>e \<in> set es. e \<noteq> [] \<and> NL \<notin> set e)"

definition ext_text :: "str list \<Rightarrow> str" where
  "ext_text es = concat (map (\<lambda>e. e @ [NL]) es)"

lemma checkpoint_new_Ok:
  "checkpoint_new origin n h = Ok b \<longleftrightarrow>
   valid_note_name origin \<and> b = \<lparr>cb_origin = origin, cb_tree_size = n, cb_root_hash = h\<rparr>"
  by (auto simp: checkpoint_new_def outcome)

lemma checkpoint_new_not_Panic [simp]: "checkpoint_new origin n h \<noteq> Panic"
  by (simp add: checkpoint_new_def outcome)

lemma checkpoint_new_wf: "checkpoint_new origin n h = Ok b \<Longrightarrow> length h = 32 \<Longrightarrow> wf_body b"
  by (auto simp: checkpoint_new_Ok wf_body_def)

lemma from_root_Ok:
  "from_root origin r = Ok b \<longleftrightarrow>
   valid_note_name origin \<and> b = \<lparr>cb_origin = origin, cb_tree_size = rh_leaves r, cb_root_hash = rh_digest r\<rparr>"
  by (simp add: from_root_def to_parts_def checkpoint_new_Ok)

lemma from_root_not_Panic [simp]: "from_root origin r \<noteq> Panic"
  by (simp add: from_root_def to_parts_def)

lemma to_root_from_root: "from_root origin r = Ok b \<Longrightarrow> to_root b = r"
  by (simp add: from_root_Ok to_root_def from_parts_def root_from_inner_def)

lemma join_snoc_NL: "xs \<noteq> [] \<Longrightarrow> join NL xs @ [NL] = ext_text xs"
proof (induction xs)
  case (Cons x xs)
  then show ?case by (cases xs) (auto simp: ext_text_def)
qed simp

lemma encode_body_text:
  "encode_body b64 b = ext_text [cb_origin b, dec64 (cb_tree_size b), b64_encode b64 (cb_root_hash b)]"
  by (simp add: encode_body_def ext_text_def)

lemma ext_text_append [simp]: "ext_text (xs @ ys) = ext_text xs @ ext_text ys"
  by (simp add: ext_text_def)

lemma dec64_digits: "list_all is_ascii_digit (dec64 w)"
  using dec_digits [of _ "unat w"] by (auto simp: list_all_iff)

lemma parse_tree_size_dec: "parse_tree_size (dec64 w) = Ok w"
proof -
  have "list_all (\<lambda>b. is_ascii_digit (unat b)) (utf8_encode (dec64 w))"
    using dec64_digits [of w] dec_ascii [of "unat w"]
    by (auto simp: utf8_encode_ascii list_all_iff unat_byte_of)
  moreover have "\<not> (str_len (dec64 w) > 1 \<and> hd (dec64 w) = 48)"
    using dec_hd [of "unat w"] str_len_ascii [OF dec_ascii, of "unat w"]
    by (cases "unat w = 0") (auto simp: dec.simps)
  ultimately show ?thesis
    by (simp add: parse_tree_size_def parse_u64_dec)
qed

lemma ascii_digit_bytes:
  assumes "list_all (\<lambda>b. is_ascii_digit (unat b)) (utf8_encode s)" and "wf_str s"
  shows "list_all is_ascii_digit s"
proof -
  have "\<forall>c \<in> set s. c < 128"
  proof
    fix c assume "c \<in> set s"
    then have "\<forall>b \<in> set (utf8_char c). is_ascii_digit (unat b)" and "is_scalar c"
      using assms by (auto simp: utf8_encode_def list_all_iff wf_str_def)
    then show "c < 128"
      by (auto simp: utf8_char_def is_ascii_digit_def unat_byte_of is_scalar_def split: if_splits)
  qed
  then have "utf8_encode s = map byte_of s" and "\<forall>c \<in> set s. unat (byte_of c) = c"
    by (auto simp: utf8_encode_ascii list_all_iff unat_byte_of)
  with assms(1) show ?thesis
    by (auto simp: list_all_iff)
qed

lemma parse_tree_size_Ok:
  assumes "wf_str line" and "parse_tree_size line = Ok n"
  shows "line = dec64 n"
proof -
  from assms(2) have line: "line \<noteq> []" "list_all (\<lambda>b. is_ascii_digit (unat b)) (utf8_encode line)"
    "\<not> (str_len line > 1 \<and> hd line = 48)" "parse_u64 line = Inr n"
    by (auto simp: parse_tree_size_def outcome split: if_splits)
  note digits = ascii_digit_bytes [OF line(2) assms(1)]
  then have "list_all (\<lambda>c. c < 128) line"
    by (auto simp: list_all_iff is_ascii_digit_def)
  then have zero: "length line > 1 \<Longrightarrow> hd line \<noteq> 48"
    using line(3) by (simp add: str_len_ascii)
  from line(1) obtain c cs where c: "line = c # cs" by (cases line) auto
  with digits have "c \<noteq> PLUS" by (auto simp: is_ascii_digit_def)
  with line(4) c obtain v where v: "parse_digits (2 ^ 64) 10 0 line = Inr v" "n = word_of_nat v"
    by (cases "parse_digits (2 ^ 64) 10 0 line") (auto simp: parse_u64_def from_str_radix_def)
  from parse_digits_strict [OF v(1) line(1) digits zero] have "line = dec v" "v < 2 ^ 64"
    by auto
  moreover from \<open>v < 2 ^ 64\<close> have "unat n = v"
    using v(2) by (simp add: unat_of_nat)
  ultimately show ?thesis by simp
qed

lemma parse_root_line_encode:
  "base64_standard b64 \<Longrightarrow> length h = 32 \<Longrightarrow> parse_root_line b64 (b64_encode b64 h) = Ok h"
  using base64_length [of b64 h] str_len_ascii [OF base64_ascii, of b64 h]
  by (simp add: parse_root_line_def try_into_array_def)

lemma parse_root_line_Ok:
  "base64_standard b64 \<Longrightarrow> parse_root_line b64 line = Ok h \<Longrightarrow> line = b64_encode b64 h \<and> length h = 32"
  by (auto simp: parse_root_line_def try_into_array_def outcome base64_decode_canonical split: if_splits)

lemma parse_body_not_Panic [simp]: "parse_body b64 text \<noteq> Panic"
  by (auto simp: parse_body_def parse_tree_size_def parse_root_line_def Let_def index_def outcome
      split: option.splits)

lemma parse_body_Err: "parse_body b64 text = Err e \<Longrightarrow> \<exists>r. e = CheckpointParsing r"
  by (auto simp: parse_body_def parse_tree_size_def parse_root_line_def Let_def index_def outcome
      split: option.splits if_splits)

text \<open>The lines of a text that ends with a newline.\<close>

lemma split_on_ext_text:
  assumes "es \<noteq> []" and "ext_lines es"
  shows "strip_suffix (ext_text es) NL = Some (join NL es)" and "split_on NL (join NL es) = es"
proof -
  show "strip_suffix (ext_text es) NL = Some (join NL es)"
    using join_snoc_NL [OF assms(1)] strip_suffix_snoc by metis
  show "split_on NL (join NL es) = es"
    using assms by (intro split_on_join) (auto simp: ext_lines_def)
qed

lemma body_lines:
  assumes "base64_standard b64" and "wf_body b"
  shows "ext_lines [cb_origin b, dec64 (cb_tree_size b), b64_encode b64 (cb_root_hash b)]"
proof -
  have "NL \<notin> set (dec64 (cb_tree_size b))"
    using dec_digits [of NL] by (auto simp: is_ascii_digit_def)
  moreover have "cb_root_hash b \<noteq> []"
    using assms(2) by (auto simp: wf_body_def)
  ultimately show ?thesis
    using assms valid_note_name_no_ws [of "cb_origin b"] base64_text(1) [OF assms(1)]
      base64_not_Nil [OF assms(1)]
    by (simp add: ext_lines_def wf_body_def)
qed

lemma parse_body_lines:
  assumes "es = l0 # l1 # l2 # ls" and "ext_lines es"
  shows "parse_body b64 (ext_text es) =
    res_bind
      (map_err (\<lambda>e. CheckpointParsing (lit ''invalid checkpoint origin: '' @ display_trust_error e))
        (validate_note_name l0)) (\<lambda>_.
    res_bind (parse_tree_size l1) (\<lambda>n. res_bind (parse_root_line b64 l2) (\<lambda>h.
    Ok \<lparr>cb_origin = l0, cb_tree_size = n, cb_root_hash = h\<rparr>)))"
proof -
  have "es \<noteq> []" and "\<not> list_ex (\<lambda>l. l = []) es"
    using assms by (auto simp: ext_lines_def list_ex_iff)
  then show ?thesis
    using split_on_ext_text [OF _ assms(2)] assms(1)
    by (simp add: parse_body_def Let_def index_def)
qed

lemma parse_body_encode:
  assumes "base64_standard b64" and "wf_body b" and "ext_lines es"
  shows "parse_body b64 (encode_body b64 b @ ext_text es) = Ok b"
proof -
  let ?ls = "[cb_origin b, dec64 (cb_tree_size b), b64_encode b64 (cb_root_hash b)]"
  have "ext_lines (?ls @ es)"
    using body_lines [OF assms(1,2)] assms(3) by (auto simp: ext_lines_def)
  from parse_body_lines [OF _ this, of "cb_origin b" _ _ es b64] show ?thesis
    using assms(1,2)
    by (simp add: encode_body_text wf_body_def parse_tree_size_dec parse_root_line_encode flip: ext_text_append)
qed

lemma parse_body_Ok:
  assumes "base64_standard b64" and "wf_str text" and "parse_body b64 text = Ok b"
  shows "wf_body b \<and> (\<exists>es. ext_lines es \<and> text = encode_body b64 b @ ext_text es)"
proof -
  from assms(3) obtain t where t: "strip_suffix text NL = Some t"
    by (auto simp: parse_body_def split: option.splits)
  let ?ls = "split_on NL t"
  from assms(3) t have ls: "3 \<le> length ?ls" "ext_lines ?ls"
    by (auto simp: parse_body_def Let_def ext_lines_def list_ex_iff split_on_pieces split: if_splits)
  then obtain l0 l1 l2 es where es: "?ls = l0 # l1 # l2 # es"
    by (metis (no_types) Suc_le_length_iff numeral_3_eq_3)
  have whole: "text = ext_text ?ls"
    using strip_suffix_Some [OF t] join_split_on [of NL t] join_snoc_NL [of ?ls] by simp
  then have "parse_body b64 (ext_text ?ls) = Ok b"
    using assms(3) by simp
  from this [unfolded parse_body_lines [OF es ls(2)]] have
    b: "valid_note_name l0" "parse_tree_size l1 = Ok (cb_tree_size b)"
      "parse_root_line b64 l2 = Ok (cb_root_hash b)" "cb_origin b = l0"
    by (auto simp: outcome)
  have "wf_str l1"
    using assms(2) whole es by (auto simp: ext_text_def)
  with b(2) have "l1 = dec64 (cb_tree_size b)" by (rule parse_tree_size_Ok [rotated])
  moreover note parse_root_line_Ok [OF assms(1) b(3)]
  moreover have "ext_lines es"
    using ls(2) es by (simp add: ext_lines_def)
  moreover have "text = ext_text ([l0, l1, l2] @ es)"
    using whole es by simp
  ultimately show ?thesis
    using b(1,4) by (auto simp: wf_body_def encode_body_text simp flip: ext_text_append)
qed

interpretation body_codec: wire_codec "base64_standard b64" wf_body "encode_body b64" "parse_body b64" for b64
  using parse_body_encode [where es = "[]"] by unfold_locales (simp add: ext_lines_def ext_text_def)

end
