(* ===== verification/Note_Model.thy ===== *)
theory Note_Model
  imports Checkpoint_Body
begin

text \<open>
  \<^verbatim>\<open>lys-core/src/checkpoint/note.rs\<close>: signing, parsing and verifying C2SP signed notes.
  Texts are sequences of Unicode scalars, so the byte offsets of the code are scalar offsets
  here; every offset the code slices at is next to an ASCII newline, hence a char boundary.
\<close>

section \<open>Model\<close>

definition MAX_NOTE_BYTES :: nat where
  "MAX_NOTE_BYTES = 1024 * 1024"

definition MAX_SIGNATURE_LINES :: nat where
  "MAX_SIGNATURE_LINES = 100"

definition SIG_PREFIX :: str where
  "SIG_PREFIX = [0x2014, SP]"

definition has_control :: "str \<Rightarrow> bool" where
  "has_control s \<longleftrightarrow> list_ex (\<lambda>c. c < SP \<and> c \<noteq> NL) s"

definition sign_note :: "sha256 \<Rightarrow> base64 \<Rightarrow> ed25519 \<Rightarrow> str \<Rightarrow> str \<Rightarrow> identity \<Rightarrow> str trust_result" where
  "sign_note sha b64 ed body name identity =
     res_bind
       (map_err (\<lambda>e. CheckpointEncoding (lit ''invalid note key name: '' @ display_trust_error e))
         (validate_note_name name)) (\<lambda>_.
     if body = [] then Err (CheckpointEncoding (lit ''note body must not be empty''))
     else if \<not> ends_with body NL
       then Err (CheckpointEncoding (lit ''note body must end with a newline''))
     else if contains [NL, NL] body
       then Err (CheckpointEncoding (lit ''note body must not contain a blank line''))
     else if has_control body
       then Err (CheckpointEncoding
              (lit ''note body must not contain ASCII control characters other than newline''))
     else
       res_bind
         (map_err (\<lambda>e. CheckpointEncoding (lit ''invalid note key name: '' @ display_trust_error e))
           (key_id sha name (public_key_bytes identity))) (\<lambda>id.
       let signature = sign ed identity (utf8_encode body);
           blob = id @ signature;
           note = body @ [NL] @ SIG_PREFIX @ name @ [SP] @ b64_encode b64 blob @ [NL] in
       if str_len note > MAX_NOTE_BYTES
       then Err (CheckpointEncoding (lit ''note would be '' @ dec (str_len note) @ lit '' bytes, exceeding the ''
              @ dec MAX_NOTE_BYTES @ lit ''-byte cap''))
       else Ok note))"

record signature_line =
  sl_name :: str
  sl_key_id :: bytes
  sl_signature :: bytes

definition parse_signature_line :: "base64 \<Rightarrow> str \<Rightarrow> signature_line trust_result" where
  "parse_signature_line b64 line =
     res_bind (ok_or NoteVerification (strip_prefix SIG_PREFIX line)) (\<lambda>rest.
     res_bind (ok_or NoteVerification (split_once SP rest)) (\<lambda>(name, blob_b64).
     if blob_b64 = [] \<or> \<not> is_ok (validate_note_name name) then Err NoteVerification
     else
       res_bind (map_err (\<lambda>_. NoteVerification) (of_sum (b64_decode b64 blob_b64))) (\<lambda>blob.
       if length blob < 5 then Err NoteVerification
       else
         res_bind (res_bind (slice_to 4 blob) (copy_from_slice 4)) (\<lambda>id.
         res_bind (slice_from 4 blob) (\<lambda>sig.
         Ok \<lparr>sl_name = name, sl_key_id = id, sl_signature = sig\<rparr>)))))"

text \<open>The loop over the signature lines; \<open>n\<close> lines have been pushed before.\<close>

fun parse_signature_lines :: "base64 \<Rightarrow> nat \<Rightarrow> str list \<Rightarrow> signature_line list trust_result" where
  "parse_signature_lines b64 n [] = Ok []"
| "parse_signature_lines b64 n (line # rest) =
     res_bind (parse_signature_line b64 line) (\<lambda>sl.
     if Suc n > MAX_SIGNATURE_LINES then Err NoteVerification
     else res_bind (parse_signature_lines b64 (Suc n) rest) (\<lambda>sls. Ok (sl # sls)))"

definition parse_note :: "base64 \<Rightarrow> bytes \<Rightarrow> (str \<times> signature_line list) trust_result" where
  "parse_note b64 note_bytes =
     (if length note_bytes > MAX_NOTE_BYTES then Err NoteVerification
      else
        res_bind (ok_or NoteVerification (from_utf8 note_bytes)) (\<lambda>text.
        if has_control text then Err NoteVerification
        else
          res_bind (ok_or NoteVerification (rfind [NL, NL] text)) (\<lambda>split.
          res_bind (slice_to (split + 1) text) (\<lambda>body.
          res_bind (slice_from (split + 2) text) (\<lambda>sig_block.
          if sig_block = [] \<or> \<not> ends_with sig_block NL then Err NoteVerification
          else
            res_bind (slice_to (length sig_block - 1) sig_block) (\<lambda>block.
            res_bind (parse_signature_lines b64 0 (split_on NL block)) (\<lambda>lines.
            Ok (body, lines))))))))"

text \<open>The loop over the parsed lines: the first candidate decides.\<close>

fun verify_lines :: "ed25519 \<Rightarrow> verifier_key \<Rightarrow> str \<Rightarrow> signature_line list \<Rightarrow> str trust_result" where
  "verify_lines ed verifier body [] = Err NoteVerification"
| "verify_lines ed verifier body (line # rest) =
     (if sl_name line \<noteq> vk_name verifier \<or> sl_key_id line \<noteq> vk_key_id verifier
      then verify_lines ed verifier body rest
      else if length (sl_signature line) = 64
          \<and> is_ok (verify_signature ed (vk_public_key verifier) (utf8_encode body) (sl_signature line))
      then Ok body
      else Err NoteVerification)"

definition verify_note :: "base64 \<Rightarrow> ed25519 \<Rightarrow> bytes \<Rightarrow> verifier_key \<Rightarrow> str trust_result" where
  "verify_note b64 ed note_bytes verifier =
     res_bind (parse_note b64 note_bytes) (\<lambda>(body, signature_lines).
     verify_lines ed verifier body signature_lines)"

definition verify_checkpoint ::
  "base64 \<Rightarrow> ed25519 \<Rightarrow> bytes \<Rightarrow> verifier_key \<Rightarrow> checkpoint_body trust_result" where
  "verify_checkpoint b64 ed note_bytes verifier =
     res_bind (verify_note b64 ed note_bytes verifier) (\<lambda>body_text.
     res_bind (map_err (\<lambda>_. NoteVerification) (parse_body b64 body_text)) (\<lambda>body.
     if cb_origin body \<noteq> vk_name verifier then Err NoteVerification else Ok body))"

section \<open>Structure of notes\<close>

lemma has_control_append [simp]: "has_control (xs @ ys) \<longleftrightarrow> has_control xs \<or> has_control ys"
  by (auto simp: has_control_def)

lemma has_control_Cons [simp]: "has_control (c # xs) \<longleftrightarrow> (c < SP \<and> c \<noteq> NL) \<or> has_control xs"
  by (simp add: has_control_def)

lemma has_control_Nil [simp]: "\<not> has_control []"
  by (simp add: has_control_def)

lemma base64_no_control: "base64_standard b64 \<Longrightarrow> \<not> has_control (b64_encode b64 x)"
  using base64_text(3) [of b64 x] by (auto simp: has_control_def list_all_iff list_ex_iff)

lemma NL_not_prefix [simp]: "NL \<notin> set SIG_PREFIX"
  by (simp add: SIG_PREFIX_def)

text \<open>A signature line as \<open>sign_note\<close> prints it, without its newline.\<close>

definition sig_line :: "base64 \<Rightarrow> str \<Rightarrow> bytes \<Rightarrow> str" where
  "sig_line b64 name blob = SIG_PREFIX @ name @ [SP] @ b64_encode b64 blob"

lemma parse_sig_line:
  assumes "base64_standard b64" and "valid_note_name name" and "5 \<le> length blob"
  shows "parse_signature_line b64 (sig_line b64 name blob) =
    Ok \<lparr>sl_name = name, sl_key_id = take 4 blob, sl_signature = drop 4 blob\<rparr>"
proof -
  have "blob \<noteq> []" using assms(3) by auto
  then have "b64_encode b64 blob \<noteq> []"
    using base64_not_Nil [OF assms(1)] by simp
  moreover have "split_once SP (name @ SP # b64_encode b64 blob) = Some (name, b64_encode b64 blob)"
    using valid_note_name_no_ws(2) [OF assms(2)] by (rule split_once_append)
  moreover have "strip_prefix SIG_PREFIX (sig_line b64 name blob) = Some (name @ SP # b64_encode b64 blob)"
    by (simp add: sig_line_def)
  ultimately show ?thesis
    using assms by (simp add: parse_signature_line_def slice_defs)
qed

lemma no_blank_in_line:
  assumes "NL \<notin> set r" and "r \<noteq> []"
  shows "\<not> sublist [NL, NL] (NL # r @ [NL])"
proof
  assume "sublist [NL, NL] (NL # r @ [NL])"
  then obtain xs ys where *: "NL # r @ [NL] = xs @ [NL, NL] @ ys"
    by (auto simp: sublist_def)
  show False
  proof (cases xs)
    case Nil
    with * assms show False by (cases r) auto
  next
    case (Cons x xs')
    with * have eq: "r @ [NL] = xs' @ [NL, NL] @ ys" by simp
    show False
    proof (cases ys rule: rev_cases)
      case Nil
      with eq have "r = xs' @ [NL]" by simp
      with assms(1) show False by simp
    next
      case (snoc zs z)
      with eq have "r = xs' @ [NL, NL] @ zs" by simp
      with assms(1) show False by simp
    qed
  qed
qed

text \<open>The split of a note with one signature line, whatever blank lines the body has.\<close>

lemma rfind_blank:
  assumes "NL \<notin> set r" and "r \<noteq> []"
  shows "rfind [NL, NL] (b @ [NL, NL] @ r @ [NL]) = Some (length b)"
  using no_blank_in_line [OF assms] by (intro rfind_append) auto

lemma parse_note_single:
  assumes "wf_str (b @ [NL, NL] @ r @ [NL])" and "NL \<notin> set r" and "r \<noteq> []"
    and "\<not> has_control b" and "\<not> has_control r"
    and "str_len (b @ [NL, NL] @ r @ [NL]) \<le> MAX_NOTE_BYTES"
    and "parse_signature_line b64 r = Ok sl"
  shows "parse_note b64 (utf8_encode (b @ [NL, NL] @ r @ [NL])) = Ok (b @ [NL], [sl])"
proof -
  let ?t = "b @ [NL, NL] @ r @ [NL]"
  have len: "\<not> length (utf8_encode ?t) > MAX_NOTE_BYTES"
    using assms(6) by (simp add: str_len_def)
  have "ends_with (r @ [NL]) NL" by simp
  moreover have "split_on NL r = [r]" by (rule split_on_piece) fact
  moreover have "\<not> has_control ?t" using assms(4,5) by simp
  moreover have "drop (length b) ?t = [NL, NL] @ r @ [NL]" by simp
  ultimately show ?thesis
    using len from_utf8_encode [OF assms(1)] rfind_blank [OF assms(2,3), of b] assms(7)
    by (simp add: parse_note_def slice_defs MAX_SIGNATURE_LINES_def)
qed

section \<open>Signing\<close>

definition note_blob :: "sha256 \<Rightarrow> ed25519 \<Rightarrow> str \<Rightarrow> str \<Rightarrow> identity \<Rightarrow> bytes" where
  "note_blob sha ed body name i =
     key_id_of sha name (public_key_bytes i) @ sign ed i (utf8_encode body)"

definition note_text :: "sha256 \<Rightarrow> base64 \<Rightarrow> ed25519 \<Rightarrow> str \<Rightarrow> str \<Rightarrow> identity \<Rightarrow> str" where
  "note_text sha b64 ed body name i =
     body @ [NL] @ sig_line b64 name (note_blob sha ed body name i) @ [NL]"

text \<open>What the signer accepts, and what it prints.\<close>

definition signable :: "str \<Rightarrow> str \<Rightarrow> bool" where
  "signable body name \<longleftrightarrow>
     valid_note_name name \<and> ends_with body NL \<and> \<not> sublist [NL, NL] body \<and> \<not> has_control body"

lemma sign_note_Ok:
  assumes "sha256_size sha"
  shows "sign_note sha b64 ed body name i = Ok note \<longleftrightarrow>
    signable body name \<and> note = note_text sha b64 ed body name i \<and> str_len note \<le> MAX_NOTE_BYTES"
proof (cases "valid_note_name name")
  case True
  then show ?thesis
    using assms
    by (auto simp: sign_note_def key_id_valid signable_def contains_iff note_text_def note_blob_def sig_line_def
        Let_def ends_with_def split: if_splits)
next
  case False
  then show ?thesis
    by (auto simp: sign_note_def signable_def outcome)
qed

lemma str_len_note_text:
  assumes "sha256_size sha" and "base64_standard b64" and "ed25519_signs ed" and "wf_identity ed i"
  shows "str_len (note_text sha b64 ed body name i) = str_len body + str_len name + 99"
proof -
  have "length (note_blob sha ed body name i) = 68"
    using assms(1) wf_identity_sizes(2) [OF assms(3,4)] by (simp add: note_blob_def)
  then have "str_len (b64_encode b64 (note_blob sha ed body name i)) = 92"
    using base64_length [OF assms(2)] str_len_ascii [OF base64_ascii [OF assms(2)]] by simp
  moreover have "str_len SIG_PREFIX = 4" "str_len (NL # s) = Suc (str_len s)" "str_len (SP # s) = Suc (str_len s)"
    "str_len [] = 0" for s
    by (simp_all add: SIG_PREFIX_def str_len_def utf8_encode_def utf8_char_def)
  ultimately show ?thesis
    by (simp add: note_text_def sig_line_def)
qed

lemma sign_note_errors:
  assumes "sha256_size sha"
  shows "sign_note sha b64 ed body name i \<noteq> Panic"
    and "sign_note sha b64 ed body name i = Err e \<Longrightarrow> \<exists>r. e = CheckpointEncoding r"
  using key_id_not_Panic [OF assms]
  by (auto simp: sign_note_def outcome Let_def split: if_splits)

section \<open>Verification\<close>

lemma parse_signature_line_errors:
  "parse_signature_line b64 line \<noteq> Panic" "parse_signature_line b64 line = Err e \<Longrightarrow> e = NoteVerification"
  by (auto simp: parse_signature_line_def slice_defs outcome split: if_splits prod.splits)

lemma parse_signature_lines_errors:
  "parse_signature_lines b64 n ls \<noteq> Panic \<and> (\<forall>e. parse_signature_lines b64 n ls = Err e \<longrightarrow> e = NoteVerification)"
  by (induction b64 n ls rule: parse_signature_lines.induct)
    (auto simp: outcome parse_signature_line_errors(1) split: if_splits dest: parse_signature_line_errors(2))

lemma rfind_blank_bounds: "rfind [NL, NL] s = Some i \<Longrightarrow> i + 2 \<le> length s"
  using rfind_Some [of "[NL, NL]" s i] prefix_length_le [of "[NL, NL]" "drop i s"] by auto

lemma parse_note_errors:
  "parse_note b64 nb \<noteq> Panic" "parse_note b64 nb = Err e \<Longrightarrow> e = NoteVerification"
  using parse_signature_lines_errors
  by (auto simp: parse_note_def slice_defs outcome split: if_splits dest!: rfind_blank_bounds)

lemma verify_lines_errors: "verify_lines ed vk body ls = Ok body \<or> verify_lines ed vk body ls = Err NoteVerification"
  by (induction ls) auto

interpretation verify_note: collapsing "\<lambda>(b64, ed, nb, vk). verify_note b64 ed nb vk" NoteVerification
proof unfold_locales
  fix i :: "base64 \<times> ed25519 \<times> bytes \<times> verifier_key" and e
  obtain b64 ed nb vk where i: "i = (b64, ed, nb, vk)" by (cases i) auto
  have *: "verify_lines ed vk b ls \<noteq> Panic" "verify_lines ed vk b ls = Err e \<Longrightarrow> e = NoteVerification" for b ls e
    using verify_lines_errors [of ed vk b ls] by auto
  show "(case i of (b64, ed, nb, vk) \<Rightarrow> verify_note b64 ed nb vk) \<noteq> Panic"
    using * parse_note_errors(1) by (auto simp: i verify_note_def outcome)
  assume "(case i of (b64, ed, nb, vk) \<Rightarrow> verify_note b64 ed nb vk) = Err e"
  then show "e = NoteVerification"
    using * parse_note_errors(2) by (auto simp: i verify_note_def outcome)
qed

lemma verify_note_cases: "(\<exists>body. verify_note b64 ed nb vk = Ok body) \<or> verify_note b64 ed nb vk = Err NoteVerification"
  using verify_note.run_cases [of "(b64, ed, nb, vk)"] by simp

interpretation verify_checkpoint: collapsing "\<lambda>(b64, ed, nb, vk). verify_checkpoint b64 ed nb vk" NoteVerification
proof unfold_locales
  fix i :: "base64 \<times> ed25519 \<times> bytes \<times> verifier_key" and e
  obtain b64 ed nb vk where i: "i = (b64, ed, nb, vk)" by (cases i) auto
  note cases = verify_note_cases [of b64 ed nb vk]
  show "(case i of (b64, ed, nb, vk) \<Rightarrow> verify_checkpoint b64 ed nb vk) \<noteq> Panic"
    using cases by (auto simp: i verify_checkpoint_def outcome)
  assume "(case i of (b64, ed, nb, vk) \<Rightarrow> verify_checkpoint b64 ed nb vk) = Err e"
  then show "e = NoteVerification"
    using cases by (auto simp: i verify_checkpoint_def outcome split: if_splits)
qed

text \<open>The first line of the verifier's name and key id, if there is one, decides.\<close>

definition candidate :: "verifier_key \<Rightarrow> signature_line \<Rightarrow> bool" where
  "candidate vk sl \<longleftrightarrow> sl_name sl = vk_name vk \<and> sl_key_id sl = vk_key_id vk"

lemma verify_lines_find:
  "verify_lines ed vk body ls =
     (case find (candidate vk) ls of
        None \<Rightarrow> Err NoteVerification
      | Some sl \<Rightarrow> if verify_signature ed (vk_public_key vk) (utf8_encode body) (sl_signature sl) = Ok ()
                  then Ok body else Err NoteVerification)"
proof (induction ls)
  case (Cons sl ls)
  have "is_ok (verify_signature ed pk m s) \<longleftrightarrow> verify_signature ed pk m s = Ok ()" for pk m s
    by (auto simp: is_ok_iff)
  with Cons show ?case
    by (auto simp: candidate_def verify_signature_Ok)
qed simp

lemma verify_note_Ok:
  assumes "verify_note b64 ed nb vk = Ok body"
  shows "\<exists>lines sl. parse_note b64 nb = Ok (body, lines) \<and> find (candidate vk) lines = Some sl \<and>
    verify_signature ed (vk_public_key vk) (utf8_encode body) (sl_signature sl) = Ok ()"
  using assms
  by (auto simp: verify_note_def verify_lines_find outcome split: option.splits if_splits)

lemma parse_note_Ok:
  assumes "parse_note b64 nb = Ok (body, lines)"
  shows "\<exists>block. nb = utf8_encode (body @ [NL] @ block @ [NL]) \<and> wf_str body \<and> ends_with body NL \<and>
    parse_signature_lines b64 0 (split_on NL block) = Ok lines"
proof -
  from assms obtain t i where t: "from_utf8 nb = Some t" "rfind [NL, NL] t = Some i"
    "body = take (i + 1) t" "ends_with (drop (i + 2) t) NL"
    "parse_signature_lines b64 0 (split_on NL (butlast (drop (i + 2) t))) = Ok lines"
    by (auto simp: parse_note_def slice_defs outcome butlast_conv_take split: if_splits)
  from rfind_Some [OF t(2)] obtain s where s: "drop i t = [NL, NL] @ s"
    by (auto simp: prefix_def)
  then have whole: "t = take i t @ [NL, NL] @ s"
    by (metis append_take_drop_id)
  have d2: "drop (i + 2) t = s"
    using s by (metis add.commute append_eq_conv_conj drop_drop length_Cons list.size(3) numeral_2_eq_2)
  with t(4) obtain block where block: "s = block @ [NL]"
    by (auto elim: ends_withE)
  have body: "body = take i t @ [NL]"
    using t(3) s by (simp add: take_add del: add_Suc_right add_Suc)
  from from_utf8_sound [OF t(1)] whole body block have "nb = utf8_encode (body @ [NL] @ block @ [NL])" "wf_str t"
    by simp_all
  moreover have "wf_str body"
    using \<open>wf_str t\<close> whole body by (metis wf_str_simps)
  moreover have "ends_with body NL"
    unfolding body by simp
  moreover have "parse_signature_lines b64 0 (split_on NL block) = Ok lines"
    using t(5) d2 block by simp
  ultimately show ?thesis by blast
qed

text \<open>A note from the signer verifies when the key name is free of control characters, which
  the signer does not check.\<close>

lemma verify_own_note:
  assumes "sha256_size sha" and "base64_standard b64" and "ed25519_signs ed" and "wf_identity ed i"
    and "wf_str body" and "wf_str name" and "\<not> has_control name"
    and "sign_note sha b64 ed body name i = Ok note"
    and "verifier_key_new sha name (public_key_bytes i) = Ok vk"
  shows "verify_note b64 ed (utf8_encode note) vk = Ok body"
proof -
  let ?blob = "note_blob sha ed body name i" and ?kid = "key_id_of sha name (public_key_bytes i)"
  let ?r = "sig_line b64 name ?blob"
  from assms(1,8) have s: "signable body name" "note = body @ [NL] @ ?r @ [NL]" "str_len note \<le> MAX_NOTE_BYTES"
    by (auto simp: sign_note_Ok note_text_def)
  from s(1) have name: "valid_note_name name" by (simp add: signable_def)
  from s(1) obtain b where b: "body = b @ [NL]" "\<not> has_control b"
    by (auto simp: signable_def elim: ends_withE)
  have blob: "take 4 ?blob = ?kid" "drop 4 ?blob = sign ed i (utf8_encode body)" "5 \<le> length ?blob"
    using assms(1) wf_identity_sizes [OF assms(3,4)] by (simp_all add: note_blob_def)
  have r: "NL \<notin> set ?r" "?r \<noteq> []" "\<not> has_control ?r" "wf_str ?r"
    using valid_note_name_no_ws [OF name] base64_text(1) [OF assms(2)] base64_no_control [OF assms(2)]
      assms(6,7) wf_str_ascii [OF base64_ascii [OF assms(2)]]
    by (auto simp: sig_line_def SIG_PREFIX_def is_scalar_def)
  have "parse_note b64 (utf8_encode note) =
      Ok (body, [\<lparr>sl_name = name, sl_key_id = ?kid, sl_signature = sign ed i (utf8_encode body)\<rparr>])"
    using parse_note_single [of b ?r b64] parse_sig_line [OF assms(2) name blob(3)] s(2,3) b r blob assms(5)
    by (simp add: is_scalar_def)
  moreover from assms(9) have "vk = \<lparr>vk_name = name, vk_key_id = ?kid, vk_public_key = public_key_bytes i\<rparr>"
    using verifier_key_new_valid [OF assms(1) name] by simp
  ultimately show ?thesis
    using verify_signature_sign [OF assms(3,4)]
    by (simp add: verify_note_def verify_lines_find candidate_def)
qed

text \<open>Control characters anywhere in a note make it fail.\<close>

lemma verify_note_control:
  assumes "wf_str note" and "has_control note"
  shows "verify_note b64 ed (utf8_encode note) vk = Err NoteVerification"
  using assms from_utf8_encode [OF assms(1)] by (simp add: verify_note_def parse_note_def)

lemma verify_checkpoint_Ok:
  "verify_checkpoint b64 ed nb vk = Ok b \<longleftrightarrow>
   (\<exists>body. verify_note b64 ed nb vk = Ok body \<and> parse_body b64 body = Ok b \<and> cb_origin b = vk_name vk)"
  by (auto simp: verify_checkpoint_def outcome split: if_splits)

text \<open>A checkpoint body is signable under its origin when the origin has no control character.\<close>

lemma has_control_digits: "list_all is_ascii_digit s \<Longrightarrow> \<not> has_control s"
  by (auto simp: has_control_def list_all_iff list_ex_iff is_ascii_digit_def)

lemma no_blank_ext_text: "ext_lines es \<Longrightarrow> \<not> sublist [NL, NL] (ext_text es)"
proof (induction es)
  case Nil
  then show ?case by (simp add: ext_text_def)
next
  case (Cons e es)
  have e: "e \<noteq> []" "NL \<notin> set e" and es: "\<not> sublist [NL, NL] (ext_text es)"
    using Cons by (auto simp: ext_lines_def)
  have no: "\<not> prefix [NL] (ext_text es)"
    using Cons.prems by (cases es; cases "hd es") (auto simp: ext_text_def ext_lines_def)
  have "\<not> sublist [NL, NL] (u @ NL # ext_text es)" if "NL \<notin> set u" for u
    using that
  proof (induction u)
    case Nil
    then show ?case using es no by (cases "ext_text es") (auto simp: sublist_Cons_right)
  next
    case (Cons c u)
    then show ?case by (auto simp: sublist_Cons_right)
  qed
  with e show ?case by (simp add: ext_text_def)
qed

lemma encode_body_signable:
  assumes "base64_standard b64" and "wf_body b" and "\<not> has_control (cb_origin b)"
  shows "signable (encode_body b64 b) (cb_origin b)"
proof -
  have "ends_with (encode_body b64 b) NL"
    by (simp add: encode_body_def ends_with_def)
  moreover have "\<not> sublist [NL, NL] (encode_body b64 b)"
    unfolding encode_body_text by (rule no_blank_ext_text [OF body_lines [OF assms(1,2)]])
  moreover have "\<not> has_control (encode_body b64 b)"
    using assms(3) base64_no_control [OF assms(1)] has_control_digits [OF dec64_digits]
    by (simp add: encode_body_def)
  ultimately show ?thesis
    using assms(2) by (simp add: signable_def wf_body_def)
qed

lemma wf_str_encode_body:
  "base64_standard b64 \<Longrightarrow> wf_str (cb_origin b) \<Longrightarrow> wf_str (encode_body b64 b)"
  using wf_str_ascii [OF base64_ascii, of b64] wf_str_ascii [OF dec_ascii]
  by (simp add: encode_body_def is_scalar_def)

text \<open>Sign the text of a checkpoint under its origin, then verify it.\<close>

lemma verify_own_checkpoint:
  assumes "sha256_size sha" and "base64_standard b64" and "ed25519_signs ed" and "wf_identity ed i"
    and "wf_body b" and "wf_str (cb_origin b)"
    and "sign_note sha b64 ed (encode_body b64 b) (cb_origin b) i = Ok t"
    and "verifier_key_new sha (cb_origin b) (public_key_bytes i) = Ok vk"
  shows "verify_checkpoint b64 ed (utf8_encode t) vk = Ok b"
proof -
  from assms(1,7) have "\<not> has_control (cb_origin b)"
    by (auto simp: sign_note_Ok signable_def encode_body_def)
  then have "verify_note b64 ed (utf8_encode t) vk = Ok (encode_body b64 b)"
    using assms by (intro verify_own_note wf_str_encode_body) auto
  moreover have "parse_body b64 (encode_body b64 b) = Ok b"
    by (rule body_codec.parse_enc [OF assms(2,5)])
  ultimately show ?thesis
    using verifier_key_new_wf [OF assms(1) _ assms(8)] wf_identity_sizes(1) [OF assms(3,4)]
    by (simp add: verify_checkpoint_Ok)
qed

lemma sign_own_checkpoint:
  assumes "sha256_size sha" and "base64_standard b64" and "ed25519_signs ed" and "wf_identity ed i"
    and "wf_body b" and "\<not> has_control (cb_origin b)"
    and "str_len (encode_body b64 b) + str_len (cb_origin b) + 99 \<le> MAX_NOTE_BYTES"
  shows "sign_note sha b64 ed (encode_body b64 b) (cb_origin b) i
    = Ok (note_text sha b64 ed (encode_body b64 b) (cb_origin b) i)"
  using assms encode_body_signable [OF assms(2,5,6)]
  by (simp add: sign_note_Ok str_len_note_text)

lemma length_dec_le: "n < 10 ^ k \<Longrightarrow> 0 < k \<Longrightarrow> length (dec n) \<le> k"
proof (induction n arbitrary: k rule: dec.induct)
  case (1 n)
  show ?case
  proof (cases "n < 10")
    case True
    with "1.prems" show ?thesis by (simp add: dec.simps)
  next
    case False
    with "1.prems" obtain j where j: "k = Suc j" "0 < j"
      by (cases k; cases "k = 1") auto
    with "1.prems"(1) have "n div 10 < 10 ^ j"
      by (simp add: less_mult_imp_div_less mult.commute)
    with "1.IH" [OF False this j(2)] j show ?thesis by (simp add: dec.simps [of n])
  qed
qed

lemma str_len_encode_body:
  assumes "base64_standard b64" and "length (cb_root_hash b) = 32"
  shows "str_len (encode_body b64 b) \<le> str_len (cb_origin b) + 67"
proof -
  have "unat (cb_tree_size b) < 10 ^ 20"
    using unsigned_less [of "cb_tree_size b", where ?'a = nat] by simp
  then have "length (dec64 (cb_tree_size b)) \<le> 20"
    by (rule length_dec_le) simp
  then have "str_len (dec64 (cb_tree_size b)) \<le> 20"
    by (simp add: str_len_ascii [OF dec_ascii])
  moreover have "str_len (b64_encode b64 (cb_root_hash b)) = 44"
    using base64_length [OF assms(1)] str_len_ascii [OF base64_ascii [OF assms(1)]] assms(2) by simp
  moreover have "str_len (NL # s) = Suc (str_len s)" "str_len [] = 0" for s
    by (simp_all add: str_len_def utf8_char_def)
  ultimately show ?thesis
    by (simp add: encode_body_def)
qed

end
