(* ===== verification/Tlog_Model.thy ===== *)
theory Tlog_Model
  imports Note_Model
begin

text \<open>
  \<^verbatim>\<open>lys-core/src/tlog\<close>: the self-contained proof artifacts. The builder signs a checkpoint
  and verifies its own artifact before it returns it; the verifier checks everything it is
  told and collapses every failure.
\<close>

section \<open>artifact.rs\<close>

definition INCLUSION_PROOF_FORMAT :: str where
  "INCLUSION_PROOF_FORMAT = lit ''lys/log-inclusion-proof/v1''"

definition CONSISTENCY_PROOF_FORMAT :: str where
  "CONSISTENCY_PROOF_FORMAT = lit ''lys/log-consistency-proof/v1''"

definition MAX_JSON_TREE_SIZE :: u64 where
  "MAX_JSON_TREE_SIZE = 9007199254740992"

record inclusion_artifact =
  ia_format :: str
  ia_tree_size :: u64
  ia_leaf_index :: u64
  ia_hashes :: "str list"
  ia_checkpoint :: str

record consistency_artifact =
  ca_format :: str
  ca_tree_size_1 :: u64
  ca_tree_size_2 :: u64
  ca_hashes :: "str list"
  ca_checkpoint_1 :: str
  ca_checkpoint_2 :: str

definition check_json_safe_tree_size :: "u64 \<Rightarrow> unit trust_result" where
  "check_json_safe_tree_size tree_size =
     (if tree_size \<ge> MAX_JSON_TREE_SIZE
      then Err (LogArtifactEncoding (lit ''tree size '' @ dec64 tree_size
             @ lit '' is at or beyond the JSON-safe bound 2^53 ('' @ dec64 MAX_JSON_TREE_SIZE @ lit '')''))
      else Ok ())"

section \<open>verify.rs\<close>

definition MAX_INCLUSION_HASHES :: nat where
  "MAX_INCLUSION_HASHES = 64"

definition MAX_CONSISTENCY_HASHES :: nat where
  "MAX_CONSISTENCY_HASHES = 128"

fun decode_hashes :: "base64 \<Rightarrow> str list \<Rightarrow> bytes trust_result" where
  "decode_hashes b64 [] = Ok []"
| "decode_hashes b64 (entry # rest) =
     res_bind (map_err (\<lambda>_. LogArtifactVerification) (of_sum (b64_decode b64 entry))) (\<lambda>decoded.
     if length decoded \<noteq> 32 then Err LogArtifactVerification
     else res_bind (decode_hashes b64 rest) (\<lambda>bs. Ok (decoded @ bs)))"

definition verify_inclusion_artifact ::
  "'t ct_merkle \<Rightarrow> base64 \<Rightarrow> ed25519 \<Rightarrow> inclusion_artifact \<Rightarrow> bytes \<Rightarrow> verifier_key \<Rightarrow> checkpoint_body trust_result"
where
  "verify_inclusion_artifact ct b64 ed artifact leaf_bytes verifier =
     (if ia_format artifact \<noteq> INCLUSION_PROOF_FORMAT then Err LogArtifactVerification
      else if ia_tree_size artifact \<ge> MAX_JSON_TREE_SIZE then Err LogArtifactVerification
      else if ia_leaf_index artifact \<ge> ia_tree_size artifact then Err LogArtifactVerification
      else if length (ia_hashes artifact) > MAX_INCLUSION_HASHES then Err LogArtifactVerification
      else
        res_bind (decode_hashes b64 (ia_hashes artifact)) (\<lambda>proof_bytes.
        res_bind (map_err (\<lambda>_. LogArtifactVerification)
            (verify_checkpoint b64 ed (utf8_encode (ia_checkpoint artifact)) verifier)) (\<lambda>body.
        if cb_tree_size body \<noteq> ia_tree_size artifact then Err LogArtifactVerification
        else
          res_bind (map_err (\<lambda>_. LogArtifactVerification) (inclusion_try_from_bytes ct proof_bytes)) (\<lambda>p.
          res_bind (map_err (\<lambda>_. LogArtifactVerification)
            (verify_inclusion_raw ct (to_root body) leaf_bytes (ia_leaf_index artifact) p)) (\<lambda>_.
          Ok body)))))"

definition verify_consistency_artifact ::
  "'t ct_merkle \<Rightarrow> base64 \<Rightarrow> ed25519 \<Rightarrow> consistency_artifact \<Rightarrow> verifier_key
     \<Rightarrow> (checkpoint_body \<times> checkpoint_body) trust_result"
where
  "verify_consistency_artifact ct b64 ed artifact verifier =
     (if ca_format artifact \<noteq> CONSISTENCY_PROOF_FORMAT then Err LogArtifactVerification
      else if ca_tree_size_1 artifact = 0 \<or> ca_tree_size_1 artifact \<ge> ca_tree_size_2 artifact
          \<or> ca_tree_size_2 artifact \<ge> MAX_JSON_TREE_SIZE then Err LogArtifactVerification
      else if length (ca_hashes artifact) > MAX_CONSISTENCY_HASHES then Err LogArtifactVerification
      else
        res_bind (decode_hashes b64 (ca_hashes artifact)) (\<lambda>proof_bytes.
        res_bind (map_err (\<lambda>_. LogArtifactVerification)
            (verify_checkpoint b64 ed (utf8_encode (ca_checkpoint_1 artifact)) verifier)) (\<lambda>body_1.
        res_bind (map_err (\<lambda>_. LogArtifactVerification)
            (verify_checkpoint b64 ed (utf8_encode (ca_checkpoint_2 artifact)) verifier)) (\<lambda>body_2.
        if cb_tree_size body_1 \<noteq> ca_tree_size_1 artifact \<or> cb_tree_size body_2 \<noteq> ca_tree_size_2 artifact
        then Err LogArtifactVerification
        else
          res_bind (map_err (\<lambda>_. LogArtifactVerification) (consistency_try_from_bytes ct proof_bytes)) (\<lambda>p.
          res_bind (map_err (\<lambda>_. LogArtifactVerification)
            (verify_consistency ct (to_root body_1) (to_root body_2) p)) (\<lambda>_.
          Ok (body_1, body_2)))))))"

section \<open>build.rs\<close>

definition self_verifier :: "sha256 \<Rightarrow> str \<Rightarrow> identity \<Rightarrow> verifier_key trust_result" where
  "self_verifier sha origin identity =
     map_err (\<lambda>e. LogArtifactEncoding (lit ''could not build self-verification key: '' @ display_trust_error e))
       (verifier_key_new sha origin (public_key_bytes identity))"

definition chunk_proof_bytes :: "base64 \<Rightarrow> bytes \<Rightarrow> str list trust_result" where
  "chunk_proof_bytes b64 proof_bytes =
     (if chunks_remainder 32 proof_bytes \<noteq> []
      then Err (LogArtifactEncoding (lit ''proof byte length '' @ dec (length proof_bytes)
             @ lit '' is not a multiple of the 32-byte digest size''))
      else Ok (map (b64_encode b64) (chunks_exact 32 proof_bytes)))"

definition build_inclusion_artifact ::
  "'t ct_merkle \<Rightarrow> sha256 \<Rightarrow> base64 \<Rightarrow> ed25519 \<Rightarrow> 't append_only_tree \<Rightarrow> bytes \<Rightarrow> str \<Rightarrow> identity \<Rightarrow> u64
     \<Rightarrow> inclusion_artifact trust_result"
where
  "build_inclusion_artifact ct sha b64 ed tree leaf_bytes origin identity leaf_index =
     (let root = tree_root ct tree in
      res_bind (check_json_safe_tree_size (rh_leaves root)) (\<lambda>_.
      res_bind (prove_inclusion ct tree leaf_index) (\<lambda>p.
      res_bind (chunk_proof_bytes b64 (ip_inner p)) (\<lambda>hashes.
      res_bind (from_root origin root) (\<lambda>body.
      res_bind (sign_note sha b64 ed (encode_body b64 body) origin identity) (\<lambda>checkpoint.
      let artifact = \<lparr>ia_format = INCLUSION_PROOF_FORMAT, ia_tree_size = rh_leaves root,
            ia_leaf_index = leaf_index, ia_hashes = hashes, ia_checkpoint = checkpoint\<rparr> in
      res_bind (self_verifier sha origin identity) (\<lambda>verifier.
      res_bind (map_err (\<lambda>_. LogArtifactEncoding
          (lit ''self-verification of freshly built inclusion artifact failed ''
           @ lit ''(the supplied leaf bytes do not match the leaf at the given index, ''
           @ lit ''or the tree is internally inconsistent)''))
        (verify_inclusion_artifact ct b64 ed artifact leaf_bytes verifier)) (\<lambda>_.
      Ok artifact))))))))"

definition build_consistency_artifact ::
  "'t ct_merkle \<Rightarrow> sha256 \<Rightarrow> base64 \<Rightarrow> ed25519 \<Rightarrow> 't append_only_tree \<Rightarrow> 't append_only_tree \<Rightarrow> str \<Rightarrow> identity
     \<Rightarrow> consistency_artifact trust_result"
where
  "build_consistency_artifact ct sha b64 ed old_tree new_tree origin identity =
     (let old_size = tree_len ct old_tree; new_size = tree_len ct new_tree in
      res_bind (check_json_safe_tree_size new_size) (\<lambda>_.
      if old_size = 0
      then Err (LogArtifactEncoding (lit ''consistency artifact requires the old tree size to be at least 1; ''
             @ lit ''RFC 6962 has no consistency proof from an empty tree''))
      else if old_size \<ge> new_size
      then Err (LogArtifactEncoding (lit ''consistency artifact requires old size strictly below new size: ''
             @ lit ''old='' @ dec64 old_size @ lit '', new='' @ dec64 new_size))
      else
        res_bind (prove_consistency ct new_tree old_size new_size) (\<lambda>p.
        res_bind (chunk_proof_bytes b64 (cp_inner p)) (\<lambda>hashes.
        res_bind (from_root origin (tree_root ct old_tree)) (\<lambda>body_1.
        res_bind (from_root origin (tree_root ct new_tree)) (\<lambda>body_2.
        res_bind (sign_note sha b64 ed (encode_body b64 body_1) origin identity) (\<lambda>checkpoint_1.
        res_bind (sign_note sha b64 ed (encode_body b64 body_2) origin identity) (\<lambda>checkpoint_2.
        let artifact = \<lparr>ca_format = CONSISTENCY_PROOF_FORMAT, ca_tree_size_1 = old_size,
              ca_tree_size_2 = new_size, ca_hashes = hashes, ca_checkpoint_1 = checkpoint_1,
              ca_checkpoint_2 = checkpoint_2\<rparr> in
        res_bind (self_verifier sha origin identity) (\<lambda>verifier.
        res_bind (map_err (\<lambda>_. LogArtifactEncoding
            (lit ''self-verification of freshly built consistency artifact failed ''
             @ lit ''(the old tree is not a prefix of the new tree)''))
          (verify_consistency_artifact ct b64 ed artifact verifier)) (\<lambda>_.
        Ok artifact))))))))))"

section \<open>Lemmas\<close>

lemma decode_hashes_encode:
  "base64_standard b64 \<Longrightarrow> \<forall>x \<in> set ns. length x = 32 \<Longrightarrow>
   decode_hashes b64 (map (b64_encode b64) ns) = Ok (concat ns)"
  by (induction ns) auto

lemma decode_hashes_Ok: "decode_hashes b64 hs = Ok bs \<Longrightarrow> length bs = 32 * length hs"
  by (induction hs arbitrary: bs) (auto simp: outcome split: if_splits)

lemma decode_hashes_wf: "decode_hashes b64 hs = Ok bs \<Longrightarrow> wf_proof_bytes bs"
  by (drule decode_hashes_Ok) (simp add: wf_proof_bytes_def)

lemma decode_hashes_errors:
  "decode_hashes b64 hs \<noteq> Panic \<and> (\<forall>e. decode_hashes b64 hs = Err e \<longrightarrow> e = LogArtifactVerification)"
  by (induction hs) (auto simp: outcome split: if_splits)

lemma chunk_proof_bytes_nodes:
  assumes "\<forall>x \<in> set ns. length x = 32"
  shows "chunk_proof_bytes b64 (concat ns) = Ok (map (b64_encode b64) ns)"
  using assms chunks_exact_concat [of ns 32] chunks_remainder_concat [of ns 32]
  by (simp add: chunk_proof_bytes_def)

lemma verify_checkpoint_cases:
  "(\<exists>b. verify_checkpoint b64 ed nb vk = Ok b) \<or> verify_checkpoint b64 ed nb vk = Err NoteVerification"
  using verify_checkpoint.run_cases [of "(b64, ed, nb, vk)"] by simp

lemma verify_checkpoint_not_Panic [simp]: "verify_checkpoint b64 ed nb vk \<noteq> Panic"
  using verify_checkpoint_cases [of b64 ed nb vk] by auto

lemma try_from_bytes_not_Panic [simp]:
  "inclusion_try_from_bytes ct bs \<noteq> Panic" "consistency_try_from_bytes ct bs \<noteq> Panic"
  by (simp_all add: inclusion_try_from_bytes_def consistency_try_from_bytes_def outcome)

interpretation verify_ia: collapsing "\<lambda>(ct, b64, ed, a, d, vk). verify_inclusion_artifact ct b64 ed a d vk"
  LogArtifactVerification
  using decode_hashes_errors
  by unfold_locales (auto simp: verify_inclusion_artifact_def outcome split: if_splits prod.splits)

interpretation verify_ca: collapsing "\<lambda>(ct, b64, ed, a, vk). verify_consistency_artifact ct b64 ed a vk"
  LogArtifactVerification
  using decode_hashes_errors
  by unfold_locales (auto simp: verify_consistency_artifact_def outcome split: if_splits prod.splits)

text \<open>What an accepted artifact has passed.\<close>

lemma verify_inclusion_artifact_Ok:
  assumes "verify_inclusion_artifact ct b64 ed a d vk = Ok b"
  obtains bs p where "decode_hashes b64 (ia_hashes a) = Ok bs"
    and "verify_checkpoint b64 ed (utf8_encode (ia_checkpoint a)) vk = Ok b"
    and "cb_tree_size b = ia_tree_size a" and "ia_tree_size a < MAX_JSON_TREE_SIZE"
    and "inclusion_try_from_bytes ct bs = Ok p"
    and "verify_inclusion_raw ct (to_root b) d (ia_leaf_index a) p = Ok ()"
  using assms by (auto simp: verify_inclusion_artifact_def outcome not_le split: if_splits)

lemma verify_consistency_artifact_Ok:
  assumes "verify_consistency_artifact ct b64 ed a vk = Ok (b1, b2)"
  obtains bs p where "decode_hashes b64 (ca_hashes a) = Ok bs"
    and "verify_checkpoint b64 ed (utf8_encode (ca_checkpoint_1 a)) vk = Ok b1"
    and "verify_checkpoint b64 ed (utf8_encode (ca_checkpoint_2 a)) vk = Ok b2"
    and "cb_tree_size b1 = ca_tree_size_1 a" and "cb_tree_size b2 = ca_tree_size_2 a"
    and "0 < ca_tree_size_1 a" and "ca_tree_size_1 a < ca_tree_size_2 a" and "ca_tree_size_2 a < MAX_JSON_TREE_SIZE"
    and "consistency_try_from_bytes ct bs = Ok p"
    and "verify_consistency ct (to_root b1) (to_root b2) p = Ok ()"
  using assms
  by (auto simp: verify_consistency_artifact_def outcome not_le word_neq_0_conv split: if_splits)

lemma build_inclusion_verifies:
  assumes "build_inclusion_artifact ct sha b64 ed t d origin i idx = Ok a"
  obtains vk b where "verifier_key_new sha origin (public_key_bytes i) = Ok vk"
    and "verify_inclusion_artifact ct b64 ed a d vk = Ok b" and "ia_leaf_index a = idx"
  using assms
  by (auto simp: build_inclusion_artifact_def self_verifier_def Let_def outcome)

lemma build_consistency_verifies:
  assumes "build_consistency_artifact ct sha b64 ed t1 t2 origin i = Ok a"
  obtains vk b1 b2 where "verifier_key_new sha origin (public_key_bytes i) = Ok vk"
    and "verify_consistency_artifact ct b64 ed a vk = Ok (b1, b2)"
  using assms
  by (auto simp: build_consistency_artifact_def self_verifier_def Let_def outcome split: if_splits)

section \<open>Artifacts of a tree\<close>

text \<open>The checkpoint body that commits to the leaves \<open>ls\<close>.\<close>

definition body_of :: "sha256 \<Rightarrow> str \<Rightarrow> bytes list \<Rightarrow> checkpoint_body" where
  "body_of sha origin ls = \<lparr>cb_origin = origin, cb_tree_size = of_nat (length ls), cb_root_hash = mth sha ls\<rparr>"

text \<open>An origin under which a checkpoint can be signed.\<close>

definition signing_origin :: "str \<Rightarrow> bool" where
  "signing_origin origin \<longleftrightarrow>
     valid_note_name origin \<and> wf_str origin \<and> \<not> has_control origin \<and> 2 * str_len origin + 166 \<le> MAX_NOTE_BYTES"

lemma body_of_simps [simp]:
  "cb_origin (body_of sha origin ls) = origin"
  "cb_tree_size (body_of sha origin ls) = of_nat (length ls)"
  "cb_root_hash (body_of sha origin ls) = mth sha ls"
  "to_root (body_of sha origin ls) = from_parts (mth sha ls) (of_nat (length ls))"
  by (simp_all add: body_of_def to_root_def)

lemma from_root_tree:
  "ct_trees_ok sha ct \<Longrightarrow> tree_holds ct ls t \<Longrightarrow> valid_note_name origin \<Longrightarrow>
   from_root origin (tree_root ct t) = Ok (body_of sha origin ls)"
  by (simp add: tree_holds_root from_root_Ok body_of_def from_parts_def root_from_inner_def)

lemma checkpoint_of_leaves:
  assumes "sha256_size sha" and "base64_standard b64" and "ed25519_signs ed" and "wf_identity ed i"
    and "signing_origin origin"
  obtains t vk where "sign_note sha b64 ed (encode_body b64 (body_of sha origin ls)) origin i = Ok t"
    and "verifier_key_new sha origin (public_key_bytes i) = Ok vk"
    and "verify_checkpoint b64 ed (utf8_encode t) vk = Ok (body_of sha origin ls)"
proof -
  let ?b = "body_of sha origin ls"
  have b: "wf_body ?b" "wf_str (cb_origin ?b)" "\<not> has_control (cb_origin ?b)"
    using assms(1,5) by (simp_all add: wf_body_def signing_origin_def)
  have "str_len (encode_body b64 ?b) + str_len (cb_origin ?b) + 99 \<le> MAX_NOTE_BYTES"
    using str_len_encode_body [OF assms(2), of ?b] assms(1,5) by (simp add: signing_origin_def)
  note signed = sign_own_checkpoint [OF assms(1-4) b(1,3) this]
  have "verifier_key_new sha origin (public_key_bytes i) =
      Ok \<lparr>vk_name = origin, vk_key_id = key_id_of sha origin (public_key_bytes i), vk_public_key = public_key_bytes i\<rparr>"
    using assms(1,5) by (simp add: verifier_key_new_valid signing_origin_def)
  with signed verify_own_checkpoint [OF assms(1-4) b(1,2) signed] show thesis
    by (intro that) simp_all
qed

lemma json_safe: "n < 2 ^ 53 \<Longrightarrow> (of_nat n :: u64) < MAX_JSON_TREE_SIZE"
  by (simp add: word_less_nat_alt MAX_JSON_TREE_SIZE_def unat_of_nat)

theorem build_inclusion_complete:
  assumes "sha256_size sha" and "base64_standard b64" and "ed25519_signs ed" and "wf_identity ed i"
    and "signing_origin origin" and "ct_trees_ok sha ct" and "ct_verifier_ok sha ct"
    and "tree_holds ct ls t" and "length ls < 2 ^ 53" and "unat idx < length ls"
  obtains a vk where "build_inclusion_artifact ct sha b64 ed t (ls ! unat idx) origin i idx = Ok a"
    and "verifier_key_new sha origin (public_key_bytes i) = Ok vk"
    and "verify_inclusion_artifact ct b64 ed a (ls ! unat idx) vk = Ok (body_of sha origin ls)"
proof -
  let ?n = "of_nat (length ls) :: u64" and ?ns = "path sha (unat idx) ls"
  from checkpoint_of_leaves [OF assms(1-5), of ls] obtain cp vk where
    cp: "sign_note sha b64 ed (encode_body b64 (body_of sha origin ls)) origin i = Ok cp"
      "verifier_key_new sha origin (public_key_bytes i) = Ok vk"
      "verify_checkpoint b64 ed (utf8_encode cp) vk = Ok (body_of sha origin ls)" .
  let ?a = "\<lparr>ia_format = INCLUSION_PROOF_FORMAT, ia_tree_size = ?n, ia_leaf_index = idx,
      ia_hashes = map (b64_encode b64) ?ns, ia_checkpoint = cp\<rparr>"
  have nodes: "\<forall>x \<in> set ?ns. length x = 32"
    using path_node_length [OF assms(1)] by blast
  have n: "unat ?n = length ls" "?n < MAX_JSON_TREE_SIZE" "idx < ?n"
    using tree_holds_length(2) [OF assms(6,8)] json_safe [OF assms(9)] assms(10) by (simp_all add: word_less_nat_alt)
  have "length ?ns \<le> MAX_INCLUSION_HASHES"
    using length_path_le [of ls 53 "unat idx" sha] assms(9,10) by (simp add: MAX_INCLUSION_HASHES_def)
  then have v: "verify_inclusion_artifact ct b64 ed ?a (ls ! unat idx) vk = Ok (body_of sha origin ls)"
    using n cp(3) decode_hashes_encode [OF assms(2) nodes] path_bytes(2) [OF assms(1), of "unat idx" ls]
      verify_own_path [OF assms(1,7) n(1) assms(10)]
    by (simp add: verify_inclusion_artifact_def not_le inclusion_try_from_bytes_cases(1) [OF assms(7), THEN iffD2])
  have "valid_note_name origin" using assms(5) by (simp add: signing_origin_def)
  then have "build_inclusion_artifact ct sha b64 ed t (ls ! unat idx) origin i idx = Ok ?a"
    using v cp(1,2) n prove_inclusion_holds [OF assms(6,8), of idx] assms(10) chunk_proof_bytes_nodes [OF nodes]
      from_root_tree [OF assms(6,8)] tree_holds_root [OF assms(6,8)]
    by (simp add: build_inclusion_artifact_def self_verifier_def check_json_safe_tree_size_def not_le
        from_parts_def root_from_inner_def)
  with cp(2) v show thesis by (intro that)
qed

theorem build_consistency_complete:
  assumes "sha256_size sha" and "base64_standard b64" and "ed25519_signs ed" and "wf_identity ed i"
    and "signing_origin origin" and "ct_trees_ok sha ct" and "ct_verifier_ok sha ct"
    and "tree_holds ct es old" and "tree_holds ct ds new" and "strict_prefix es ds" and "es \<noteq> []"
    and "length ds < 2 ^ 53"
  obtains a vk where "build_consistency_artifact ct sha b64 ed old new origin i = Ok a"
    and "verifier_key_new sha origin (public_key_bytes i) = Ok vk"
    and "verify_consistency_artifact ct b64 ed a vk = Ok (body_of sha origin es, body_of sha origin ds)"
proof -
  let ?m = "of_nat (length es) :: u64" and ?n = "of_nat (length ds) :: u64"
  let ?ns = "subproof sha (length es) ds True"
  from checkpoint_of_leaves [OF assms(1-5), of es] obtain cp1 vk where
    cp1: "sign_note sha b64 ed (encode_body b64 (body_of sha origin es)) origin i = Ok cp1"
      "verifier_key_new sha origin (public_key_bytes i) = Ok vk"
      "verify_checkpoint b64 ed (utf8_encode cp1) vk = Ok (body_of sha origin es)" .
  from checkpoint_of_leaves [OF assms(1-5), of ds] cp1(2) obtain cp2 where
    cp2: "sign_note sha b64 ed (encode_body b64 (body_of sha origin ds)) origin i = Ok cp2"
      "verify_checkpoint b64 ed (utf8_encode cp2) vk = Ok (body_of sha origin ds)" by auto
  let ?a = "\<lparr>ca_format = CONSISTENCY_PROOF_FORMAT, ca_tree_size_1 = ?m, ca_tree_size_2 = ?n,
      ca_hashes = map (b64_encode b64) ?ns, ca_checkpoint_1 = cp1, ca_checkpoint_2 = cp2\<rparr>"
  have es: "take (length es) ds = es" "length es < length ds" "0 < length es"
    using assms(10,11) prefix_length_less by (auto simp: strict_prefix_def prefix_def)
  have nodes: "\<forall>x \<in> set ?ns. length x = 32"
    using subproof_node_length [OF assms(1)] by blast
  have m: "unat ?m = length es" and n: "unat ?n = length ds"
    using tree_holds_length(2) [OF assms(6,8)] tree_holds_length(2) [OF assms(6,9)] by simp_all
  have mn: "0 < ?m" "?m < ?n" "?n < MAX_JSON_TREE_SIZE" "unat ?m < length ds"
    using m n es json_safe [OF assms(12)] by (simp_all add: word_less_nat_alt)
  have "length ?ns \<le> MAX_CONSISTENCY_HASHES"
    using length_subproof_le [of ds 53 "length es" sha True] es assms(12) by (simp add: MAX_CONSISTENCY_HASHES_def)
  then have v: "verify_consistency_artifact ct b64 ed ?a vk = Ok (body_of sha origin es, body_of sha origin ds)"
    using mn cp1(3) cp2(2) decode_hashes_encode [OF assms(2) nodes]
      subproof_bytes(2) [OF assms(1), of "length es" ds True] verify_own_subproof [OF assms(1,7) n mn(1,2)] m es(1)
    by (simp add: verify_consistency_artifact_def not_le not_less word_neq_0_conv
        consistency_try_from_bytes_cases(1) [OF assms(7), THEN iffD2])
  have "valid_note_name origin" using assms(5) by (simp add: signing_origin_def)
  then have "build_consistency_artifact ct sha b64 ed old new origin i = Ok ?a"
    using v cp1(1,2) cp2(1) m mn prove_consistency_holds [OF assms(6,9) mn(1,4)] chunk_proof_bytes_nodes [OF nodes]
      from_root_tree [OF assms(6,8)] from_root_tree [OF assms(6,9)]
      tree_holds_len [OF assms(6,8)] tree_holds_len [OF assms(6,9)]
    by (simp add: build_consistency_artifact_def self_verifier_def check_json_safe_tree_size_def not_le
        word_neq_0_conv Let_def)
  with cp1(2) v show thesis by (intro that)
qed

end
