(* ===== verification/Reference_Crates.thy ===== *)
theory Reference_Crates
  imports Merkle_Model
begin

text \<open>
  Executable instances of the crates, which show that the requirements stated on them can be
  met and on which the theorems are evaluated. The base64 engine is RFC 4648 with padding and
  the Merkle tree is the one of \<^verbatim>\<open>Merkle_Spec\<close>. The hash and the signature scheme have the
  sizes and the correctness law of the real ones and no cryptographic strength.
\<close>

section \<open>base64\<close>

definition b64_char :: "nat \<Rightarrow> nat" where
  "b64_char k = (if k < 26 then 65 + k else if k < 52 then 71 + k else if k < 62 then k - 4
                 else if k = 62 then 43 else 47)"

definition b64_value :: "nat \<Rightarrow> nat option" where
  "b64_value c = (if 65 \<le> c \<and> c \<le> 90 then Some (c - 65)
                  else if 97 \<le> c \<and> c \<le> 122 then Some (c - 71)
                  else if 48 \<le> c \<and> c \<le> 57 then Some (c + 4)
                  else if c = 43 then Some 62 else if c = 47 then Some 63 else None)"

fun b64_enc :: "nat list \<Rightarrow> nat list" where
  "b64_enc [] = []"
| "b64_enc [a] = [b64_char (a div 4), b64_char (a mod 4 * 16), 61, 61]"
| "b64_enc [a, b] = [b64_char (a div 4), b64_char (a mod 4 * 16 + b div 16), b64_char (b mod 16 * 4), 61]"
| "b64_enc (a # b # c # xs) =
     b64_char (a div 4) # b64_char (a mod 4 * 16 + b div 16) # b64_char (b mod 16 * 4 + c div 64)
     # b64_char (c mod 64) # b64_enc xs"

text \<open>A last group with padding drops the bytes that the padding stands for.\<close>

fun b64_dec :: "nat list \<Rightarrow> nat list option" where
  "b64_dec [] = Some []"
| "b64_dec (p # q # r # s # xs) =
     (case (b64_value p, b64_value q) of
        (Some i, Some j) \<Rightarrow>
          (if r = 61 \<and> s = 61 \<and> xs = [] then Some [i * 4 + j div 16]
           else case b64_value r of
             None \<Rightarrow> None
           | Some k \<Rightarrow>
               (if s = 61 \<and> xs = [] then Some [i * 4 + j div 16, j mod 16 * 16 + k div 4]
                else case b64_value s of
                  None \<Rightarrow> None
                | Some l \<Rightarrow> map_option
                    (\<lambda>ys. (i * 4 + j div 16) # (j mod 16 * 16 + k div 4) # (k mod 4 * 64 + l) # ys)
                    (b64_dec xs)))
      | _ \<Rightarrow> None)"
| "b64_dec _ = None"

definition ref_b64_encode :: "bytes \<Rightarrow> str" where
  "ref_b64_encode x = b64_enc (map unat x)"

text \<open>Only the canonical text of the decoded bytes is accepted.\<close>

definition ref_b64_decode :: "str \<Rightarrow> str + bytes" where
  "ref_b64_decode s =
     (case b64_dec s of
        None \<Rightarrow> Inl (lit ''Invalid symbol'')
      | Some xs \<Rightarrow> if b64_enc xs = s \<and> list_all (\<lambda>v. v < 256) xs then Inr (map byte_of xs)
                  else Inl (lit ''Invalid last symbol''))"

definition ref_b64 :: base64 where
  "ref_b64 = \<lparr>b64_encode = ref_b64_encode, b64_decode = ref_b64_decode\<rparr>"

lemma b64_value_char [simp]: "k < 64 \<Longrightarrow> b64_value (b64_char k) = Some k"
  by (auto simp: b64_value_def b64_char_def)

lemma b64_char_not_pad [simp]: "b64_char k \<noteq> 61"
  by (auto simp: b64_char_def)

lemma b64_regroup:
  assumes "a < 256" and "b < (256 :: nat)" and "c < 256"
  shows "a div 4 * 4 + (a mod 4 * 16 + b div 16) div 16 = a"
    and "(a mod 4 * 16 + b div 16) mod 16 * 16 + (b mod 16 * 4 + c div 64) div 4 = b"
    and "(b mod 16 * 4 + c div 64) mod 4 * 64 + c mod 64 = c"
proof -
  have d: "b div 16 < 16" "c div 64 < 4" using assms by auto
  have "(a mod 4 * 16 + b div 16) div 16 = a mod 4" "(b mod 16 * 4 + c div 64) div 4 = b mod 16"
    using d by simp_all
  moreover have "(a mod 4 * 16 + b div 16) mod 16 = b div 16" "(b mod 16 * 4 + c div 64) mod 4 = c div 64"
    using d by simp_all
  ultimately show "a div 4 * 4 + (a mod 4 * 16 + b div 16) div 16 = a"
    and "(a mod 4 * 16 + b div 16) mod 16 * 16 + (b mod 16 * 4 + c div 64) div 4 = b"
    and "(b mod 16 * 4 + c div 64) mod 4 * 64 + c mod 64 = c"
    by simp_all
qed

lemma b64_dec_enc: "list_all (\<lambda>v. v < 256) xs \<Longrightarrow> b64_dec (b64_enc xs) = Some xs"
proof (induction xs rule: b64_enc.induct)
  case (4 a b c xs)
  then have "a div 4 < 64" "a mod 4 * 16 + b div 16 < 64" "b mod 16 * 4 + c div 64 < 64" "c mod 64 < 64"
    by auto
  moreover have "a div 4 * 4 + (a mod 4 * 16 + b div 16) div 16 = a"
    "(a mod 4 * 16 + b div 16) mod 16 * 16 + (b mod 16 * 4 + c div 64) div 4 = b"
    "(b mod 16 * 4 + c div 64) mod 4 * 64 + c mod 64 = c"
    using 4(2) b64_regroup [of a b c] by simp_all
  ultimately show ?case
    using 4 by simp
next
  case (2 a)
  then have "a div 4 < 64" "a mod 4 * 16 < 64" "a div 4 * 4 + a mod 4 * 16 div 16 = a" by auto
  then show ?case by simp
next
  case (3 a b)
  then have "a div 4 < 64" "a mod 4 * 16 + b div 16 < 64" "b mod 16 * 4 < 64"
    "a div 4 * 4 + (a mod 4 * 16 + b div 16) div 16 = a"
    "(a mod 4 * 16 + b div 16) mod 16 * 16 + b mod 16 * 4 div 4 = b"
    using b64_regroup [of a b 0] by auto
  then show ?case by simp
qed simp

lemma b64_enc_chars: "list_all (\<lambda>v. v < 256) xs \<Longrightarrow> c \<in> set (b64_enc xs) \<Longrightarrow> is_b64_char c"
proof (induction xs rule: b64_enc.induct)
  have char: "is_b64_char (b64_char k)" for k
    by (auto simp: is_b64_char_def b64_char_def is_ascii_digit_def)
  have pad: "is_b64_char 61"
    by (simp add: is_b64_char_def)
  {
    case 2
    then show ?case using char pad by auto
  next
    case 3
    then show ?case using char pad by auto
  next
    case 4
    then show ?case using char by auto
  }
qed simp

lemma b64_enc_length: "length (b64_enc xs) = 4 * ((length xs + 2) div 3)"
proof (induction xs rule: b64_enc.induct)
  case (4 a b c xs)
  have "(length xs + 2 + 3) div 3 = Suc ((length xs + 2) div 3)" by simp
  with 4 show ?case by (simp add: add.commute)
qed auto

lemma unat_list_bytes: "list_all (\<lambda>v. v < 256) (map unat (bs :: bytes))"
  using unat_byte_less by (auto simp: list_all_iff)

theorem ref_b64_standard: "base64_standard ref_b64"
  unfolding base64_standard_def
proof (intro conjI allI impI)
  show "b64_decode ref_b64 (b64_encode ref_b64 x) = Inr x" for x
    using b64_dec_enc [OF unat_list_bytes [of x]] unat_list_bytes [of x]
    by (simp add: ref_b64_def ref_b64_encode_def ref_b64_decode_def o_def byte_of_unat)
  show "b64_encode ref_b64 x = s" if "b64_decode ref_b64 s = Inr x" for s x
  proof -
    from that obtain xs where xs: "b64_enc xs = s" "list_all (\<lambda>v. v < 256) xs" "x = map byte_of xs"
      by (auto simp: ref_b64_def ref_b64_decode_def split: option.splits if_splits)
    then have "map unat x = xs"
      by (auto simp: list_all_iff unat_byte_of intro!: map_idI)
    with xs(1) show ?thesis
      by (simp add: ref_b64_def ref_b64_encode_def)
  qed
  show "list_all is_b64_char (b64_encode ref_b64 x)" for x
    using b64_enc_chars [OF unat_list_bytes [of x]]
    by (simp add: list_all_iff ref_b64_def ref_b64_encode_def)
  show "length (b64_encode ref_b64 x) = 4 * ((length x + 2) div 3)" for x
    by (simp add: b64_enc_length ref_b64_def ref_b64_encode_def)
qed

section \<open>Hash and signature\<close>

text \<open>A ring of 32 bytes into which the input is folded.\<close>

primrec fold_ring :: "bytes \<Rightarrow> bytes \<Rightarrow> bytes" where
  "fold_ring s [] = s"
| "fold_ring s (b # bs) = fold_ring (tl s @ [5 * hd s + b + 1]) bs"

definition ref_sha :: sha256 where
  "ref_sha x = fold_ring (replicate 32 0) x"

lemma length_fold_ring: "s \<noteq> [] \<Longrightarrow> length (fold_ring s x) = length s"
  by (induction x arbitrary: s) auto

lemma ref_sha_size [simp]: "sha256_size ref_sha"
  by (simp add: sha256_size_def ref_sha_def length_fold_ring)

definition ref_ed :: ed25519 where
  "ref_ed = \<lparr>ed_public = \<lambda>seed. seed, ed_point_ok = \<lambda>pk. True,
     ed_sign = \<lambda>seed m. seed @ ref_sha m,
     ed_verify_strict = \<lambda>pk m sig. sig = pk @ ref_sha m\<rparr>"

lemma ref_ed_signs [simp]: "ed25519_signs ref_ed"
  by (simp add: ed25519_signs_def ref_ed_def)

section \<open>Merkle tree\<close>

definition ref_proof_bytes :: "bytes \<Rightarrow> str + bytes" where
  "ref_proof_bytes bs = (if length bs mod 32 = 0 then Inr bs else Inl (lit ''malformed proof''))"

definition ref_ct :: "sha256 \<Rightarrow> bytes list ct_merkle" where
  "ref_ct sha = \<lparr>
     ct_new = [],
     ct_push = \<lambda>ls l. if length ls < ct_max_leaves then Some (ls @ [l]) else None,
     ct_len = \<lambda>ls. of_nat (length ls),
     ct_is_empty = \<lambda>ls. ls = [],
     ct_root = \<lambda>ls. (mth sha ls, of_nat (length ls)),
     ct_prove_inclusion = \<lambda>ls i. if i < length ls then Some (concat (path sha i ls)) else None,
     ct_prove_consistency = \<lambda>ls k.
       if k < length ls then Some (concat (subproof sha (length ls - k) ls True)) else None,
     ct_inclusion_from_bytes = ref_proof_bytes,
     ct_consistency_from_bytes = ref_proof_bytes,
     ct_verify_inclusion = \<lambda>(r, n) d i bs.
       if i < n \<and> root_from_path sha (unat i) (unat n) (leaf_hash sha d) (chunks_exact 32 bs) = Some r
       then Inr () else Inl (lit ''incorrect hash''),
     ct_verify_consistency = \<lambda>(r2, n2) (r1, n1) bs.
       if 0 < n1 \<and> n1 \<le> n2
          \<and> roots_from_proof sha (unat n1) (unat n2) True r1 (chunks_exact 32 bs) = Some (r1, r2)
       then Inr () else Inl (lit ''incorrect hash'')\<rparr>"

lemma ref_ct_simps [simp]:
  "ct_new (ref_ct sha) = []"
  "ct_push (ref_ct sha) ls l = (if length ls < ct_max_leaves then Some (ls @ [l]) else None)"
  "ct_len (ref_ct sha) ls = of_nat (length ls)"
  "ct_is_empty (ref_ct sha) ls \<longleftrightarrow> ls = []"
  "ct_root (ref_ct sha) ls = (mth sha ls, of_nat (length ls))"
  "ct_prove_inclusion (ref_ct sha) ls i = (if i < length ls then Some (concat (path sha i ls)) else None)"
  "ct_prove_consistency (ref_ct sha) ls k =
     (if k < length ls then Some (concat (subproof sha (length ls - k) ls True)) else None)"
  "ct_inclusion_from_bytes (ref_ct sha) = ref_proof_bytes"
  "ct_consistency_from_bytes (ref_ct sha) = ref_proof_bytes"
  by (simp_all add: ref_ct_def)

lemma ref_ct_verify_inclusion:
  "ct_verify_inclusion (ref_ct sha) (r, n) d i bs = Inr () \<longleftrightarrow>
   i < n \<and> root_from_path sha (unat i) (unat n) (leaf_hash sha d) (chunks_exact 32 bs) = Some r"
  by (simp add: ref_ct_def)

lemma ref_ct_verify_consistency:
  "ct_verify_consistency (ref_ct sha) (r2, n2) (r1, n1) bs = Inr () \<longleftrightarrow>
   0 < n1 \<and> n1 \<le> n2 \<and> roots_from_proof sha (unat n1) (unat n2) True r1 (chunks_exact 32 bs) = Some (r1, r2)"
  by (simp add: ref_ct_def)

lemma ref_ct_tree: "ct_tree (ref_ct sha) ls = (if length ls \<le> ct_max_leaves then Some ls else None)"
proof (induction ls rule: rev_induct)
  case Nil
  then show ?case by (simp add: ct_tree_Nil)
next
  case (snoc l ls)
  then show ?case by (auto simp: ct_tree_snoc Suc_le_eq)
qed

lemma ref_ct_trees_ok [simp]: "ct_trees_ok sha (ref_ct sha)"
  by (auto simp: ct_trees_ok_def ref_ct_tree ct_tree_ok_def split: if_splits)

lemma ref_ct_verifier_ok [simp]: "ct_verifier_ok sha (ref_ct sha)"
proof -
  have "n1 \<noteq> n2 \<Longrightarrow> n1 \<le> n2 \<longleftrightarrow> n1 < n2" for n1 n2 :: u64
    by auto
  then show ?thesis
    unfolding ct_verifier_ok_def ref_ct_verify_inclusion ref_ct_verify_consistency
    by (intro conjI allI impI) (simp_all add: ref_proof_bytes_def)
qed

end
