(* ===== verification/Checkpoint_Theorems.thy ===== *)
theory Checkpoint_Theorems
  imports Note_Model Reference_Crates
begin

text \<open>
  What the checkpoint component promises: notes it signs verify, a verified note was signed
  under the verifier's key, a verified checkpoint belongs to the verifier's origin, every
  failure looks the same, and the text forms of bodies and keys are exact.
\<close>

section \<open>A concrete signer\<close>

definition w_seed :: bytes where
  "w_seed = replicate 32 7"

definition w_id :: identity where
  "w_id = from_seed ref_ed w_seed"

definition w_origin :: str where
  "w_origin = lit ''log''"

definition w_body :: checkpoint_body where
  "w_body = \<lparr>cb_origin = w_origin, cb_tree_size = 3, cb_root_hash = ref_sha []\<rparr>"

definition w_key :: verifier_key where
  "w_key = \<lparr>vk_name = w_origin, vk_key_id = key_id_of ref_sha w_origin w_seed, vk_public_key = w_seed\<rparr>"

lemma wf_w_id [simp]: "wf_identity ref_ed w_id"
  by (simp add: w_id_def w_seed_def wf_from_seed)

lemma public_w_id [simp]: "public_key_bytes w_id = w_seed"
  by (simp add: w_id_def from_seed_def public_key_bytes_def ref_ed_def)

lemma w_origin_valid [simp]: "valid_note_name w_origin" "wf_str w_origin" "\<not> has_control w_origin"
  by (simp_all add: w_origin_def valid_note_name_def lit_def is_whitespace_def is_scalar_def)

lemma w_key_new [simp]: "verifier_key_new ref_sha w_origin w_seed = Ok w_key"
  by (simp add: verifier_key_new_valid w_key_def)

lemma wf_w_key [simp]: "wf_verifier_key ref_sha w_key"
  by (simp add: wf_verifier_key_def w_key_def w_seed_def)

lemma wf_w_body [simp]: "wf_body w_body" "wf_str (cb_origin w_body)" "\<not> has_control (cb_origin w_body)"
  by (simp_all add: wf_body_def w_body_def)

lemma w_origin_size: "2 * str_len w_origin + 166 \<le> MAX_NOTE_BYTES"
  by (simp add: w_origin_def lit_def str_len_def utf8_char_def MAX_NOTE_BYTES_def)

definition w_note :: str where
  "w_note = note_text ref_sha ref_b64 ref_ed (encode_body ref_b64 w_body) w_origin w_id"

lemma w_note_signed: "sign_note ref_sha ref_b64 ref_ed (encode_body ref_b64 w_body) (cb_origin w_body) w_id = Ok w_note"
  using sign_own_checkpoint [OF ref_sha_size ref_b64_standard ref_ed_signs wf_w_id wf_w_body(1,3)]
    str_len_encode_body [OF ref_b64_standard, of w_body] w_origin_size
  by (simp add: w_note_def w_body_def)

lemma w_note_verifies: "verify_checkpoint ref_b64 ref_ed (utf8_encode w_note) w_key = Ok w_body"
  by (rule verify_own_checkpoint [OF ref_sha_size ref_b64_standard ref_ed_signs wf_w_id wf_w_body(1,2) w_note_signed])
    (simp add: w_body_def)

section \<open>Properties\<close>

text \<open>C10 (a signed checkpoint verifies): \<^verbatim>\<open>sign_note\<close> on the text of a checkpoint body under its
  origin, if it returns a note, returns one whose bytes \<^verbatim>\<open>verify_checkpoint\<close> accepts under the
  verifier key of that origin and identity, giving back exactly the body. It does return one for
  every origin without ASCII control characters that is short enough for the 1 MiB cap.\<close>

theorem signed_checkpoint_verifies:
  assumes "sha256_size sha" and "base64_standard b64" and "ed25519_signs ed" and "wf_identity ed i"
    and "checkpoint_new origin n h = Ok b" and "length h = 32" and "wf_str origin"
    and "verifier_key_new sha origin (public_key_bytes i) = Ok vk"
  shows "(\<forall>note. sign_note sha b64 ed (encode_body b64 b) origin i = Ok note \<longrightarrow>
       verify_checkpoint b64 ed (utf8_encode note) vk = Ok b) \<and>
    (\<not> has_control origin \<and> 2 * str_len origin + 166 \<le> MAX_NOTE_BYTES \<longrightarrow>
       sign_note sha b64 ed (encode_body b64 b) origin i = Ok (note_text sha b64 ed (encode_body b64 b) origin i))"
proof (intro conjI allI impI)
  from assms(5) have b: "cb_origin b = origin" "wf_body b"
    using assms(6) by (auto simp: checkpoint_new_Ok wf_body_def)
  show "verify_checkpoint b64 ed (utf8_encode t) vk = Ok b"
    if "sign_note sha b64 ed (encode_body b64 b) origin i = Ok t" for t
    using verify_own_checkpoint [OF assms(1-4) b(2)] that assms(7,8) b(1) by simp
  show "sign_note sha b64 ed (encode_body b64 b) origin i = Ok (note_text sha b64 ed (encode_body b64 b) origin i)"
    if "\<not> has_control origin \<and> 2 * str_len origin + 166 \<le> MAX_NOTE_BYTES"
    using that sign_own_checkpoint [OF assms(1-4) b(2)] str_len_encode_body [OF assms(2), of b] b
    by (simp add: wf_body_def)
qed

theorem signed_checkpoint_verifies_witness:
  "verify_checkpoint ref_b64 ref_ed
     (utf8_encode (note_text ref_sha ref_b64 ref_ed (encode_body ref_b64 w_body) w_origin w_id)) w_key = Ok w_body"
proof -
  have "checkpoint_new w_origin 3 (ref_sha []) = Ok w_body"
    by (simp add: checkpoint_new_Ok w_body_def)
  from signed_checkpoint_verifies [OF ref_sha_size ref_b64_standard ref_ed_signs wf_w_id this, of w_key]
  show ?thesis
    using w_origin_size by simp
qed

text \<open>C15 (the signed-note invariant fails for key names with control characters): the
  documentation of \<^verbatim>\<open>sign_note\<close> promises that every note it emits verifies. The control
  characters are excluded from the body only, and \<^verbatim>\<open>validate_note_name\<close> excludes whitespace
  and \<^verbatim>\<open>+\<close> only, so a note signed under a name with, say, U+0001 is emitted and then
  rejected under the key of that very name and identity.\<close>

theorem control_name_note_rejected:
  assumes "sha256_size sha" and "ed25519_signs ed" and "wf_identity ed i"
    and "signable body name" and "wf_str body" and "wf_str name" and "has_control name" and "base64_standard b64"
    and "str_len body + str_len name + 99 \<le> MAX_NOTE_BYTES"
  shows "\<exists>note vk. sign_note sha b64 ed body name i = Ok note \<and>
    verifier_key_new sha name (public_key_bytes i) = Ok vk \<and>
    verify_note b64 ed (utf8_encode note) vk = Err NoteVerification"
proof -
  let ?note = "note_text sha b64 ed body name i"
  have "sign_note sha b64 ed body name i = Ok ?note"
    using assms by (simp add: sign_note_Ok str_len_note_text)
  moreover have "has_control ?note"
    using assms(7) by (simp add: note_text_def sig_line_def)
  moreover have "wf_str ?note"
    using assms(5,6) wf_str_ascii [OF base64_ascii [OF assms(8)]]
    by (simp add: note_text_def sig_line_def SIG_PREFIX_def is_scalar_def)
  ultimately show ?thesis
    using verify_note_control verifier_key_new_valid [OF assms(1)] assms(4)
    by (auto simp: signable_def)
qed

theorem control_name_note_rejected_witness:
  "\<exists>note vk. sign_note ref_sha ref_b64 ref_ed (lit ''a'' @ [NL]) [1] w_id = Ok note \<and>
    verifier_key_new ref_sha [1] w_seed = Ok vk \<and>
    verify_note ref_b64 ref_ed (utf8_encode note) vk = Err NoteVerification"
proof -
  have "signable (lit ''a'' @ [NL]) [1]"
    by (simp add: signable_def valid_note_name_def is_whitespace_def lit_def sublist_Cons_right ends_with_def)
  moreover have "str_len (lit ''a'' @ [NL]) + str_len [1] + 99 \<le> MAX_NOTE_BYTES"
    by (simp add: str_len_def utf8_char_def lit_def MAX_NOTE_BYTES_def)
  moreover have "wf_str (lit ''a'' @ [NL])" "wf_str [1]" "has_control [1]"
    by (simp_all add: lit_def is_scalar_def)
  ultimately show ?thesis
    using control_name_note_rejected [OF ref_sha_size ref_ed_signs wf_w_id _ _ _ _ ref_b64_standard] by simp
qed

text \<open>C11 (authenticity, first candidate decides): a note verifies exactly when it parses and its
  first signature line with the verifier's name and key id carries a valid signature of the
  body bytes under the verifier's public key; later lines, also of the same key, are never
  consulted, and the result is the body that was signed.\<close>

theorem first_candidate_decides:
  "verify_note b64 ed nb vk =
     (case parse_note b64 nb of
        Ok (body, lines) \<Rightarrow>
          (case find (candidate vk) lines of
             Some sl \<Rightarrow>
               if verify_signature ed (vk_public_key vk) (utf8_encode body) (sl_signature sl) = Ok ()
               then Ok body else Err NoteVerification
           | None \<Rightarrow> Err NoteVerification)
      | _ \<Rightarrow> Err NoteVerification)"
  using parse_note_errors [of b64 nb]
  by (auto simp: verify_note_def verify_lines_find split: result.splits prod.splits option.splits)

text \<open>C12 (origin binding): a checkpoint that verifies under a key has the key's name as its
  origin, and its note is, byte for byte, the text of the checkpoint, possibly extension
  lines, a blank line and a signature block, where the key signed the text with its extension
  lines.\<close>

theorem checkpoint_origin_binding:
  assumes "base64_standard b64" and "verify_checkpoint b64 ed nb vk = Ok b"
  shows "cb_origin b = vk_name vk \<and> wf_body b \<and>
    (\<exists>es block sig. ext_lines es \<and>
       nb = utf8_encode (encode_body b64 b @ ext_text es @ [NL] @ block @ [NL]) \<and>
       verify_signature ed (vk_public_key vk) (utf8_encode (encode_body b64 b @ ext_text es)) sig = Ok ())"
proof -
  from assms(2) obtain body where body: "verify_note b64 ed nb vk = Ok body" "parse_body b64 body = Ok b"
    and origin: "cb_origin b = vk_name vk"
    by (auto simp: verify_checkpoint_Ok)
  from verify_note_Ok [OF body(1)] obtain ls and sl :: signature_line where
    v: "parse_note b64 nb = Ok (body, ls)"
      "verify_signature ed (vk_public_key vk) (utf8_encode body) (sl_signature sl) = Ok ()" by blast
  from parse_note_Ok [OF v(1)] obtain block where n: "nb = utf8_encode (body @ [NL] @ block @ [NL])" "wf_str body"
    by auto
  from parse_body_Ok [OF assms(1) n(2) body(2)] obtain es where
    "wf_body b" "ext_lines es" "body = encode_body b64 b @ ext_text es" by auto
  with origin v(2) n(1) show ?thesis by auto
qed

theorem checkpoint_origin_binding_witness:
  "cb_origin w_body = vk_name w_key \<and> wf_body w_body \<and>
    (\<exists>es block sig. ext_lines es \<and>
       utf8_encode w_note = utf8_encode (encode_body ref_b64 w_body @ ext_text es @ [NL] @ block @ [NL]) \<and>
       verify_signature ref_ed (vk_public_key w_key) (utf8_encode (encode_body ref_b64 w_body @ ext_text es)) sig = Ok ())"
  by (rule checkpoint_origin_binding [OF ref_b64_standard w_note_verifies])

text \<open>C13 (the body parser is exact): a text parses to a body exactly when it is the text of that
  body, which is well formed, followed by non-empty extension lines. In particular parsing
  inverts encoding, and two texts of one body differ in extension lines only, which are
  dropped: re-encoding a parsed body reproduces the text only if it has none.\<close>

theorem parse_body_exact:
  assumes "base64_standard b64" and "wf_str text"
  shows "parse_body b64 text = Ok b \<longleftrightarrow>
    wf_body b \<and> (\<exists>es. ext_lines es \<and> text = encode_body b64 b @ ext_text es)"
  using parse_body_Ok [OF assms] parse_body_encode [OF assms(1)] by blast

theorem parse_body_exact_witness:
  "parse_body ref_b64 (encode_body ref_b64 w_body @ ext_text [lit ''ext'']) = Ok w_body"
proof -
  let ?t = "encode_body ref_b64 w_body @ ext_text [lit ''ext'']"
  have e: "ext_lines [lit ''ext'']"
    by (simp add: ext_lines_def lit_def)
  have "wf_str ?t"
    using wf_str_encode_body [OF ref_b64_standard wf_w_body(2)]
    by (simp add: ext_text_def lit_def is_scalar_def)
  from parse_body_exact [OF ref_b64_standard this] show ?thesis
    using e wf_w_body(1) by blast
qed

text \<open>C14 (verifier keys): the text of a well-formed verifier key parses back to it; whatever text
  parses gives a key whose id is the one computed from its name and public key, so a declared
  id that does not match is never accepted; and every rejection is a
  \<^verbatim>\<open>TrustError::VerifierKey\<close>.\<close>

theorem verifier_key_text:
  assumes "sha256_size sha" and "base64_standard b64"
  shows "(wf_verifier_key sha k \<longrightarrow> from_spec sha b64 (to_spec b64 k) = Ok k) \<and>
    (case from_spec sha b64 spec of
       Ok v \<Rightarrow> wf_verifier_key sha v \<and> from_spec sha b64 (to_spec b64 v) = Ok v
     | Err e \<Rightarrow> (\<exists>r. e = VerifierKey r)
     | Panic \<Rightarrow> False)"
  using from_spec_to_spec [OF assms] from_spec_Ok [OF assms(1), of b64 spec]
    from_spec_errors [OF assms(1), of b64 spec]
  by (auto split: result.splits)

theorem verifier_key_text_witness: "from_spec ref_sha ref_b64 (to_spec ref_b64 w_key) = Ok w_key"
  using verifier_key_text [OF ref_sha_size ref_b64_standard, of w_key] by simp

text \<open>The strict 64-digit parser of the command line inverts the printer on 32 bytes.\<close>

lemma hex_roundtrip: "length bs = 32 \<Longrightarrow> parse_hex_32 (cli_hex_lower bs) = Some bs"
  using parse_hex_32_hex_lower by (simp add: cli_hex_lower_eq)

end
