(* ===== verification/Merkle_Theorems.thy ===== *)
theory Merkle_Theorems
  imports Reference_Crates
begin

text \<open>
  What the Merkle component promises: the proofs it builds verify, a proof that verifies tells
  the truth, a rebuilt tree is the tree, and no argument makes it panic. Each theorem with
  hypotheses is applied to a concrete log by the theorem after it.
\<close>

text \<open>Completeness of inclusion: for a raw-leaf tree built from \<open>ls\<close> and any index in
  range, \<^verbatim>\<open>prove_inclusion\<close> returns a proof; its bytes survive \<^verbatim>\<open>as_bytes\<close> /
  \<^verbatim>\<open>try_from_bytes\<close>, and \<^verbatim>\<open>verify_inclusion_raw\<close> accepts it for exactly that leaf at
  that index against the published parts of the root.\<close>

lemma inclusion_complete:
  assumes "sha256_size sha" and "ct_trees_ok sha ct" and "ct_verifier_ok sha ct"
    and "reconstruct_from_raw_leaves ct ls = Ok t" and "unat i < length ls"
  shows "\<exists>p. prove_inclusion ct t i = Ok p \<and> inclusion_try_from_bytes ct (ip_inner p) = Ok p \<and>
    verify_inclusion_raw ct (case to_parts (tree_root ct t) of (r, n) \<Rightarrow> from_parts r n) (ls ! unat i) i p = Ok ()"
proof -
  note holds = reconstruct_raw_Ok [OF assms(4)]
  note len = tree_holds_length(2) [OF assms(2) holds]
  have "prove_inclusion ct t i = Ok \<lparr>ip_inner = concat (path sha (unat i) ls)\<rparr>"
    using prove_inclusion_holds [OF assms(2) holds] assms(5) by simp
  then show ?thesis
    using verify_own_path [OF assms(1,3) len assms(5)] path_bytes(2) [OF assms(1)]
      tree_holds_root [OF assms(2) holds]
    by (simp add: inclusion_try_from_bytes_cases [OF assms(3)] to_parts_def from_parts_def root_from_inner_def)
qed

text \<open>C1 (soundness of inclusion): whatever bytes are presented as a proof, if
  \<^verbatim>\<open>try_from_bytes\<close> and then \<^verbatim>\<open>verify_inclusion_raw\<close> accept them for leaf \<open>d\<close> at index \<open>i\<close>
  against the root of a tree that holds \<open>ls\<close>, then \<open>i\<close> is in range, \<open>d\<close> is the leaf at \<open>i\<close> and
  the bytes are the tree's own proof, unless SHA-256 collides on two of the finitely many
  strings hashed by the tree and by the verifier.\<close>

theorem inclusion_sound:
  assumes "sha256_size sha" and "ct_trees_ok sha ct" and "ct_verifier_ok sha ct"
    and "reconstruct_from_raw_leaves ct ls = Ok t"
    and "inclusion_try_from_bytes ct bs = Ok p" and "verify_inclusion_raw ct (tree_root ct t) d i p = Ok ()"
    and "collision_free sha (inclusion_inputs sha ls d i bs)"
  shows "unat i < length ls \<and> d = ls ! unat i \<and> prove_inclusion ct t i = Ok p"
proof -
  note holds = reconstruct_raw_Ok [OF assms(4)]
  from assms(5) have p: "p = \<lparr>ip_inner = bs\<rparr>" and wf: "wf_proof_bytes bs"
    by (simp_all add: inclusion_try_from_bytes_cases [OF assms(3)])
  note sound = verify_inclusion_raw_sound [OF assms(1,3) wf tree_holds_length(2) [OF assms(2) holds]
      assms(6) [unfolded tree_holds_root [OF assms(2) holds] p] assms(7)]
  show ?thesis
    using sound prove_inclusion_holds [OF assms(2) holds, of i] p by simp
qed

lemma collision_free_list: "distinct (map sha (remdups xs)) \<Longrightarrow> collision_free sha (set xs)"
  by (simp add: distinct_map)

lemma inclusion_inputs_list:
  "inclusion_inputs sha ls d i bs =
   set (mth_inputs sha ls @ [0x00 # d] @ path_inputs sha (unat i) (length ls) (leaf_hash sha d) (chunks_exact 32 bs))"
  by (auto simp: inclusion_inputs_def)

text \<open>The two-leaf log of the witnesses, its tree and its second leaf's proof.\<close>

abbreviation (input) two_leaves :: "bytes list" where
  "two_leaves \<equiv> [[1], [2]]"

lemma ref_reconstruct:
  "length ls \<le> ct_max_leaves \<Longrightarrow>
   reconstruct_from_raw_leaves (ref_ct sha) ls = Ok \<lparr>aot_inner = ls\<rparr>"
  by (rule reconstruct_raw_holds [OF ref_ct_trees_ok [of sha], of ls])
    (auto simp: tree_holds_def ref_ct_tree split: if_splits)

lemma ref_reconstruct_two: "reconstruct_from_raw_leaves (ref_ct sha) two_leaves = Ok \<lparr>aot_inner = two_leaves\<rparr>"
  by (rule ref_reconstruct) (simp add: ct_max_leaves_def)

lemma ref_tree_root:
  "tree_root (ref_ct sha) \<lparr>aot_inner = ls\<rparr> = from_parts (mth sha ls) (of_nat (length ls))"
  by (simp add: tree_root_def from_parts_def)

lemma two_leaves_inputs_free:
  "collision_free ref_sha (inclusion_inputs ref_sha two_leaves [2] 1 (concat (path ref_sha 1 two_leaves)))"
  unfolding inclusion_inputs_list by (rule collision_free_list) code_simp

theorem inclusion_sound_witness:
  "unat (1 :: u64) < length two_leaves \<and> [2] = two_leaves ! unat (1 :: u64) \<and>
   prove_inclusion (ref_ct ref_sha) \<lparr>aot_inner = two_leaves\<rparr> 1
     = Ok \<lparr>ip_inner = concat (path ref_sha 1 two_leaves)\<rparr>"
proof (rule inclusion_sound [OF ref_sha_size ref_ct_trees_ok ref_ct_verifier_ok ref_reconstruct_two _ _
      two_leaves_inputs_free])
  show "inclusion_try_from_bytes (ref_ct ref_sha) (concat (path ref_sha 1 two_leaves))
      = Ok \<lparr>ip_inner = concat (path ref_sha 1 two_leaves)\<rparr>"
    by (simp add: inclusion_try_from_bytes_cases [OF ref_ct_verifier_ok] path_bytes(2))
  show "verify_inclusion_raw (ref_ct ref_sha) (tree_root (ref_ct ref_sha) \<lparr>aot_inner = two_leaves\<rparr>) [2] 1
      \<lparr>ip_inner = concat (path ref_sha 1 two_leaves)\<rparr> = Ok ()"
    using verify_own_path [OF ref_sha_size ref_ct_verifier_ok, of "of_nat 2" two_leaves 1]
    by (simp add: ref_tree_root)
qed

text \<open>Completeness of consistency: a tree that grew from \<open>xs\<close> to \<open>xs @ ys\<close> by appends
  proves it: \<^verbatim>\<open>prove_consistency\<close> between the two sizes returns a proof, whose bytes survive
  \<^verbatim>\<open>try_from_bytes\<close>, and \<^verbatim>\<open>verify_consistency\<close> accepts it for the two roots.\<close>

lemma consistency_complete:
  assumes "sha256_size sha" and "ct_trees_ok sha ct" and "ct_verifier_ok sha ct"
    and "reconstruct_from_raw_leaves ct xs = Ok old" and "append_raw_loop ct old ys = Ok new"
    and "xs \<noteq> []" and "ys \<noteq> []"
  shows "\<exists>p. prove_consistency ct new (tree_len ct old) (tree_len ct new) = Ok p \<and>
    consistency_try_from_bytes ct (cp_inner p) = Ok p \<and>
    verify_consistency ct (tree_root ct old) (tree_root ct new) p = Ok ()"
proof -
  note old = reconstruct_raw_Ok [OF assms(4)]
  note new = append_raw_loop_Ok [OF assms(5) old]
  let ?m = "of_nat (length xs) :: u64" and ?n = "of_nat (length (xs @ ys)) :: u64"
  note m = tree_holds_length(2) [OF assms(2) old] and n = tree_holds_length(2) [OF assms(2) new]
  have sizes: "0 < ?m" "?m < ?n" "unat ?m < length (xs @ ys)"
    using assms(6,7) m n by (simp_all add: word_less_nat_alt)
  note proved = prove_consistency_holds [OF assms(2) new sizes(1,3)]
  have "verify_consistency ct (from_parts (mth sha xs) ?m) (from_parts (mth sha (xs @ ys)) ?n)
      \<lparr>cp_inner = concat (subproof sha (unat ?m) (xs @ ys) True)\<rparr> = Ok ()"
    using verify_own_subproof [OF assms(1,3) n sizes(1,2)] m by simp
  then show ?thesis
    using proved subproof_bytes(2) [OF assms(1)] tree_holds_root [OF assms(2) old] tree_holds_root [OF assms(2) new]
      tree_holds_len [OF assms(2) old] tree_holds_len [OF assms(2) new]
    by (simp add: consistency_try_from_bytes_cases [OF assms(3)])
qed

text \<open>C2 (soundness of consistency): if \<^verbatim>\<open>verify_consistency\<close> accepts some proof bytes between
  the roots of two trees of different sizes, then the old tree's leaves are a proper prefix of
  the new tree's, that is, nothing was rewritten, reordered or removed, unless SHA-256
  collides on two of the strings that the trees and the verifier hash.\<close>

theorem consistency_sound:
  assumes "sha256_size sha" and "ct_trees_ok sha ct" and "ct_verifier_ok sha ct"
    and "reconstruct_from_raw_leaves ct es = Ok old" and "reconstruct_from_raw_leaves ct ds = Ok new"
    and "length es \<noteq> length ds"
    and "consistency_try_from_bytes ct bs = Ok p"
    and "verify_consistency ct (tree_root ct old) (tree_root ct new) p = Ok ()"
    and "collision_free sha (consistency_inputs sha es ds bs)"
  shows "strict_prefix es ds"
proof -
  note old = reconstruct_raw_Ok [OF assms(4)] and new = reconstruct_raw_Ok [OF assms(5)]
  note m = tree_holds_length(2) [OF assms(2) old] and n = tree_holds_length(2) [OF assms(2) new]
  from assms(7) have p: "p = \<lparr>cp_inner = bs\<rparr>" and wf: "wf_proof_bytes bs"
    by (simp_all add: consistency_try_from_bytes_cases [OF assms(3)])
  have "of_nat (length es) \<noteq> (of_nat (length ds) :: u64)"
    using assms(6) m n by metis
  from verify_consistency_sound [OF assms(1,3) wf m n this _ assms(9)] assms(8)
  have "length es < length ds" and "es = take (length es) ds"
    using tree_holds_root [OF assms(2) old] tree_holds_root [OF assms(2) new] p by simp_all
  then show ?thesis
    by (metis nat_neq_iff strict_prefix_def take_is_prefix)
qed

lemma consistency_inputs_list:
  "consistency_inputs sha es ds bs =
   set (mth_inputs sha es @ mth_inputs sha ds
     @ proof_inputs sha (length es) (length ds) True (mth sha es) (chunks_exact 32 bs))"
  by (auto simp: consistency_inputs_def)

lemma one_two_inputs_free:
  "collision_free ref_sha (consistency_inputs ref_sha [[1]] two_leaves (concat (subproof ref_sha 1 two_leaves True)))"
  unfolding consistency_inputs_list by (rule collision_free_list) code_simp

theorem consistency_sound_witness: "strict_prefix [[1 :: byte]] two_leaves"
proof (rule consistency_sound [OF ref_sha_size ref_ct_trees_ok ref_ct_verifier_ok ref_reconstruct
      ref_reconstruct_two _ _ _ one_two_inputs_free])
  show "consistency_try_from_bytes (ref_ct ref_sha) (concat (subproof ref_sha 1 two_leaves True))
      = Ok \<lparr>cp_inner = concat (subproof ref_sha 1 two_leaves True)\<rparr>"
    by (simp add: consistency_try_from_bytes_cases [OF ref_ct_verifier_ok] subproof_bytes(2))
  show "verify_consistency (ref_ct ref_sha) (tree_root (ref_ct ref_sha) \<lparr>aot_inner = [[1]]\<rparr>)
      (tree_root (ref_ct ref_sha) \<lparr>aot_inner = two_leaves\<rparr>)
      \<lparr>cp_inner = concat (subproof ref_sha 1 two_leaves True)\<rparr> = Ok ()"
    using verify_own_subproof [OF ref_sha_size ref_ct_verifier_ok, of "of_nat 2" two_leaves 1]
    by (simp add: ref_tree_root)
qed (simp_all add: ct_max_leaves_def)

text \<open>C3 (restart): replaying the stored leaves gives the tree that the appends built, for both
  leaf encodings. Up to \<open>2 ^ 63\<close> leaves a raw tree can be rebuilt, has the number of its
  leaves as length and the RFC 6962 tree hash of their bytes as root; a postcard tree built by
  \<^verbatim>\<open>reconstruct_from_leaves\<close> is the raw tree of the serialized leaves.\<close>

theorem reconstruct_root:
  assumes "ct_trees_ok sha ct" and "length ls \<le> ct_max_leaves"
    and "res_map (serialize_leaf postcard) ls = Ok bs"
  shows "\<exists>t. reconstruct_from_leaves ct postcard ls = Ok t \<and> reconstruct_from_raw_leaves ct bs = Ok t \<and>
    unat (tree_len ct t) = length ls \<and> tree_root ct t = from_parts (mth sha bs) (of_nat (length ls))"
proof -
  have len: "length bs = length ls"
    using assms(3) by (auto simp: res_map_eq_Ok dest: list_all2_lengthD)
  from reconstruct_holds [OF assms] obtain t where t: "reconstruct_from_leaves ct postcard ls = Ok t" "tree_holds ct bs t" .
  from reconstruct_raw_holds [OF assms(1), of bs] assms(2) len obtain u where
    u: "reconstruct_from_raw_leaves ct bs = Ok u" "tree_holds ct bs u" by auto
  have "u = t"
    using t(2) u(2) by (simp add: tree_holds_def)
  with t u show ?thesis
    using tree_holds_len [OF assms(1) t(2)] tree_holds_root [OF assms(1) t(2)]
      tree_holds_length(2) [OF assms(1) t(2)] len by simp
qed

theorem reconstruct_root_witness:
  "\<exists>t. reconstruct_from_leaves (ref_ct ref_sha) (\<lambda>l. Inr (1 # l)) [[7], [8 :: byte]] = Ok t \<and>
    reconstruct_from_raw_leaves (ref_ct ref_sha) [[1, 7], [1, 8]] = Ok t \<and>
    unat (tree_len (ref_ct ref_sha) t) = 2 \<and>
    tree_root (ref_ct ref_sha) t = from_parts (mth ref_sha [[1, 7], [1, 8]]) 2"
  using reconstruct_root [of ref_sha "ref_ct ref_sha" "[[7], [8]]" "\<lambda>l. Inr (1 # l)" "[[1, 7], [1, 8]]"]
  by (simp add: ct_max_leaves_def serialize_leaf_def, simp only: numeral_2_eq_2)

text \<open>C5 (size bounds): a tree has at most \<open>2 ^ 63\<close> leaves. If it has at most \<open>2 ^ d\<close>, every inclusion proof of it has at
  most \<open>d\<close> digests of 32 bytes, and every consistency proof from a smaller size at most \<open>d + 1\<close>; in any case
  these are at most 2016 and 2048 bytes. The proof from a tree to itself, which the wrapper also asks the crate for, is
  left out: the crate documents that there is one but not its form.\<close>

theorem proof_size_bounds:
  assumes "sha256_size sha" and "ct_trees_ok sha ct" and "reconstruct_from_raw_leaves ct ls = Ok t"
  shows "unat (tree_len ct t) \<le> 2 ^ 63 \<and>
    (\<forall>d i p. unat (tree_len ct t) \<le> 2 ^ d \<and> prove_inclusion ct t i = Ok p \<longrightarrow>
       length (ip_inner p) \<le> 32 * d \<and> length (ip_inner p) \<le> 2016) \<and>
    (\<forall>d m q. unat (tree_len ct t) \<le> 2 ^ d \<and> m \<noteq> tree_len ct t \<and> prove_consistency ct t m (tree_len ct t) = Ok q \<longrightarrow>
       length (cp_inner q) \<le> 32 * (d + 1) \<and> length (cp_inner q) \<le> 2048)"
proof -
  note holds = reconstruct_raw_Ok [OF assms(3)]
  note len = tree_holds_length [OF assms(2) holds] and l = tree_holds_len [OF assms(2) holds]
  have n: "unat (tree_len ct t) = length ls" using len(2) by (simp add: l)
  have i: "length (ip_inner p) \<le> 32 * d" if "length ls \<le> 2 ^ d" "prove_inclusion ct t i = Ok p" for d i p
    using that(2) prove_inclusion_holds [OF assms(2) holds, of i] path_bytes(3) [OF assms(1), of "unat i" ls]
      length_path_le [OF that(1), of "unat i" sha] by (auto split: if_splits)
  have c: "length (cp_inner q) \<le> 32 * (d + 1)"
    if "length ls \<le> 2 ^ d" "m \<noteq> tree_len ct t" "prove_consistency ct t m (tree_len ct t) = Ok q" for d m q
  proof -
    from that(3) have "m \<noteq> 0" "m \<le> tree_len ct t"
      by (auto simp: prove_consistency_def Let_def tree_len_def split: if_splits)
    with that(2) have "0 < m" "m < of_nat (length ls)"
      unfolding l by (simp_all add: word_neq_0_conv le_neq_trans)
    then have m: "0 < m" "unat m < length ls"
      using tree_holds_less [OF assms(2) holds] by simp_all
    from prove_consistency_holds [OF assms(2) holds m] that(3) l show ?thesis
      using subproof_bytes(3) [OF assms(1), of "unat m" ls True] m
        length_subproof_le [OF that(1), of "unat m" sha True] by (auto simp: word_less_nat_alt)
  qed
  have "length (ip_inner p) \<le> 2016" if "prove_inclusion ct t i = Ok p" for i p
    using i [OF len(1) that] by simp
  moreover have "length (cp_inner q) \<le> 2048" if "m \<noteq> tree_len ct t" "prove_consistency ct t m (tree_len ct t) = Ok q" for m q
    using c [OF len(1) that] by simp
  ultimately show ?thesis unfolding n using i c len(1) by blast
qed

theorem proof_size_bounds_witness:
  "length (ip_inner \<lparr>ip_inner = concat (path ref_sha 1 two_leaves)\<rparr>) \<le> 32 \<and>
   length (cp_inner \<lparr>cp_inner = concat (subproof ref_sha 1 two_leaves True)\<rparr>) \<le> 64"
proof -
  let ?t = "\<lparr>aot_inner = two_leaves\<rparr>"
  have "unat (tree_len (ref_ct ref_sha) ?t) \<le> 2 ^ 1"
    "prove_inclusion (ref_ct ref_sha) ?t 1 = Ok \<lparr>ip_inner = concat (path ref_sha 1 two_leaves)\<rparr>"
    "1 \<noteq> tree_len (ref_ct ref_sha) ?t"
    "prove_consistency (ref_ct ref_sha) ?t 1 (tree_len (ref_ct ref_sha) ?t) = Ok \<lparr>cp_inner = concat (subproof ref_sha 1 two_leaves True)\<rparr>"
    by (simp_all add: prove_inclusion_def prove_consistency_def tree_len_def word_le_nat_alt)
  with proof_size_bounds [OF ref_sha_size ref_ct_trees_ok ref_reconstruct_two] show ?thesis by fastforce
qed

text \<open>C4 (no panic): although the crate panics on an index or a size out of range, the wrappers
  return a value for every argument: an inclusion proof exactly for the indices in range, a
  consistency proof exactly when \<open>new_size\<close> is the tree's length and \<open>0 < old_size \<le> new_size\<close>,
  and \<^verbatim>\<open>TrustError::MerkleTree\<close> otherwise.\<close>

theorem merkle_no_panic:
  assumes "ct_trees_ok sha ct" and "reconstruct_from_raw_leaves ct ls = Ok t"
  shows "(if i < tree_len ct t then \<exists>p. prove_inclusion ct t i = Ok p
          else \<exists>r. prove_inclusion ct t i = Err (MerkleTree r)) \<and>
    (if n = tree_len ct t \<and> 0 < m \<and> m \<le> n then \<exists>p. prove_consistency ct t m n = Ok p
     else \<exists>r. prove_consistency ct t m n = Err (MerkleTree r))"
proof -
  note holds = reconstruct_raw_Ok [OF assms(2)]
  have "n = tree_len ct t \<and> 0 < m \<and> m \<le> n \<Longrightarrow> \<exists>p. prove_consistency ct t m n = Ok p"
    using prove_consistency_not_Panic [OF assms(1) holds, of m n]
    by (cases "prove_consistency ct t m n") (auto simp: prove_consistency_def Let_def tree_len_def outcome split: if_splits)
  moreover have "\<not> (n = tree_len ct t \<and> 0 < m \<and> m \<le> n) \<Longrightarrow> \<exists>r. prove_consistency ct t m n = Err (MerkleTree r)"
    by (auto simp: prove_consistency_def Let_def tree_len_def word_neq_0_conv [symmetric])
  ultimately show ?thesis
    using prove_inclusion_holds [OF assms(1) holds, of i] tree_holds_less [OF assms(1) holds, of i]
      tree_holds_len [OF assms(1) holds] by auto
qed

theorem merkle_no_panic_witness:
  "(\<exists>p. prove_inclusion (ref_ct ref_sha) \<lparr>aot_inner = two_leaves\<rparr> 1 = Ok p) \<and>
   (\<exists>r. prove_inclusion (ref_ct ref_sha) \<lparr>aot_inner = two_leaves\<rparr> 2 = Err (MerkleTree r)) \<and>
   (\<exists>r. prove_consistency (ref_ct ref_sha) \<lparr>aot_inner = two_leaves\<rparr> 3 2 = Err (MerkleTree r))"
  using merkle_no_panic [OF ref_ct_trees_ok [of ref_sha] ref_reconstruct_two, of 1 2 3]
    merkle_no_panic [OF ref_ct_trees_ok [of ref_sha] ref_reconstruct_two, of 2 2 3]
  by (simp add: tree_len_def)

end
