(* ===== verification/Tlog_Theorems.thy ===== *)
theory Tlog_Theorems
  imports Tlog_Model Checkpoint_Theorems Merkle_Theorems
begin

text \<open>
  What the proof artifacts promise end to end: an accepted artifact ties the caller's leaf, or
  the old log, to the log that the signed checkpoint commits to; the builder emits an artifact
  whenever the claim is true and only then; and verification is not an oracle.
\<close>

text \<open>C6 (soundness of inclusion artifacts): if \<^verbatim>\<open>verify_inclusion_artifact\<close> accepts an artifact
  for the leaf \<open>d\<close> under a verifier key, then the checkpoint it returns has the key's name as
  origin, and if that checkpoint's root and size are those of a log with leaves \<open>ls\<close>, then \<open>d\<close>
  is the leaf of that log at the index of the artifact, unless SHA-256 collides on the strings
  hashed.\<close>

theorem inclusion_artifact_sound:
  assumes "sha256_size sha" and "ct_verifier_ok sha ct" and "base64_standard b64"
    and "verify_inclusion_artifact ct b64 ed a d vk = Ok b"
    and "cb_root_hash b = mth sha ls" and "unat (cb_tree_size b) = length ls"
    and "decode_hashes b64 (ia_hashes a) = Ok bs"
    and "collision_free sha (inclusion_inputs sha ls d (ia_leaf_index a) bs)"
  shows "cb_origin b = vk_name vk \<and> unat (ia_tree_size a) = length ls \<and>
    unat (ia_leaf_index a) < length ls \<and> d = ls ! unat (ia_leaf_index a)"
proof -
  from assms(4) obtain bs' p where v: "decode_hashes b64 (ia_hashes a) = Ok bs'"
    "verify_checkpoint b64 ed (utf8_encode (ia_checkpoint a)) vk = Ok b"
    "cb_tree_size b = ia_tree_size a" "inclusion_try_from_bytes ct bs' = Ok p"
    "verify_inclusion_raw ct (to_root b) d (ia_leaf_index a) p = Ok ()"
    by (rule verify_inclusion_artifact_Ok)
  from v(1) assms(7) have bs: "bs' = bs" by simp
  with v(4) have p: "p = \<lparr>ip_inner = bs\<rparr>" and wf: "wf_proof_bytes bs"
    by (simp_all add: inclusion_try_from_bytes_cases(1) [OF assms(2)])
  from v(5) p assms(5) have
    "verify_inclusion_raw ct (from_parts (mth sha ls) (cb_tree_size b)) d (ia_leaf_index a) \<lparr>ip_inner = bs\<rparr> = Ok ()"
    by (simp add: to_root_def)
  from verify_inclusion_raw_sound [OF assms(1,2) wf assms(6) this assms(8)] v(2,3) assms(6)
  show ?thesis by (auto simp: verify_checkpoint_Ok)
qed

text \<open>The artifact of the second leaf of a two-leaf log.\<close>

lemma w_origin_signing [simp]: "signing_origin w_origin"
  using w_origin_size by (simp add: signing_origin_def)

lemma two_leaves_holds [simp]: "tree_holds (ref_ct sha) two_leaves \<lparr>aot_inner = two_leaves\<rparr>"
  by (rule reconstruct_raw_Ok [OF ref_reconstruct_two])

definition w_log_note :: str where
  "w_log_note = note_text ref_sha ref_b64 ref_ed (encode_body ref_b64 (body_of ref_sha w_origin two_leaves)) w_origin w_id"

definition w_ia :: inclusion_artifact where
  "w_ia = \<lparr>ia_format = INCLUSION_PROOF_FORMAT, ia_tree_size = 2, ia_leaf_index = 1,
     ia_hashes = map (b64_encode ref_b64) (path ref_sha 1 two_leaves), ia_checkpoint = w_log_note\<rparr>"

lemma w_ia_hashes: "decode_hashes ref_b64 (ia_hashes w_ia) = Ok (concat (path ref_sha 1 two_leaves))"
  using decode_hashes_encode [OF ref_b64_standard, of "path ref_sha 1 two_leaves"] path_node_length [OF ref_sha_size]
  by (simp add: w_ia_def)

lemma w_ia_verifies: "verify_inclusion_artifact (ref_ct ref_sha) ref_b64 ref_ed w_ia [2] w_key
    = Ok (body_of ref_sha w_origin two_leaves)"
proof -
  from checkpoint_of_leaves [OF ref_sha_size ref_b64_standard ref_ed_signs wf_w_id w_origin_signing, of two_leaves]
  have cp: "verify_checkpoint ref_b64 ref_ed (utf8_encode w_log_note) w_key = Ok (body_of ref_sha w_origin two_leaves)"
    by (auto simp: w_log_note_def sign_note_Ok)
  have "verify_inclusion_raw (ref_ct ref_sha) (from_parts (mth ref_sha two_leaves) 2) [2] 1
      \<lparr>ip_inner = concat (path ref_sha 1 two_leaves)\<rparr> = Ok ()"
    using verify_own_path [OF ref_sha_size ref_ct_verifier_ok, of "of_nat 2" two_leaves 1] by simp
  moreover have "inclusion_try_from_bytes (ref_ct ref_sha) (concat (path ref_sha 1 two_leaves))
      = Ok \<lparr>ip_inner = concat (path ref_sha 1 two_leaves)\<rparr>"
    by (simp add: inclusion_try_from_bytes_cases [OF ref_ct_verifier_ok] path_bytes(2))
  moreover have "length (path ref_sha 1 two_leaves) \<le> MAX_INCLUSION_HASHES"
    using length_path_le [of two_leaves 1 1 ref_sha] by (simp add: MAX_INCLUSION_HASHES_def)
  ultimately show ?thesis
    using cp w_ia_hashes
    by (simp add: verify_inclusion_artifact_def w_ia_def MAX_JSON_TREE_SIZE_def word_le_nat_alt)
qed

theorem inclusion_artifact_sound_witness:
  "cb_origin (body_of ref_sha w_origin two_leaves) = vk_name w_key \<and> unat (ia_tree_size w_ia) = length two_leaves \<and>
    unat (ia_leaf_index w_ia) < length two_leaves \<and> [2] = two_leaves ! unat (ia_leaf_index w_ia)"
proof (rule inclusion_artifact_sound [OF ref_sha_size ref_ct_verifier_ok ref_b64_standard w_ia_verifies _ _ w_ia_hashes])
  show "collision_free ref_sha (inclusion_inputs ref_sha two_leaves [2] (ia_leaf_index w_ia)
      (concat (path ref_sha 1 two_leaves)))"
    using two_leaves_inputs_free by (simp add: w_ia_def)
qed simp_all

text \<open>C8 (the inclusion builder emits only true claims): whatever leaf bytes the caller supplies, an
  emitted artifact verifies under the origin's key, and the supplied bytes are the leaf of the
  tree at the index, unless SHA-256 collides on the strings that the tree and the
  self-verification hash.\<close>

theorem inclusion_artifact_truthful:
  assumes "sha256_size sha" and "base64_standard b64" and "ed25519_signs ed" and "wf_identity ed i" and "wf_str origin"
    and "ct_trees_ok sha ct" and "ct_verifier_ok sha ct"
    and "reconstruct_from_raw_leaves ct ls = Ok t"
    and "build_inclusion_artifact ct sha b64 ed t d origin i idx = Ok a"
    and "collision_free sha (inclusion_inputs sha ls d idx (concat (path sha (unat idx) ls)))"
  shows "unat idx < length ls \<and> d = ls ! unat idx \<and>
    (\<exists>vk b. verifier_key_new sha origin (public_key_bytes i) = Ok vk \<and>
       verify_inclusion_artifact ct b64 ed a d vk = Ok b)"
proof -
  note holds = reconstruct_raw_Ok [OF assms(8)]
  note len = tree_holds_length(2) [OF assms(6) holds]
  from assms(9) obtain p hs body cp where b: "prove_inclusion ct t idx = Ok p"
    "chunk_proof_bytes b64 (ip_inner p) = Ok hs" "from_root origin (tree_root ct t) = Ok body"
    "sign_note sha b64 ed (encode_body b64 body) origin i = Ok cp" "ia_hashes a = hs" "ia_checkpoint a = cp"
    by (auto simp: build_inclusion_artifact_def Let_def outcome)
  from build_inclusion_verifies [OF assms(9)] obtain vk b where
    v: "verifier_key_new sha origin (public_key_bytes i) = Ok vk" "verify_inclusion_artifact ct b64 ed a d vk = Ok b"
      "ia_leaf_index a = idx" .
  let ?ns = "path sha (unat idx) ls"
  have nodes: "\<forall>x \<in> set ?ns. length x = 32"
    using path_node_length [OF assms(1)] by blast
  have idx: "unat idx < length ls" and p: "ip_inner p = concat ?ns"
    using b(1) prove_inclusion_holds [OF assms(6) holds, of idx] by (auto split: if_splits)
  have hs: "decode_hashes b64 (ia_hashes a) = Ok (concat ?ns)"
    using b(2,5) chunk_proof_bytes_nodes [OF nodes] decode_hashes_encode [OF assms(2) nodes] p by simp
  have origin: "valid_note_name origin" and body: "body = body_of sha origin ls"
    using b(3) from_root_tree [OF assms(6) holds] by (auto simp: from_root_Ok)
  have "wf_body body"
    using origin body assms(1) by (simp add: wf_body_def)
  then have "verify_checkpoint b64 ed (utf8_encode cp) vk = Ok body"
    using verify_own_checkpoint [OF assms(1-4)] b(4) v(1) assms(5) body by simp
  with v(2) b(6) have "b = body"
    by (auto elim!: verify_inclusion_artifact_Ok)
  with v(2) obtain q where q: "inclusion_try_from_bytes ct (concat ?ns) = Ok q"
    "verify_inclusion_raw ct (to_root body) d idx q = Ok ()"
    using hs v(3) by (auto elim!: verify_inclusion_artifact_Ok)
  then have "verify_inclusion_raw ct (from_parts (mth sha ls) (of_nat (length ls))) d idx \<lparr>ip_inner = concat ?ns\<rparr> = Ok ()"
    by (simp add: inclusion_try_from_bytes_cases(1) [OF assms(7)] body)
  from verify_inclusion_raw_sound(2) [OF assms(1,7) path_bytes(2) [OF assms(1)] len this assms(10)] idx v
  show ?thesis by blast
qed

theorem inclusion_artifact_truthful_witness:
  "unat (1 :: u64) < length two_leaves \<and> [2] = two_leaves ! unat (1 :: u64) \<and>
    (\<exists>a vk b. verifier_key_new ref_sha w_origin w_seed = Ok vk \<and>
       verify_inclusion_artifact (ref_ct ref_sha) ref_b64 ref_ed a [2] vk = Ok b)"
proof -
  from build_inclusion_complete [OF ref_sha_size ref_b64_standard ref_ed_signs wf_w_id w_origin_signing
      ref_ct_trees_ok ref_ct_verifier_ok two_leaves_holds, of 1]
  obtain a where "build_inclusion_artifact (ref_ct ref_sha) ref_sha ref_b64 ref_ed \<lparr>aot_inner = two_leaves\<rparr> [2]
      w_origin w_id 1 = Ok a" by auto
  from inclusion_artifact_truthful [OF ref_sha_size ref_b64_standard ref_ed_signs wf_w_id w_origin_valid(2)
      ref_ct_trees_ok ref_ct_verifier_ok ref_reconstruct_two this]
  show ?thesis
    using two_leaves_inputs_free by auto
qed

text \<open>C7 (soundness of consistency artifacts): if \<^verbatim>\<open>verify_consistency_artifact\<close> accepts, both
  checkpoints carry the verifier's origin, their sizes are those the artifact declares with
  \<open>0 < old < new < 2 ^ 53\<close>, and if they commit to logs with leaves \<open>es\<close> and \<open>ds\<close>, then \<open>es\<close> is a
  proper prefix of \<open>ds\<close>: a key cannot sign two views of its log and have this verifier accept
  them as consistent, unless SHA-256 collides on the strings hashed.\<close>

theorem consistency_artifact_sound:
  assumes "sha256_size sha" and "ct_verifier_ok sha ct" and "base64_standard b64"
    and "verify_consistency_artifact ct b64 ed a vk = Ok (b1, b2)"
    and "cb_root_hash b1 = mth sha es" and "unat (cb_tree_size b1) = length es"
    and "cb_root_hash b2 = mth sha ds" and "unat (cb_tree_size b2) = length ds"
    and "decode_hashes b64 (ca_hashes a) = Ok bs"
    and "collision_free sha (consistency_inputs sha es ds bs)"
  shows "cb_origin b1 = vk_name vk \<and> cb_origin b2 = vk_name vk \<and>
    unat (ca_tree_size_1 a) = length es \<and> unat (ca_tree_size_2 a) = length ds \<and>
    es \<noteq> [] \<and> strict_prefix es ds \<and> length ds < 2 ^ 53"
proof -
  from assms(4) obtain bs' p where v: "decode_hashes b64 (ca_hashes a) = Ok bs'"
    "verify_checkpoint b64 ed (utf8_encode (ca_checkpoint_1 a)) vk = Ok b1"
    "verify_checkpoint b64 ed (utf8_encode (ca_checkpoint_2 a)) vk = Ok b2"
    "cb_tree_size b1 = ca_tree_size_1 a" "cb_tree_size b2 = ca_tree_size_2 a"
    "0 < ca_tree_size_1 a" "ca_tree_size_1 a < ca_tree_size_2 a" "ca_tree_size_2 a < MAX_JSON_TREE_SIZE"
    "consistency_try_from_bytes ct bs' = Ok p" "verify_consistency ct (to_root b1) (to_root b2) p = Ok ()"
    by (rule verify_consistency_artifact_Ok)
  from v(1) assms(9) have bs: "bs' = bs" by simp
  with v(9) have p: "p = \<lparr>cp_inner = bs\<rparr>" and wf: "wf_proof_bytes bs"
    by (simp_all add: consistency_try_from_bytes_cases(1) [OF assms(2)])
  have ne: "cb_tree_size b1 \<noteq> cb_tree_size b2" using v(4,5,7) by simp
  from v(10) p assms(5,7) have
    "verify_consistency ct (from_parts (mth sha es) (cb_tree_size b1)) (from_parts (mth sha ds) (cb_tree_size b2))
      \<lparr>cp_inner = bs\<rparr> = Ok ()"
    by (simp add: to_root_def)
  note sound = verify_consistency_sound [OF assms(1,2) wf assms(6,8) ne this assms(10)]
  have "es \<noteq> []"
    using v(4,6) assms(6) by (auto simp: word_less_nat_alt)
  moreover have "strict_prefix es ds"
    using sound by (metis nat_neq_iff strict_prefix_def take_is_prefix)
  moreover have "length ds < 2 ^ 53"
    using v(5,8) assms(8) by (simp add: word_less_nat_alt MAX_JSON_TREE_SIZE_def)
  ultimately show ?thesis
    using v(2-5) assms(6,8) by (auto simp: verify_checkpoint_Ok)
qed

text \<open>The consistency artifact from a log of one leaf to a log of two.\<close>

lemma one_leaf_holds [simp]: "tree_holds (ref_ct sha) [[1]] \<lparr>aot_inner = [[1]]\<rparr>"
  by (rule reconstruct_raw_Ok [OF ref_reconstruct]) (simp add: ct_max_leaves_def)

lemma w_ca_built:
  obtains a :: consistency_artifact where "build_consistency_artifact (ref_ct ref_sha) ref_sha ref_b64 ref_ed \<lparr>aot_inner = [[1]]\<rparr>
      \<lparr>aot_inner = two_leaves\<rparr> w_origin w_id = Ok a"
    and "verify_consistency_artifact (ref_ct ref_sha) ref_b64 ref_ed a w_key
      = Ok (body_of ref_sha w_origin [[1]], body_of ref_sha w_origin two_leaves)"
    and "decode_hashes ref_b64 (ca_hashes a) = Ok (concat (subproof ref_sha 1 two_leaves True))"
proof -
  let ?ct = "ref_ct ref_sha" and ?ns = "subproof ref_sha 1 two_leaves True"
  from build_consistency_complete [OF ref_sha_size ref_b64_standard ref_ed_signs wf_w_id w_origin_signing
      ref_ct_trees_ok ref_ct_verifier_ok one_leaf_holds two_leaves_holds]
  obtain a :: consistency_artifact where a: "build_consistency_artifact ?ct ref_sha ref_b64 ref_ed \<lparr>aot_inner = [[1]]\<rparr>
      \<lparr>aot_inner = two_leaves\<rparr> w_origin w_id = Ok a"
    "verify_consistency_artifact ?ct ref_b64 ref_ed a w_key
      = Ok (body_of ref_sha w_origin [[1]], body_of ref_sha w_origin two_leaves)"
    by auto
  have nodes: "\<forall>x \<in> set ?ns. length x = 32"
    using subproof_node_length [OF ref_sha_size] by blast
  have "prove_consistency ?ct \<lparr>aot_inner = two_leaves\<rparr> 1 2 = Ok \<lparr>cp_inner = concat ?ns\<rparr>"
    using prove_consistency_holds [OF ref_ct_trees_ok two_leaves_holds, of 1 ref_sha] by simp
  with a(1) have "ca_hashes a = map (b64_encode ref_b64) ?ns"
    using chunk_proof_bytes_nodes [OF nodes, of ref_b64]
    by (auto simp: build_consistency_artifact_def Let_def outcome tree_len_def split: if_splits)
  then have "decode_hashes ref_b64 (ca_hashes a) = Ok (concat ?ns)"
    using decode_hashes_encode [OF ref_b64_standard nodes] by (simp only:)
  with a show thesis by (rule that)
qed

theorem consistency_artifact_sound_witness:
  "\<exists>a :: consistency_artifact. vk_name w_key = w_origin \<and> unat (ca_tree_size_1 a) = 1 \<and> unat (ca_tree_size_2 a) = length two_leaves \<and>
    [[1]] \<noteq> ([] :: bytes list) \<and> strict_prefix [[1]] two_leaves \<and> length two_leaves < 2 ^ 53"
proof -
  from w_ca_built obtain a :: consistency_artifact where a: "verify_consistency_artifact (ref_ct ref_sha) ref_b64 ref_ed a w_key
      = Ok (body_of ref_sha w_origin [[1]], body_of ref_sha w_origin two_leaves)"
    "decode_hashes ref_b64 (ca_hashes a) = Ok (concat (subproof ref_sha 1 two_leaves True))" .
  from consistency_artifact_sound [OF ref_sha_size ref_ct_verifier_ok ref_b64_standard a(1) _ _ _ _ a(2)
      one_two_inputs_free]
  show ?thesis by (intro exI [of _ a]) simp
qed

text \<open>C9 (the builders emit every true claim): for a tree of fewer than \<open>2 ^ 53\<close> leaves and an origin that can
  sign, the inclusion builder returns an artifact for every index in range and the leaf at that index, and the
  consistency builder one for every non-empty proper prefix; a third party verifies both under the
  origin's key, obtaining the checkpoints with the sizes and roots of the trees.\<close>

theorem artifacts_built:
  assumes "sha256_size sha" and "base64_standard b64" and "ed25519_signs ed" and "wf_identity ed i"
    and "signing_origin origin" and "ct_trees_ok sha ct" and "ct_verifier_ok sha ct"
    and "reconstruct_from_raw_leaves ct ls = Ok t" and "length ls < 2 ^ 53"
  shows "\<exists>vk. verifier_key_new sha origin (public_key_bytes i) = Ok vk \<and>
    (unat idx < length ls \<longrightarrow> (\<exists>a. build_inclusion_artifact ct sha b64 ed t (ls ! unat idx) origin i idx = Ok a \<and>
      verify_inclusion_artifact ct b64 ed a (ls ! unat idx) vk = Ok (body_of sha origin ls))) \<and>
    (reconstruct_from_raw_leaves ct es = Ok old \<and> strict_prefix es ls \<and> es \<noteq> [] \<longrightarrow>
      (\<exists>a. build_consistency_artifact ct sha b64 ed old t origin i = Ok a \<and>
        verify_consistency_artifact ct b64 ed a vk = Ok (body_of sha origin es, body_of sha origin ls)))"
proof -
  note holds = reconstruct_raw_Ok [OF assms(8)]
  have "valid_note_name origin" using assms(5) by (simp add: signing_origin_def)
  then obtain vk where vk: "verifier_key_new sha origin (public_key_bytes i) = Ok vk"
    using verifier_key_new_valid [OF assms(1)] by blast
  show ?thesis
  proof (intro exI [of _ vk] conjI impI vk)
    assume "unat idx < length ls"
    from build_inclusion_complete [OF assms(1-7) holds assms(9) this] vk
    show "\<exists>a. build_inclusion_artifact ct sha b64 ed t (ls ! unat idx) origin i idx = Ok a \<and>
      verify_inclusion_artifact ct b64 ed a (ls ! unat idx) vk = Ok (body_of sha origin ls)"
      by auto
  next
    assume es: "reconstruct_from_raw_leaves ct es = Ok old \<and> strict_prefix es ls \<and> es \<noteq> []"
    then have "tree_holds ct es old" "strict_prefix es ls" "es \<noteq> []" using reconstruct_raw_Ok by blast+
    from build_consistency_complete [OF assms(1-7) this(1) holds this(2,3) assms(9)] vk
    show "\<exists>a. build_consistency_artifact ct sha b64 ed old t origin i = Ok a \<and>
        verify_consistency_artifact ct b64 ed a vk = Ok (body_of sha origin es, body_of sha origin ls)"
      by auto
  qed
qed

theorem artifacts_built_witness:
  "\<exists>vk a c. verifier_key_new ref_sha w_origin w_seed = Ok vk \<and>
    build_inclusion_artifact (ref_ct ref_sha) ref_sha ref_b64 ref_ed \<lparr>aot_inner = two_leaves\<rparr> [2] w_origin w_id 1 = Ok a \<and>
    verify_inclusion_artifact (ref_ct ref_sha) ref_b64 ref_ed a [2] vk = Ok (body_of ref_sha w_origin two_leaves) \<and>
    build_consistency_artifact (ref_ct ref_sha) ref_sha ref_b64 ref_ed \<lparr>aot_inner = [[1]]\<rparr> \<lparr>aot_inner = two_leaves\<rparr> w_origin w_id = Ok c \<and>
    verify_consistency_artifact (ref_ct ref_sha) ref_b64 ref_ed c vk
      = Ok (body_of ref_sha w_origin [[1]], body_of ref_sha w_origin two_leaves)"
  using artifacts_built [OF ref_sha_size ref_b64_standard ref_ed_signs wf_w_id w_origin_signing
      ref_ct_trees_ok ref_ct_verifier_ok ref_reconstruct_two, of 1 "[[1]]" "\<lparr>aot_inner = [[1]]\<rparr>"] ref_reconstruct [of "[[1]]"]
  by (auto simp: ct_max_leaves_def)

end
