(* ===== verification/Cbor.thy ===== *)
theory Cbor
  imports Hex
begin

text \<open>
  CBOR (RFC 8949) as far as the program's artifacts use it: the value type of the
  \<^verbatim>\<open>ciborium\<close> crate, the core deterministic encoding as a specification, the requirement on
  the crate's reader, and a reader that meets it.
\<close>

section \<open>Values and their deterministic encoding\<close>

text \<open>\<^verbatim>\<open>ciborium::value::Value\<close>; a float is its bit pattern.\<close>

datatype cbor =
    CInt int
  | CBytes bytes
  | CFloat u64
  | CText str
  | CBool bool
  | CNull
  | CTag nat cbor
  | CArray "cbor list"
  | CMap "(cbor \<times> cbor) list"

definition cbor_head :: "nat \<Rightarrow> nat \<Rightarrow> bytes" where
  "cbor_head major n =
     (if n < 24 then [byte_of (major * 32 + n)]
      else if n < 256 then byte_of (major * 32 + 24) # be_bytes 1 n
      else if n < 65536 then byte_of (major * 32 + 25) # be_bytes 2 n
      else if n < 4294967296 then byte_of (major * 32 + 26) # be_bytes 4 n
      else byte_of (major * 32 + 27) # be_bytes 8 n)"

fun cbor_encode :: "cbor \<Rightarrow> bytes" where
  "cbor_encode (CInt i) = (if 0 \<le> i then cbor_head 0 (nat i) else cbor_head 1 (nat (-1 - i)))"
| "cbor_encode (CBytes bs) = cbor_head 2 (length bs) @ bs"
| "cbor_encode (CText s) = cbor_head 3 (str_len s) @ utf8_encode s"
| "cbor_encode (CArray vs) = cbor_head 4 (length vs) @ concat (map cbor_encode vs)"
| "cbor_encode (CMap kvs) =
     cbor_head 5 (length kvs) @ concat (map (\<lambda>(k, v). cbor_encode k @ cbor_encode v) kvs)"
| "cbor_encode (CTag t v) = cbor_head 6 t @ cbor_encode v"
| "cbor_encode (CBool b) = [if b then 0xf5 else 0xf4]"
| "cbor_encode CNull = [0xf6]"
| "cbor_encode (CFloat w) = 0xfb # be_bytes 8 (unat w)"

text \<open>The values whose encoding a reader gives back unchanged: integers of 65 bits, lengths and
  tags of 64 bits, valid text, no big-number tags (the crate reads them as integers) and no
  floats (it shortens them).\<close>

fun cbor_wf :: "cbor \<Rightarrow> bool" where
  "cbor_wf (CInt i) \<longleftrightarrow> - (2 ^ 64) \<le> i \<and> i < 2 ^ 64"
| "cbor_wf (CBytes bs) \<longleftrightarrow> length bs < 2 ^ 64"
| "cbor_wf (CText s) \<longleftrightarrow> wf_str s \<and> str_len s < 2 ^ 64"
| "cbor_wf (CArray vs) \<longleftrightarrow> length vs < 2 ^ 64 \<and> list_all cbor_wf vs"
| "cbor_wf (CMap kvs) \<longleftrightarrow> length kvs < 2 ^ 64 \<and> list_all (\<lambda>(k, v). cbor_wf k \<and> cbor_wf v) kvs"
| "cbor_wf (CTag t v) \<longleftrightarrow> t < 2 ^ 64 \<and> t \<noteq> 2 \<and> t \<noteq> 3 \<and> cbor_wf v"
| "cbor_wf (CBool b) \<longleftrightarrow> True"
| "cbor_wf CNull \<longleftrightarrow> True"
| "cbor_wf (CFloat w) \<longleftrightarrow> False"

fun cbor_depth :: "cbor \<Rightarrow> nat" where
  "cbor_depth (CArray vs) = Suc (fold max (map cbor_depth vs) 0)"
| "cbor_depth (CMap kvs) = Suc (fold max (map (\<lambda>(k, v). max (cbor_depth k) (cbor_depth v)) kvs) 0)"
| "cbor_depth (CTag t v) = Suc (cbor_depth v)"
| "cbor_depth _ = 0"

text \<open>The crate's \<^verbatim>\<open>de::from_reader\<close> into a \<^verbatim>\<open>Value\<close>: it reads one value from the front and
  recurses at most 256 deep.\<close>

type_synonym cbor_reader = "bytes \<Rightarrow> cbor option"

definition cbor_reads :: "cbor_reader \<Rightarrow> bool" where
  "cbor_reads rd \<longleftrightarrow> (\<forall>v. cbor_wf v \<and> cbor_depth v < 128 \<longrightarrow> rd (cbor_encode v) = Some v)"

section \<open>A reader\<close>

definition read_be :: "nat \<Rightarrow> bytes \<Rightarrow> (nat \<times> bytes) option" where
  "read_be k bs = (if length bs < k then None else Some (be_val (take k bs), drop k bs))"

fun read_head :: "bytes \<Rightarrow> (nat \<times> nat \<times> bytes) option" where
  "read_head [] = None"
| "read_head (b # bs) =
     (let major = unat b div 32; info = unat b mod 32 in
      if info < 24 then Some (major, info, bs)
      else if info = 24 then map_option (Pair major) (read_be 1 bs)
      else if info = 25 then map_option (Pair major) (read_be 2 bs)
      else if info = 26 then map_option (Pair major) (read_be 4 bs)
      else if info = 27 then map_option (Pair major) (read_be 8 bs)
      else None)"

primrec read_many :: "(bytes \<Rightarrow> ('a \<times> bytes) option) \<Rightarrow> nat \<Rightarrow> bytes \<Rightarrow> ('a list \<times> bytes) option" where
  "read_many rd 0 bs = Some ([], bs)"
| "read_many rd (Suc n) bs =
     (case rd bs of None \<Rightarrow> None
      | Some (x, r) \<Rightarrow> map_option (\<lambda>(xs, r'). (x # xs, r')) (read_many rd n r))"

definition read_pair :: "(bytes \<Rightarrow> ('a \<times> bytes) option) \<Rightarrow> bytes \<Rightarrow> (('a \<times> 'a) \<times> bytes) option" where
  "read_pair rd bs =
     (case rd bs of None \<Rightarrow> None
      | Some (k, r) \<Rightarrow> map_option (\<lambda>(v, r'). ((k, v), r')) (rd r))"

primrec read_value :: "nat \<Rightarrow> bytes \<Rightarrow> (cbor \<times> bytes) option" where
  "read_value 0 bs = None"
| "read_value (Suc f) bs =
     (case read_head bs of
        None \<Rightarrow> None
      | Some (major, n, r) \<Rightarrow>
          (if major = 0 then Some (CInt (int n), r)
           else if major = 1 then Some (CInt (-1 - int n), r)
           else if major = 2 then (if length r < n then None else Some (CBytes (take n r), drop n r))
           else if major = 3 then
             (if length r < n then None
              else map_option (\<lambda>s. (CText s, drop n r)) (from_utf8 (take n r)))
           else if major = 4 then map_option (\<lambda>(vs, r'). (CArray vs, r')) (read_many (read_value f) n r)
           else if major = 5 then
             map_option (\<lambda>(kvs, r'). (CMap kvs, r')) (read_many (read_pair (read_value f)) n r)
           else if major = 6 then map_option (\<lambda>(v, r'). (CTag n v, r')) (read_value f r)
           else if n = 20 then Some (CBool False, r)
           else if n = 21 then Some (CBool True, r)
           else if n = 22 then Some (CNull, r)
           else None))"

definition ref_cbor :: cbor_reader where
  "ref_cbor bs = map_option fst (read_value 256 bs)"

section \<open>The reader inverts the encoding\<close>

lemma be_bytes_append_read: "n < 256 ^ k \<Longrightarrow> read_be k (be_bytes k n @ r) = Some (n, r)"
  by (simp add: read_be_def be_val_be_bytes)

lemma read_head_cbor_head:
  assumes "major < 8" and "n < 2 ^ 64"
  shows "read_head (cbor_head major n @ r) = Some (major, n, r)"
proof -
  have info: "unat (byte_of (major * 32 + i)) div 32 = major" "unat (byte_of (major * 32 + i)) mod 32 = i"
    if "i < 32" for i
    using assms(1) that by (simp_all add: unat_byte_of)
  consider "n < 24" | "24 \<le> n" "n < 256" | "256 \<le> n" "n < 65536" | "65536 \<le> n" "n < 4294967296" | "4294967296 \<le> n"
    by linarith
  then show ?thesis
    using assms(2) be_bytes_append_read [of n 1 r] be_bytes_append_read [of n 2 r]
      be_bytes_append_read [of n 4 r] be_bytes_append_read [of n 8 r]
    by cases (auto simp: cbor_head_def info Let_def simp del: be_bytes.simps)
qed

lemma read_many_concat:
  "(\<And>x r. x \<in> set xs \<Longrightarrow> rd (e x @ r) = Some (x, r)) \<Longrightarrow>
   read_many rd (length xs) (concat (map e xs) @ r) = Some (xs, r)"
  by (induction xs arbitrary: r) auto

lemma fold_max_le: "x \<in> set xs \<Longrightarrow> x \<le> fold max xs (0 :: nat)"
proof -
  have mono: "a \<le> fold max xs (a :: nat)" for xs a
    by (induction xs arbitrary: a) (auto intro: le_trans [OF max.cobounded2])
  show "x \<in> set xs \<Longrightarrow> x \<le> fold max xs (0 :: nat)"
  proof (induction xs rule: rev_induct)
    case (snoc y ys)
    then show ?case by auto
  qed simp
qed

lemma read_value_encode:
  "cbor_wf v \<Longrightarrow> cbor_depth v < f \<Longrightarrow> read_value f (cbor_encode v @ r) = Some (v, r)"
proof (induction v arbitrary: f r rule: cbor_encode.induct)
  case (1 i)
  then show ?case
    by (cases f) (auto simp: read_head_cbor_head nat_less_iff)
next
  case (2 bs)
  then show ?case by (cases f) (auto simp: read_head_cbor_head)
next
  case (3 s)
  then show ?case by (cases f) (auto simp: read_head_cbor_head str_len_def from_utf8_encode)
next
  case (4 vs)
  then obtain g where f: "f = Suc g" by (cases f) auto
  have "read_value g (cbor_encode v @ r) = Some (v, r)" if "v \<in> set vs" for v r
    using "4.IH" [OF that, of g r] "4.prems" that fold_max_le [of "cbor_depth v" "map cbor_depth vs"]
    by (auto simp: f list_all_iff)
  with read_many_concat [of vs "read_value g" cbor_encode r] "4.prems" show ?case
    by (simp add: f read_head_cbor_head)
next
  case (5 kvs)
  then obtain g where f: "f = Suc g" by (cases f) auto
  let ?e = "\<lambda>(k, v). cbor_encode k @ cbor_encode v"
  have "read_pair (read_value g) (?e p @ r) = Some (p, r)" if "p \<in> set kvs" for p r
  proof -
    obtain k v where p: "p = (k, v)" by (cases p)
    have "max (cbor_depth k) (cbor_depth v) < g" "cbor_wf k" "cbor_wf v"
      using "5.prems" that fold_max_le [of "max (cbor_depth k) (cbor_depth v)"
          "map (\<lambda>(k, v). max (cbor_depth k) (cbor_depth v)) kvs"] p
      by (force simp: f list_all_iff)+
    then show ?thesis
      using "5.IH"(1) [OF that p [symmetric], of g] "5.IH"(2) [OF that p [symmetric], of g] p
      by (simp add: read_pair_def)
  qed
  with read_many_concat [of kvs "read_pair (read_value g)" ?e r] "5.prems" show ?case
    by (simp add: f read_head_cbor_head)
next
  case (6 t v)
  then show ?case by (cases f) (auto simp: read_head_cbor_head)
next
  case (7 b)
  then show ?case by (cases f) (auto simp: Let_def)
next
  case 8
  then show ?case by (cases f) (auto simp: Let_def)
next
  case (9 w)
  then show ?case by simp
qed

theorem ref_cbor_reads [simp]: "cbor_reads ref_cbor"
  using read_value_encode [where r = "[]" and f = 256] by (auto simp: cbor_reads_def ref_cbor_def)

end
