(* ===== verification/Attestation_Model.thy ===== *)
theory Attestation_Model
  imports Cbor Identity
begin

unbundle bit_operations_syntax

text \<open>
  \<^verbatim>\<open>lys-core/src/attestation\<close>: the hand-written CBOR/COSE encoder, the strict decoder over the
  \<^verbatim>\<open>ciborium\<close> reader, and signing and verification. The encoder is proved to be the
  deterministic CBOR encoding of a \<^verbatim>\<open>COSE_Sign1\<close> value, which is what the decoder rests on.
\<close>

section \<open>encoding.rs: writers\<close>

definition CONTENT_TYPE :: str where
  "CONTENT_TYPE = lit ''application/vnd.lys.attestation.v2+cbor''"

definition MAX_ARTIFACT_LEN :: nat where
  "MAX_ARTIFACT_LEN = 1024"

abbreviation (input) COSE_SIGN1_TAG :: u64 where "COSE_SIGN1_TAG \<equiv> 18"
abbreviation (input) MAJOR_UNSIGNED :: byte where "MAJOR_UNSIGNED \<equiv> 0"
abbreviation (input) MAJOR_NEGATIVE :: byte where "MAJOR_NEGATIVE \<equiv> 1"
abbreviation (input) MAJOR_BYTES :: byte where "MAJOR_BYTES \<equiv> 2"
abbreviation (input) MAJOR_TEXT :: byte where "MAJOR_TEXT \<equiv> 3"
abbreviation (input) MAJOR_ARRAY :: byte where "MAJOR_ARRAY \<equiv> 4"
abbreviation (input) MAJOR_MAP :: byte where "MAJOR_MAP \<equiv> 5"
abbreviation (input) MAJOR_TAG :: byte where "MAJOR_TAG \<equiv> 6"
abbreviation (input) HEADER_LABEL_ALG :: u64 where "HEADER_LABEL_ALG \<equiv> 1"
abbreviation (input) HEADER_LABEL_CONTENT_TYPE :: u64 where "HEADER_LABEL_CONTENT_TYPE \<equiv> 3"
abbreviation (input) HEADER_LABEL_KID :: u64 where "HEADER_LABEL_KID \<equiv> 4"
abbreviation (input) ALG_EDDSA :: int where "ALG_EDDSA \<equiv> - 8"
abbreviation (input) CLAIM_KEY_PAYLOAD_HASH :: u64 where "CLAIM_KEY_PAYLOAD_HASH \<equiv> 1"
abbreviation (input) CLAIM_KEY_TIMESTAMP :: u64 where "CLAIM_KEY_TIMESTAMP \<equiv> 2"

text \<open>\<^verbatim>\<open>u8::try_from\<close> and its wider siblings on a \<^verbatim>\<open>u64\<close>.\<close>

definition narrow :: "nat \<Rightarrow> u64 \<Rightarrow> nat option" where
  "narrow bits v = (if unat v < 2 ^ bits then Some (unat v) else None)"

definition write_head :: "bytes \<Rightarrow> byte \<Rightarrow> u64 \<Rightarrow> bytes" where
  "write_head out major value =
     (let major_bits = push_bit 5 major in
      case narrow 8 value of
        Some small \<Rightarrow>
          (if small < 24 then out @ [major_bits OR byte_of small]
           else (out @ [major_bits OR 24]) @ [byte_of small])
      | None \<Rightarrow>
      (case narrow 16 value of
        Some v \<Rightarrow> (out @ [major_bits OR 25]) @ be_bytes 2 v
      | None \<Rightarrow>
      (case narrow 32 value of
        Some v \<Rightarrow> (out @ [major_bits OR 26]) @ be_bytes 4 v
      | None \<Rightarrow> (out @ [major_bits OR 27]) @ be_bytes 8 (unat value))))"

definition unsigned_abs :: "i64 \<Rightarrow> u64" where
  "unsigned_abs v = (if sint v < 0 then - v else v)"

definition write_i64 :: "bytes \<Rightarrow> i64 \<Rightarrow> bytes" where
  "write_i64 out value =
     (let (major, magnitude) =
        (if sint value \<ge> 0 then (MAJOR_UNSIGNED, unsigned_abs value)
         else (MAJOR_NEGATIVE, unsigned_abs value - 1))
      in write_head out major magnitude)"

definition protected_bytes :: "bytes \<Rightarrow> bytes" where
  "protected_bytes signer_public_key =
     (let out = [];
          out = write_head out MAJOR_MAP 3;
          out = write_head out MAJOR_UNSIGNED HEADER_LABEL_ALG;
          out = write_i64 out (- 8);
          out = write_head out MAJOR_UNSIGNED HEADER_LABEL_CONTENT_TYPE;
          out = write_head out MAJOR_TEXT (of_nat (str_len CONTENT_TYPE));
          out = out @ utf8_encode CONTENT_TYPE;
          out = write_head out MAJOR_UNSIGNED HEADER_LABEL_KID;
          out = write_head out MAJOR_BYTES (of_nat (length signer_public_key))
      in out @ signer_public_key)"

definition claims_bytes :: "bytes \<Rightarrow> i64 \<Rightarrow> bytes" where
  "claims_bytes payload_hash timestamp =
     (let out = [];
          out = write_head out MAJOR_MAP 2;
          out = write_head out MAJOR_UNSIGNED CLAIM_KEY_PAYLOAD_HASH;
          out = write_head out MAJOR_BYTES (of_nat (length payload_hash));
          out = out @ payload_hash;
          out = write_head out MAJOR_UNSIGNED CLAIM_KEY_TIMESTAMP
      in write_i64 out timestamp)"

definition sig_structure_bytes :: "bytes \<Rightarrow> bytes \<Rightarrow> bytes" where
  "sig_structure_bytes protected claims =
     (let CONTEXT = lit ''Signature1'';
          out = [];
          out = write_head out MAJOR_ARRAY 4;
          out = write_head out MAJOR_TEXT (of_nat (str_len CONTEXT));
          out = out @ utf8_encode CONTEXT;
          out = write_head out MAJOR_BYTES (of_nat (length protected));
          out = out @ protected;
          out = write_head out MAJOR_BYTES 0;
          out = write_head out MAJOR_BYTES (of_nat (length claims))
      in out @ claims)"

definition artifact_bytes :: "bytes \<Rightarrow> bytes \<Rightarrow> i64 \<Rightarrow> bytes \<Rightarrow> bytes" where
  "artifact_bytes signer_public_key payload_hash timestamp signature =
     (let protected = protected_bytes signer_public_key;
          claims = claims_bytes payload_hash timestamp;
          out = [];
          out = write_head out MAJOR_TAG COSE_SIGN1_TAG;
          out = write_head out MAJOR_ARRAY 4;
          out = write_head out MAJOR_BYTES (of_nat (length protected));
          out = out @ protected;
          out = write_head out MAJOR_MAP 0;
          out = write_head out MAJOR_BYTES (of_nat (length claims));
          out = out @ claims;
          out = write_head out MAJOR_BYTES (of_nat (length signature))
      in out @ signature)"

section \<open>encoding.rs: the strict decoder\<close>

record decoded_fields =
  df_signer_public_key :: bytes
  df_payload_hash :: bytes
  df_timestamp :: i64
  df_signature :: bytes

abbreviation reject :: trust_error where
  "reject \<equiv> InvalidSignature"

text \<open>The \<^verbatim>\<open>let Value::..(x) = v else\<close> patterns of the decoder.\<close>

fun as_bytes :: "cbor \<Rightarrow> bytes trust_result" where
  "as_bytes (CBytes bs) = Ok bs"
| "as_bytes _ = Err reject"

fun as_integer :: "cbor \<Rightarrow> int trust_result" where
  "as_integer (CInt i) = Ok i"
| "as_integer _ = Err reject"

fun as_text :: "cbor \<Rightarrow> str trust_result" where
  "as_text (CText s) = Ok s"
| "as_text _ = Err reject"

fun as_array :: "cbor \<Rightarrow> cbor list trust_result" where
  "as_array (CArray vs) = Ok vs"
| "as_array _ = Err reject"

fun as_map :: "cbor \<Rightarrow> (cbor \<times> cbor) list trust_result" where
  "as_map (CMap kvs) = Ok kvs"
| "as_map _ = Err reject"

fun as_tag :: "nat \<Rightarrow> cbor \<Rightarrow> cbor trust_result" where
  "as_tag t (CTag t' v) = (if t' = t then Ok v else Err reject)"
| "as_tag t _ = Err reject"

text \<open>A slice pattern of \<open>n\<close> elements.\<close>

definition exactly :: "nat \<Rightarrow> 'a list \<Rightarrow> 'a list trust_result" where
  "exactly n xs = (if length xs = n then Ok xs else Err reject)"

definition parse_value :: "cbor_reader \<Rightarrow> bytes \<Rightarrow> cbor trust_result" where
  "parse_value rd bs = ok_or reject (rd bs)"

definition fixed_bytes :: "nat \<Rightarrow> cbor \<Rightarrow> bytes trust_result" where
  "fixed_bytes n value = res_bind (as_bytes value) (\<lambda>bs. ok_or reject (try_into_array n bs))"

definition require_integer :: "cbor \<Rightarrow> int \<Rightarrow> unit trust_result" where
  "require_integer value expected =
     res_bind (as_integer value) (\<lambda>i. if i = expected then Ok () else Err reject)"

text \<open>\<^verbatim>\<open>i64::try_from\<close> on a CBOR integer.\<close>

definition i64_try_from :: "int \<Rightarrow> i64 option" where
  "i64_try_from i = (if - (2 ^ 63) \<le> i \<and> i < 2 ^ 63 then Some (word_of_int i) else None)"

text \<open>The protected header, the claims, and the whole artifact.\<close>

definition decode_protected :: "cbor_reader \<Rightarrow> cbor \<Rightarrow> bytes trust_result" where
  "decode_protected rd protected_item =
     res_bind (as_bytes protected_item) (\<lambda>protected_raw.
     res_bind (parse_value rd protected_raw) (\<lambda>v.
     res_bind (as_map v) (\<lambda>protected.
     res_bind (exactly 3 protected) (\<lambda>m.
     let (alg_key, alg) = m ! 0; (ct_key, ct) = m ! 1; (kid_key, kid) = m ! 2 in
     res_bind (require_integer alg_key (uint HEADER_LABEL_ALG)) (\<lambda>_.
     res_bind (require_integer alg ALG_EDDSA) (\<lambda>_.
     res_bind (require_integer ct_key (uint HEADER_LABEL_CONTENT_TYPE)) (\<lambda>_.
     res_bind (as_text ct) (\<lambda>content_type.
     if content_type \<noteq> CONTENT_TYPE then Err reject
     else
       res_bind (require_integer kid_key (uint HEADER_LABEL_KID)) (\<lambda>_.
       fixed_bytes 32 kid)))))))))"

definition decode_claims :: "cbor_reader \<Rightarrow> cbor \<Rightarrow> (bytes \<times> i64) trust_result" where
  "decode_claims rd claims_item =
     res_bind (as_bytes claims_item) (\<lambda>claims_raw.
     res_bind (parse_value rd claims_raw) (\<lambda>v.
     res_bind (as_map v) (\<lambda>claims.
     res_bind (exactly 2 claims) (\<lambda>m.
     let (hash_key, hash) = m ! 0; (ts_key, ts) = m ! 1 in
     res_bind (require_integer hash_key (uint CLAIM_KEY_PAYLOAD_HASH)) (\<lambda>_.
     res_bind (fixed_bytes 32 hash) (\<lambda>payload_hash.
     res_bind (require_integer ts_key (uint CLAIM_KEY_TIMESTAMP)) (\<lambda>_.
     res_bind (as_integer ts) (\<lambda>ts_int.
     res_bind (ok_or reject (i64_try_from ts_int)) (\<lambda>timestamp.
     Ok (payload_hash, timestamp))))))))))"

definition decode_fields :: "cbor_reader \<Rightarrow> bytes \<Rightarrow> decoded_fields trust_result" where
  "decode_fields rd bs =
     (if length bs > MAX_ARTIFACT_LEN then Err reject
      else
        res_bind (parse_value rd bs) (\<lambda>v.
        res_bind (as_tag (unat COSE_SIGN1_TAG) v) (\<lambda>boxed.
        res_bind (as_array boxed) (\<lambda>items.
        res_bind (exactly 4 items) (\<lambda>items.
        res_bind (as_map (items ! 1)) (\<lambda>unprotected.
        if unprotected \<noteq> [] then Err reject
        else
          res_bind (fixed_bytes 64 (items ! 3)) (\<lambda>signature.
          res_bind (decode_protected rd (items ! 0)) (\<lambda>signer_public_key.
          res_bind (decode_claims rd (items ! 2)) (\<lambda>(payload_hash, timestamp).
          Ok \<lparr>df_signer_public_key = signer_public_key, df_payload_hash = payload_hash,
              df_timestamp = timestamp, df_signature = signature\<rparr>)))))))))"

section \<open>artifact.rs and sign.rs\<close>

record attestation =
  att_payload_hash :: bytes
  att_signature :: bytes
  att_signer_public_key :: bytes
  att_timestamp :: i64

definition to_cose_bytes :: "attestation \<Rightarrow> bytes" where
  "to_cose_bytes a =
     artifact_bytes (att_signer_public_key a) (att_payload_hash a) (att_timestamp a) (att_signature a)"

definition from_cose_bytes :: "cbor_reader \<Rightarrow> bytes \<Rightarrow> attestation trust_result" where
  "from_cose_bytes rd bs =
     res_bind (decode_fields rd bs) (\<lambda>f.
     let canonical = artifact_bytes (df_signer_public_key f) (df_payload_hash f) (df_timestamp f) (df_signature f) in
     if canonical \<noteq> bs then Err InvalidSignature
     else Ok \<lparr>att_payload_hash = df_payload_hash f, att_signature = df_signature f,
              att_signer_public_key = df_signer_public_key f, att_timestamp = df_timestamp f\<rparr>)"

text \<open>The clock reading \<^verbatim>\<open>Utc::now().timestamp_millis()\<close> is the argument \<open>now\<close>.\<close>

definition sign_attestation :: "sha256 \<Rightarrow> ed25519 \<Rightarrow> i64 \<Rightarrow> bytes \<Rightarrow> identity \<Rightarrow> attestation" where
  "sign_attestation sha ed now payload key =
     (let payload_hash = sha payload;
          timestamp = now;
          signer_public_key = public_key_bytes key;
          protected = protected_bytes signer_public_key;
          claims = claims_bytes payload_hash timestamp;
          signature = sign ed key (sig_structure_bytes protected claims)
      in \<lparr>att_payload_hash = payload_hash, att_signature = signature,
          att_signer_public_key = signer_public_key, att_timestamp = timestamp\<rparr>)"

definition verify_attestation :: "sha256 \<Rightarrow> ed25519 \<Rightarrow> attestation \<Rightarrow> bytes \<Rightarrow> unit trust_result" where
  "verify_attestation sha ed a payload =
     (let recomputed = sha payload in
      if recomputed \<noteq> att_payload_hash a then Err InvalidSignature
      else
        let protected = protected_bytes (att_signer_public_key a);
            claims = claims_bytes (att_payload_hash a) (att_timestamp a);
            sig_structure = sig_structure_bytes protected claims
        in verify_signature ed (att_signer_public_key a) sig_structure (att_signature a))"

definition verify_attestation_bytes ::
  "cbor_reader \<Rightarrow> sha256 \<Rightarrow> ed25519 \<Rightarrow> bytes \<Rightarrow> bytes \<Rightarrow> attestation trust_result" where
  "verify_attestation_bytes rd sha ed cose payload =
     res_bind (from_cose_bytes rd cose) (\<lambda>a.
     res_bind (verify_attestation sha ed a payload) (\<lambda>_. Ok a))"

section \<open>The writers are deterministic CBOR\<close>

lemma or_major:
  assumes "unat major < 8" and "i < 32"
  shows "push_bit 5 major OR byte_of i = byte_of (unat major * 32 + i)"
proof -
  have small: "bit (byte_of i) n \<Longrightarrow> n < 5" for n
  proof (rule ccontr)
    assume "bit (byte_of i) n" "\<not> n < 5"
    moreover have "take_bit 5 (byte_of i) = byte_of i"
      using assms(2) by (simp add: word_eq_iff_unsigned [where ?'a = nat] unsigned_take_bit_eq unat_byte_of take_bit_nat_eq_self)
    ultimately show False
      by (metis bit_take_bit_iff)
  qed
  have or: "push_bit 5 major OR byte_of i = push_bit 5 major + byte_of i"
    by (intro disjunctive_add [symmetric]) (auto simp: bit_push_bit_iff dest: small)
  have push: "push_bit 5 major = byte_of (unat major * 32)"
    using assms(1) by (simp add: word_eq_iff_unsigned [where ?'a = nat] unat_byte_of push_bit_eq_mult unat_word_ariths)
  have "byte_of (unat major * 32) + byte_of i = byte_of (unat major * 32 + i)"
    by (simp add: byte_of_def)
  with or push show ?thesis by simp
qed

lemma write_head_eq:
  assumes "unat major < 8"
  shows "write_head out major v = out @ cbor_head (unat major) (unat v)"
proof -
  have or24: "push_bit 5 major OR 24 = byte_of (unat major * 32 + 24)" "push_bit 5 major OR 25 = byte_of (unat major * 32 + 25)"
    "push_bit 5 major OR 26 = byte_of (unat major * 32 + 26)" "push_bit 5 major OR 27 = byte_of (unat major * 32 + 27)"
    using or_major [OF assms, of 24] or_major [OF assms, of 25] or_major [OF assms, of 26] or_major [OF assms, of 27]
    by (simp_all add: byte_of_def)
  have one: "be_bytes (Suc 0) n = [byte_of (n mod 256)]" for n
    by simp
  consider "unat v < 24" | "24 \<le> unat v" "unat v < 256" | "256 \<le> unat v" "unat v < 65536"
    | "65536 \<le> unat v" "unat v < 4294967296" | "4294967296 \<le> unat v"
    by linarith
  then show ?thesis
    by cases (simp_all add: write_head_def narrow_def cbor_head_def or_major [OF assms] or24 one Let_def
        del: be_bytes.simps)
qed

lemma unsigned_abs_sint:
  "0 \<le> sint v \<Longrightarrow> unat (unsigned_abs v) = nat (sint v)"
  "sint v < 0 \<Longrightarrow> unat (unsigned_abs v - 1) = nat (-1 - sint v)"
proof -
  have b: "- (2 ^ 63) \<le> sint v" "sint v < 2 ^ 63"
    using sint_range_size [of v] by (auto simp: word_size)
  have eq: "unat w = nat k" if "w = word_of_int k" "0 \<le> k" "k < 2 ^ 64" for w :: u64 and k
    using that by (simp add: unat_eq_nat_uint uint_word_of_int)
  show "0 \<le> sint v \<Longrightarrow> unat (unsigned_abs v) = nat (sint v)"
    using b by (intro eq) (simp_all add: unsigned_abs_def)
  show "sint v < 0 \<Longrightarrow> unat (unsigned_abs v - 1) = nat (-1 - sint v)"
    using b by (intro eq) (simp_all add: unsigned_abs_def)
qed

lemma write_i64_eq: "write_i64 out v = out @ cbor_encode (CInt (sint v))"
  using unsigned_abs_sint [of v] by (simp add: write_i64_def write_head_eq)

section \<open>The artifact as a COSE value\<close>

definition protected_value :: "bytes \<Rightarrow> cbor" where
  "protected_value pk = CMap [(CInt 1, CInt (-8)), (CInt 3, CText CONTENT_TYPE), (CInt 4, CBytes pk)]"

definition claims_value :: "bytes \<Rightarrow> i64 \<Rightarrow> cbor" where
  "claims_value h ts = CMap [(CInt 1, CBytes h), (CInt 2, CInt (sint ts))]"

definition sig_structure_value :: "bytes \<Rightarrow> bytes \<Rightarrow> cbor" where
  "sig_structure_value protected claims =
     CArray [CText (lit ''Signature1''), CBytes protected, CBytes [], CBytes claims]"

definition cose_value :: "bytes \<Rightarrow> bytes \<Rightarrow> i64 \<Rightarrow> bytes \<Rightarrow> cbor" where
  "cose_value pk h ts sig =
     CTag 18 (CArray [CBytes (cbor_encode (protected_value pk)), CMap [], CBytes (cbor_encode (claims_value h ts)), CBytes sig])"

lemma unat_of_nat64: "n < 2 ^ 64 \<Longrightarrow> unat (of_nat n :: u64) = n"
  by (simp add: unat_of_nat)

lemma str_len_content_type: "str_len CONTENT_TYPE = 39"
  by (simp add: CONTENT_TYPE_def lit_def str_len_def utf8_char_def)

lemma str_len_signature1: "str_len (lit ''Signature1'') = 10"
  by (simp add: lit_def str_len_def utf8_char_def)

lemma protected_bytes_cbor:
  "length pk = 32 \<Longrightarrow> protected_bytes pk = cbor_encode (protected_value pk)"
  by (simp add: protected_bytes_def protected_value_def write_head_eq write_i64_eq str_len_content_type Let_def
      numeral_2_eq_2 [symmetric])

lemma claims_bytes_cbor:
  "length h = 32 \<Longrightarrow> claims_bytes h ts = cbor_encode (claims_value h ts)"
  by (simp add: claims_bytes_def claims_value_def write_head_eq write_i64_eq Let_def del: cbor_encode.simps(1))
    (simp add: cbor_encode.simps(1) numeral_2_eq_2 [symmetric])

lemma sig_structure_bytes_cbor:
  "length p < 2 ^ 64 \<Longrightarrow> length c < 2 ^ 64 \<Longrightarrow>
   sig_structure_bytes p c = cbor_encode (sig_structure_value p c)"
  by (simp add: sig_structure_bytes_def sig_structure_value_def write_head_eq unat_of_nat64 str_len_signature1 Let_def
      numeral_2_eq_2 [symmetric] del: lit_simps)

lemma length_cbor_head: "length (cbor_head m n) \<in> {1, 2, 3, 5, 9}"
  by (simp add: cbor_head_def)

lemma length_cbor_int: "1 \<le> length (cbor_encode (CInt i)) \<and> length (cbor_encode (CInt i)) \<le> 9"
  using length_cbor_head [of 0 "nat i"] length_cbor_head [of 1 "nat (-1 - i)"] by auto

lemma length_protected: "length pk = 32 \<Longrightarrow> length (protected_bytes pk) = 80"
  by (simp add: protected_bytes_cbor protected_value_def cbor_head_def str_len_content_type)
    (simp add: str_len_content_type flip: str_len_def)

lemma length_claims:
  assumes "length h = 32"
  shows "38 \<le> length (claims_bytes h ts)" and "length (claims_bytes h ts) \<le> 46"
proof -
  have "length (claims_bytes h ts) = 37 + length (cbor_encode (CInt (sint ts)))"
    using assms by (simp add: claims_bytes_cbor claims_value_def del: cbor_encode.simps(1))
      (simp add: cbor_encode.simps(1) cbor_head_def)
  with length_cbor_int [of "sint ts"] show "38 \<le> length (claims_bytes h ts)" and "length (claims_bytes h ts) \<le> 46"
    by linarith+
qed

lemma artifact_bytes_cbor:
  assumes "length pk = 32" and "length h = 32" and "length sig = 64"
  shows "artifact_bytes pk h ts sig = cbor_encode (cose_value pk h ts sig)"
proof -
  have "length (claims_bytes h ts) < 2 ^ 64" "length (protected_bytes pk) < 2 ^ 64"
    using length_claims [OF assms(2), of ts] length_protected [OF assms(1)] by simp_all
  then show ?thesis
    using assms
    by (simp add: artifact_bytes_def cose_value_def write_head_eq unat_of_nat64 Let_def
        protected_bytes_cbor [symmetric] claims_bytes_cbor [symmetric] numeral_2_eq_2 [symmetric])
qed

lemma length_artifact:
  assumes "length pk = 32" and "length h = 32" and "length sig = 64"
  shows "length (artifact_bytes pk h ts sig) = 153 + length (claims_bytes h ts)"
  using assms length_claims [OF assms(2), of ts] length_protected [OF assms(1)]
  by (simp add: artifact_bytes_cbor cose_value_def protected_bytes_cbor [symmetric] claims_bytes_cbor [symmetric])
    (simp add: cbor_head_def)

lemma length_sig_structure:
  assumes "length pk = 32" and "length h = 32"
  shows "length (sig_structure_bytes (protected_bytes pk) (claims_bytes h ts)) = 97 + length (claims_bytes h ts)"
  using assms length_claims [OF assms(2), of ts] length_protected [OF assms(1)]
  by (simp add: sig_structure_bytes_cbor sig_structure_value_def del: lit_simps)
    (simp add: cbor_head_def str_len_def utf8_char_def)

section \<open>Decoding\<close>

definition wf_attestation :: "attestation \<Rightarrow> bool" where
  "wf_attestation a \<longleftrightarrow>
     length (att_payload_hash a) = 32 \<and> length (att_signature a) = 64 \<and> length (att_signer_public_key a) = 32"

lemma sint_range64: "- (2 ^ 63) \<le> sint (v :: i64)" "sint v < 2 ^ 63"
  using sint_range_size [of v] by (auto simp: word_size)

lemma i64_try_from_sint: "i64_try_from (sint v) = Some v"
  using sint_range64 [of v] by (simp add: i64_try_from_def)

lemma wf_values:
  assumes "length pk = 32" and "length h = 32" and "length sig = 64"
  shows "cbor_wf (protected_value pk)" and "cbor_depth (protected_value pk) < 128"
    and "cbor_wf (claims_value h ts)" and "cbor_depth (claims_value h ts) < 128"
    and "cbor_wf (cose_value pk h ts sig)" and "cbor_depth (cose_value pk h ts sig) < 128"
proof -
  have "wf_str CONTENT_TYPE"
    by (simp add: CONTENT_TYPE_def is_scalar_def)
  then show "cbor_wf (protected_value pk)" "cbor_depth (protected_value pk) < 128"
    using assms(1) by (simp_all add: protected_value_def str_len_content_type)
  show "cbor_wf (claims_value h ts)" "cbor_depth (claims_value h ts) < 128"
    using assms(2) sint_range64 [of ts] by (simp_all add: claims_value_def)
  show "cbor_wf (cose_value pk h ts sig)" "cbor_depth (cose_value pk h ts sig) < 128"
    using assms length_protected [OF assms(1)] length_claims [OF assms(2), of ts]
    by (simp_all add: cose_value_def protected_bytes_cbor [symmetric] claims_bytes_cbor [symmetric])
qed

lemma decode_artifact:
  assumes "cbor_reads rd" and "length pk = 32" and "length h = 32" and "length sig = 64"
  shows "decode_fields rd (artifact_bytes pk h ts sig) =
    Ok \<lparr>df_signer_public_key = pk, df_payload_hash = h, df_timestamp = ts, df_signature = sig\<rparr>"
proof -
  note wf = wf_values [OF assms(2-4)]
  have rd: "rd (cbor_encode (protected_value pk)) = Some (protected_value pk)"
    "rd (cbor_encode (claims_value h ts)) = Some (claims_value h ts)"
    "rd (cbor_encode (cose_value pk h ts sig)) = Some (cose_value pk h ts sig)"
    using assms(1) wf by (simp_all add: cbor_reads_def)
  have "decode_protected rd (CBytes (cbor_encode (protected_value pk))) = Ok pk"
    using rd(1) assms(2)
    by (simp add: decode_protected_def parse_value_def protected_value_def require_integer_def fixed_bytes_def
        try_into_array_def exactly_def)
  moreover have "decode_claims rd (CBytes (cbor_encode (claims_value h ts))) = Ok (h, ts)"
    using rd(2) assms(3)
    by (simp add: decode_claims_def parse_value_def claims_value_def require_integer_def fixed_bytes_def
        try_into_array_def exactly_def i64_try_from_sint)
  moreover have "\<not> length (artifact_bytes pk h ts sig) > MAX_ARTIFACT_LEN"
    using length_artifact [OF assms(2-4), of ts] length_claims [OF assms(3), of ts]
    by (simp add: MAX_ARTIFACT_LEN_def)
  ultimately show ?thesis
    using rd(3) assms(2-4)
    by (simp add: decode_fields_def parse_value_def artifact_bytes_cbor cose_value_def fixed_bytes_def
        try_into_array_def exactly_def)
qed

lemma fixed_bytes_length: "fixed_bytes n v = Ok bs \<Longrightarrow> length bs = n"
  by (auto simp: fixed_bytes_def try_into_array_def outcome split: if_splits)

lemma decode_protected_length: "decode_protected rd v = Ok pk \<Longrightarrow> length pk = 32"
  by (auto simp: decode_protected_def outcome fixed_bytes_length Let_def case_prod_beta split: if_splits)

lemma decode_claims_length: "decode_claims rd v = Ok (h, ts) \<Longrightarrow> length h = 32"
  by (auto simp: decode_claims_def outcome fixed_bytes_length Let_def case_prod_beta split: if_splits)

lemma decode_fields_lengths:
  "decode_fields rd bs = Ok f \<Longrightarrow>
   length (df_signer_public_key f) = 32 \<and> length (df_payload_hash f) = 32 \<and> length (df_signature f) = 64"
  by (auto simp: decode_fields_def outcome fixed_bytes_length decode_protected_length decode_claims_length
      split: if_splits)

interpretation cose: canonical_codec "cbor_reads rd" wf_attestation to_cose_bytes "from_cose_bytes rd"
  for rd :: cbor_reader
proof unfold_locales
  show "from_cose_bytes rd (to_cose_bytes a) = Ok a" if "cbor_reads rd" "wf_attestation a" for a
    using that by (simp add: from_cose_bytes_def to_cose_bytes_def decode_artifact wf_attestation_def)
  show "wf_attestation a \<and> to_cose_bytes a = bs" if "from_cose_bytes rd bs = Ok a" for bs a
    using that
    by (auto simp: from_cose_bytes_def to_cose_bytes_def wf_attestation_def outcome Let_def
        dest!: decode_fields_lengths split: if_splits)
qed

end
