(* ===== verification/Attestation_Theorems.thy ===== *)
theory Attestation_Theorems
  imports Attestation_Model Checkpoint_Theorems
begin

text \<open>
  What attestations promise: the wire form is exactly the deterministic COSE encoding and
  nothing else is accepted, a signed attestation verifies, a verified one is signed in every
  field, and its signature cannot be taken for that of a note.
\<close>

section \<open>Lemmas\<close>

lemma cbor_encode_inj: "cbor_wf v \<Longrightarrow> cbor_wf w \<Longrightarrow> cbor_encode v = cbor_encode w \<Longrightarrow> v = w"
  using read_value_encode [of v "Suc (max (cbor_depth v) (cbor_depth w))" "[]"]
    read_value_encode [of w "Suc (max (cbor_depth v) (cbor_depth w))" "[]"] by simp

lemma wf_sig_structure_value:
  "length p < 2 ^ 64 \<Longrightarrow> length c < 2 ^ 64 \<Longrightarrow> cbor_wf (sig_structure_value p c)"
  by (simp add: sig_structure_value_def is_scalar_def str_len_def utf8_char_def)

text \<open>The bytes that an attestation's signature covers.\<close>

definition signed_bytes :: "attestation \<Rightarrow> bytes" where
  "signed_bytes a = sig_structure_bytes (protected_bytes (att_signer_public_key a))
     (claims_bytes (att_payload_hash a) (att_timestamp a))"

lemma signed_bytes_inj:
  assumes "wf_attestation a" and "wf_attestation b" and "signed_bytes a = signed_bytes b"
  shows "att_signer_public_key a = att_signer_public_key b \<and> att_payload_hash a = att_payload_hash b \<and>
    att_timestamp a = att_timestamp b"
proof -
  let ?p = "\<lambda>a. protected_bytes (att_signer_public_key a)"
  let ?c = "\<lambda>a. claims_bytes (att_payload_hash a) (att_timestamp a)"
  have small: "length (?p x) < 2 ^ 64" "length (?c x) < 2 ^ 64" if "wf_attestation x" for x :: attestation
    using that length_protected [of "att_signer_public_key x"]
      length_claims [of "att_payload_hash x" "att_timestamp x"]
    by (simp_all add: wf_attestation_def)
  from assms(3) have "cbor_encode (sig_structure_value (?p a) (?c a)) = cbor_encode (sig_structure_value (?p b) (?c b))"
    using small [OF assms(1)] small [OF assms(2)] by (simp add: signed_bytes_def sig_structure_bytes_cbor)
  then have "sig_structure_value (?p a) (?c a) = sig_structure_value (?p b) (?c b)"
    using small [OF assms(1)] small [OF assms(2)] by (intro cbor_encode_inj wf_sig_structure_value)
  then have eq: "?p a = ?p b" "?c a = ?c b" by (simp_all add: sig_structure_value_def)
  from eq(1) have "protected_value (att_signer_public_key a) = protected_value (att_signer_public_key b)"
    using assms(1,2) wf_values(1) by (intro cbor_encode_inj) (auto simp: wf_attestation_def protected_bytes_cbor)
  moreover from eq(2) have
    "claims_value (att_payload_hash a) (att_timestamp a) = claims_value (att_payload_hash b) (att_timestamp b)"
    using assms(1,2) wf_values(3) by (intro cbor_encode_inj) (auto simp: wf_attestation_def claims_bytes_cbor)
  ultimately show ?thesis
    by (auto simp: protected_value_def claims_value_def signed_word_eqI)
qed

lemma utf8_first_byte:
  assumes "is_scalar c"
  shows "\<exists>b bs. utf8_char c = b # bs \<and> (unat b < 128 \<or> 192 \<le> unat b)"
  using assms by (auto simp: utf8_char_def unat_byte_of is_scalar_def)

lemma signed_bytes_head: "wf_attestation a \<Longrightarrow> \<exists>r. signed_bytes a = 0x84 # r"
  using length_protected [of "att_signer_public_key a"] length_claims [of "att_payload_hash a" "att_timestamp a"]
  by (simp add: signed_bytes_def sig_structure_bytes_cbor wf_attestation_def sig_structure_value_def cbor_head_def byte_of_def)

lemma verify_attestation_Ok:
  "verify_attestation sha ed a payload = Ok () \<longleftrightarrow>
   sha payload = att_payload_hash a \<and>
   verify_signature ed (att_signer_public_key a) (signed_bytes a) (att_signature a) = Ok ()"
  by (auto simp: verify_attestation_def signed_bytes_def Let_def)

lemma verify_attestation_bytes_Ok:
  "verify_attestation_bytes rd sha ed cose payload = Ok a \<longleftrightarrow>
   from_cose_bytes rd cose = Ok a \<and> verify_attestation sha ed a payload = Ok ()"
  by (auto simp: verify_attestation_bytes_def outcome)

lemma field_fails [fails]:
  "fails_only InvalidSignature (as_bytes v)" "fails_only InvalidSignature (as_integer v)"
  "fails_only InvalidSignature (as_text v)" "fails_only InvalidSignature (as_array v)"
  "fails_only InvalidSignature (as_map v)" "fails_only InvalidSignature (as_tag t v)"
  "fails_only InvalidSignature (exactly n xs)" "fails_only InvalidSignature (parse_value rd bs)"
  "fails_only InvalidSignature (fixed_bytes n v)" "fails_only InvalidSignature (require_integer v i)"
proof -
  show *: "fails_only InvalidSignature (as_bytes v)" "fails_only InvalidSignature (as_integer v)" for v
    by (cases v; simp add: fails)+
  show "fails_only InvalidSignature (as_text v)" "fails_only InvalidSignature (as_array v)"
    "fails_only InvalidSignature (as_map v)" "fails_only InvalidSignature (as_tag t v)"
    by (cases v; simp add: fails)+
  show "fails_only InvalidSignature (exactly n xs)"
    by (simp add: exactly_def fails)
  show "fails_only InvalidSignature (parse_value rd bs)"
    by (simp add: parse_value_def fails)
  show "fails_only InvalidSignature (fixed_bytes n v)"
    unfolding fixed_bytes_def by (intro fails *)
  show "fails_only InvalidSignature (require_integer v i)"
    unfolding require_integer_def by (intro fails *)
qed

lemma decode_fails [fails]:
  "fails_only InvalidSignature (decode_protected rd v)" "fails_only InvalidSignature (decode_claims rd v)"
  unfolding decode_protected_def decode_claims_def Let_def by (intro fails)+

lemma decode_fields_fails [fails]: "fails_only InvalidSignature (decode_fields rd bs)"
  unfolding decode_fields_def by (intro fails)

lemma verify_signature_fails [fails]: "fails_only InvalidSignature (verify_signature ed pk m s)"
  using verify_sig.fails [of "(ed, pk, m, s)"] by simp

lemma from_cose_fails [fails]: "fails_only InvalidSignature (from_cose_bytes rd bs)"
  unfolding from_cose_bytes_def Let_def by (intro fails)

lemma verify_attestation_fails [fails]: "fails_only InvalidSignature (verify_attestation sha ed a payload)"
  unfolding verify_attestation_def Let_def by (intro fails)

lemma verify_attestation_bytes_fails [fails]:
  "fails_only InvalidSignature (verify_attestation_bytes rd sha ed cose payload)"
  unfolding verify_attestation_bytes_def by (intro fails)

interpretation parse_cose: collapsing "\<lambda>(rd, bs). from_cose_bytes rd bs" InvalidSignature
  using from_cose_fails by unfold_locales (auto simp: fails_only_def)

interpretation verify_cose: collapsing "\<lambda>(rd, sha, ed, cose, payload). verify_attestation_bytes rd sha ed cose payload"
  InvalidSignature
  using verify_attestation_bytes_fails by unfold_locales (auto simp: fails_only_def)

lemma own_attestation_verifies:
  assumes "sha256_size sha" and "ed25519_signs ed" and "wf_identity ed i" and "cbor_reads rd"
  shows "verify_attestation_bytes rd sha ed (to_cose_bytes (sign_attestation sha ed now payload i)) payload
      = Ok (sign_attestation sha ed now payload i)"
proof -
  let ?a = "sign_attestation sha ed now payload i"
  have a: "att_signer_public_key ?a = public_key_bytes i" "att_payload_hash ?a = sha payload"
    "att_signature ?a = sign ed i (signed_bytes ?a)"
    by (simp_all add: sign_attestation_def signed_bytes_def Let_def)
  then have "wf_attestation ?a"
    using assms(1) wf_identity_sizes [OF assms(2,3)] by (simp add: wf_attestation_def)
  then have "from_cose_bytes rd (to_cose_bytes ?a) = Ok ?a"
    by (rule cose.parse_enc [OF assms(4)])
  with a verify_signature_sign [OF assms(2,3)] show ?thesis
    by (simp add: verify_attestation_bytes_Ok verify_attestation_Ok)
qed

section \<open>Properties\<close>

text \<open>C16 (one wire form): an artifact parses to an attestation exactly when it is the encoding of
  that attestation, whose fields have their fixed sizes. So parsing inverts encoding, and no
  other bytes are accepted: no unprotected headers, no indefinite lengths, no oversized
  integer heads, no reordered or duplicate keys, no stripped tag, no trailing bytes.\<close>

theorem attestation_wire_exact:
  assumes "cbor_reads rd"
  shows "from_cose_bytes rd bs = Ok a \<longleftrightarrow> wf_attestation a \<and> bs = to_cose_bytes a"
  by (rule cose.parse_iff [OF assms])

definition w_att :: attestation where
  "w_att = \<lparr>att_payload_hash = replicate 32 1, att_signature = replicate 64 2,
     att_signer_public_key = replicate 32 3, att_timestamp = 1700000000000\<rparr>"

lemma wf_w_att [simp]: "wf_attestation w_att"
  by (simp add: wf_attestation_def w_att_def)

theorem attestation_wire_exact_witness: "from_cose_bytes ref_cbor (to_cose_bytes w_att) = Ok w_att"
  using attestation_wire_exact [OF ref_cbor_reads, of "to_cose_bytes w_att" w_att] by simp

text \<open>C17 (refinement of COSE): the hand-written encoder writes exactly the RFC 8949 deterministic
  encoding of the tagged \<^verbatim>\<open>COSE_Sign1\<close> value \<^verbatim>\<open>18([protected, {}, claims, signature])\<close> with the
  pinned protected header, and signs the encoding of
  \<^verbatim>\<open>["Signature1", protected, h'', claims]\<close>; the artifact has 191 to 199 bytes and the signed
  text 135 to 143.\<close>

theorem attestation_refines_cose:
  assumes "wf_attestation a"
  shows "to_cose_bytes a = cbor_encode (cose_value (att_signer_public_key a) (att_payload_hash a)
       (att_timestamp a) (att_signature a)) \<and>
    signed_bytes a = cbor_encode (sig_structure_value (cbor_encode (protected_value (att_signer_public_key a)))
       (cbor_encode (claims_value (att_payload_hash a) (att_timestamp a)))) \<and>
    191 \<le> length (to_cose_bytes a) \<and> length (to_cose_bytes a) \<le> 199 \<and>
    135 \<le> length (signed_bytes a) \<and> length (signed_bytes a) \<le> 143"
proof -
  from assms have l: "length (att_signer_public_key a) = 32" "length (att_payload_hash a) = 32"
    "length (att_signature a) = 64" by (auto simp: wf_attestation_def)
  note c = length_claims [OF l(2), of "att_timestamp a"]
  note p = length_protected [OF l(1)]
  have "signed_bytes a = cbor_encode (sig_structure_value (protected_bytes (att_signer_public_key a))
      (claims_bytes (att_payload_hash a) (att_timestamp a)))"
    unfolding signed_bytes_def using c p by (intro sig_structure_bytes_cbor) simp_all
  moreover have "length (to_cose_bytes a) = 153 + length (claims_bytes (att_payload_hash a) (att_timestamp a))"
    unfolding to_cose_bytes_def by (rule length_artifact [OF l])
  moreover have "length (signed_bytes a) = 97 + length (claims_bytes (att_payload_hash a) (att_timestamp a))"
    unfolding signed_bytes_def by (rule length_sig_structure [OF l(1,2)])
  ultimately show ?thesis
    using c artifact_bytes_cbor [OF l, of "att_timestamp a"] protected_bytes_cbor [OF l(1)]
      claims_bytes_cbor [OF l(2), of "att_timestamp a"]
    by (simp add: to_cose_bytes_def)
qed

theorem attestation_refines_cose_witness:
  "191 \<le> length (to_cose_bytes w_att) \<and> length (to_cose_bytes w_att) \<le> 199"
  using attestation_refines_cose [OF wf_w_att] by blast

text \<open>C19 (a signed attestation verifies): the bytes of an attestation made by
  \<^verbatim>\<open>sign_attestation\<close> verify against the payload it was made for, at any clock reading, and
  give back the attestation with the signer's public key, the payload's hash and that reading.\<close>

theorem signed_attestation_verifies:
  assumes "sha256_size sha" and "ed25519_signs ed" and "wf_identity ed i" and "cbor_reads rd"
  shows "verify_attestation_bytes rd sha ed (to_cose_bytes (sign_attestation sha ed now payload i)) payload
      = Ok (sign_attestation sha ed now payload i) \<and>
    att_signer_public_key (sign_attestation sha ed now payload i) = public_key_bytes i \<and>
    att_payload_hash (sign_attestation sha ed now payload i) = sha payload \<and>
    att_timestamp (sign_attestation sha ed now payload i) = now"
  using own_attestation_verifies [OF assms] by (simp add: sign_attestation_def Let_def)

theorem signed_attestation_verifies_witness:
  "verify_attestation_bytes ref_cbor ref_sha ref_ed (to_cose_bytes (sign_attestation ref_sha ref_ed 5 [1, 2, 3] w_id)) [1, 2, 3]
    = Ok (sign_attestation ref_sha ref_ed 5 [1, 2, 3] w_id)"
  using signed_attestation_verifies [OF ref_sha_size ref_ed_signs wf_w_id ref_cbor_reads, of 5 "[1, 2, 3]"] by simp

text \<open>C18 (every field is authenticated): if artifact bytes verify against a payload, they are the
  encoding of the returned attestation, its hash is that of the payload, and its signature
  verifies under its own key over bytes that determine key, hash and timestamp: an attestation
  that differs in any of them has different signed bytes.\<close>

theorem attestation_authenticated:
  assumes "cbor_reads rd" and "verify_attestation_bytes rd sha ed cose payload = Ok a"
  shows "cose = to_cose_bytes a \<and> att_payload_hash a = sha payload \<and>
    ed_verify_strict ed (att_signer_public_key a) (signed_bytes a) (att_signature a) \<and>
    (\<forall>b. wf_attestation b \<and> signed_bytes b = signed_bytes a \<longrightarrow>
       att_signer_public_key b = att_signer_public_key a \<and> att_payload_hash b = att_payload_hash a \<and>
       att_timestamp b = att_timestamp a)"
proof -
  from assms(2) have v: "from_cose_bytes rd cose = Ok a" "verify_attestation sha ed a payload = Ok ()"
    by (simp_all add: verify_attestation_bytes_Ok)
  from cose.parse_canonical [OF assms(1) v(1)] have w: "wf_attestation a" "to_cose_bytes a = cose" by auto
  from v(2) have "att_payload_hash a = sha payload"
    and "ed_verify_strict ed (att_signer_public_key a) (signed_bytes a) (att_signature a)"
    by (simp_all add: verify_attestation_Ok verify_signature_Ok)
  with w(2) signed_bytes_inj [OF _ w(1)] show ?thesis by blast
qed

theorem attestation_authenticated_witness:
  "att_payload_hash (sign_attestation ref_sha ref_ed 5 [1, 2, 3] w_id) = ref_sha [1, 2, 3] \<and>
   ed_verify_strict ref_ed w_seed (signed_bytes (sign_attestation ref_sha ref_ed 5 [1, 2, 3] w_id))
     (att_signature (sign_attestation ref_sha ref_ed 5 [1, 2, 3] w_id))"
proof -
  let ?a = "sign_attestation ref_sha ref_ed 5 [1, 2, 3] w_id"
  have "verify_attestation_bytes ref_cbor ref_sha ref_ed (to_cose_bytes ?a) [1, 2, 3] = Ok ?a"
    by (rule own_attestation_verifies [OF ref_sha_size ref_ed_signs wf_w_id ref_cbor_reads])
  from attestation_authenticated [OF ref_cbor_reads this] show ?thesis by (simp add: sign_attestation_def Let_def)
qed

text \<open>The bytes signed for an attestation begin with \<open>0x84\<close>, which no valid text does.\<close>

lemma signed_bytes_not_text:
  assumes "wf_attestation a" and "wf_str body"
  shows "signed_bytes a \<noteq> utf8_encode body"
proof
  assume eq: "signed_bytes a = utf8_encode body"
  obtain r where r: "signed_bytes a = 0x84 # r"
    using signed_bytes_head [OF assms(1)] by blast
  with eq obtain c cs where body: "body = c # cs" by (cases body) auto
  with assms(2) utf8_first_byte [of c] obtain b bs where "utf8_char c = b # bs" "unat b < 128 \<or> 192 \<le> unat b"
    by auto
  with eq r body show False by auto
qed

lemma w_att_hashed: "take 1 (ref_sha (signed_bytes (sign_attestation ref_sha ref_ed 5 [1, 2, 3] w_id))) = [225]"
  by code_simp

lemma w_body_hashed: "take 1 (ref_sha (utf8_encode (encode_body ref_b64 w_body))) = [66]"
  by code_simp

text \<open>C20 (domain separation): when an attestation and a note are both accepted under one public key, the key has signed
  two different messages, and the signature line that made the note acceptable does not carry the signature
  of the attestation, unless Ed25519 accepts one signature for both messages under that key. So a signature of the one kind
  never passes for one of the other.\<close>

theorem attestation_note_separation:
  assumes "cbor_reads rd" and "verify_attestation_bytes rd sha ed cose payload = Ok a"
    and "verify_note b64 ed nb vk = Ok body" and "vk_public_key vk = att_signer_public_key a"
    and "ed25519_binds ed (att_signer_public_key a) {signed_bytes a, utf8_encode body}"
  shows "signed_bytes a \<noteq> utf8_encode body \<and>
    (\<exists>lines sl. parse_note b64 nb = Ok (body, lines) \<and> find (candidate vk) lines = Some sl \<and>
       sl_signature sl \<noteq> att_signature a)"
proof -
  from assms(2) have v: "from_cose_bytes rd cose = Ok a" "verify_attestation sha ed a payload = Ok ()"
    by (simp_all add: verify_attestation_bytes_Ok)
  have w: "wf_attestation a" using cose.parse_canonical [OF assms(1) v(1)] by simp
  obtain lines sl where n: "parse_note b64 nb = Ok (body, lines)" "find (candidate vk) lines = Some sl"
    "ed_verify_strict ed (vk_public_key vk) (utf8_encode body) (sl_signature sl)"
    using verify_note_Ok [OF assms(3)] by (auto simp: verify_signature_Ok)
  have d: "signed_bytes a \<noteq> utf8_encode body"
    using signed_bytes_not_text [OF w] parse_note_Ok [OF n(1)] by blast
  have "sl_signature sl \<noteq> att_signature a"
  proof
    assume "sl_signature sl = att_signature a"
    moreover have "ed_verify_strict ed (att_signer_public_key a) (signed_bytes a) (att_signature a)"
      using v(2) by (simp add: verify_attestation_Ok verify_signature_Ok)
    ultimately show False using n(3) d assms(5) unfolding ed25519_binds_def assms(4) by (metis insertI1 insertI2)
  qed
  with n(1,2) d show ?thesis by blast
qed

theorem attestation_note_separation_witness:
  "\<exists>lines sl. parse_note ref_b64 (utf8_encode w_note) = Ok (encode_body ref_b64 w_body, lines) \<and>
     find (candidate w_key) lines = Some sl \<and> sl_signature sl \<noteq> att_signature (sign_attestation ref_sha ref_ed 5 [1, 2, 3] w_id)"
proof -
  let ?a = "sign_attestation ref_sha ref_ed 5 [1, 2, 3] w_id"
  have b: "verify_note ref_b64 ref_ed (utf8_encode w_note) w_key = Ok (encode_body ref_b64 w_body)"
    by (rule verify_own_note [OF ref_sha_size ref_b64_standard ref_ed_signs wf_w_id _ _ _ w_note_signed])
      (simp_all add: wf_str_encode_body ref_b64_standard, simp add: w_body_def)
  have "verify_attestation_bytes ref_cbor ref_sha ref_ed (to_cose_bytes ?a) [1, 2, 3] = Ok ?a"
    by (rule own_attestation_verifies [OF ref_sha_size ref_ed_signs wf_w_id ref_cbor_reads])
  moreover have "vk_public_key w_key = att_signer_public_key ?a"
    by (simp add: sign_attestation_def w_key_def Let_def)
  moreover have "ed25519_binds ref_ed (att_signer_public_key ?a) {signed_bytes ?a, utf8_encode (encode_body ref_b64 w_body)}"
    using w_att_hashed w_body_hashed by (auto simp: ed25519_binds_def ref_ed_def)
  ultimately show ?thesis
    using attestation_note_separation [OF ref_cbor_reads _ b] by blast
qed

end
