(* ===== verification/Seal_Model.thy ===== *)
theory Seal_Model
  imports Attestation_Model
begin

text \<open>
  \<^verbatim>\<open>lys-core/src/seal\<close>: sealed envelopes (X25519, HKDF-SHA256, AES-256-GCM) and their
  authenticated composition with an attestation, over the cryptographic crates as
  parameters. Random bytes are an argument of the operations that draw them.
\<close>

section \<open>The crates\<close>

text \<open>
  \<open>x_scalar\<close> is \<^verbatim>\<open>SigningKey::to_scalar_bytes\<close> of a seed, \<open>x_public\<close> the public key of a secret,
  \<open>x_dh\<close> the shared secret of a secret and a public key, \<open>x_contributory\<close>
  \<^verbatim>\<open>SharedSecret::was_contributory\<close>; \<open>hkdf_expand\<close> takes the input key material, the info
  and the output length. \<open>Inl\<close> is a displayed error, and a failed decryption carries nothing.
\<close>

record seal_crypto =
  x_scalar :: "bytes \<Rightarrow> bytes"
  x_public :: "bytes \<Rightarrow> bytes"
  x_dh :: "bytes \<Rightarrow> bytes \<Rightarrow> bytes"
  x_contributory :: "bytes \<Rightarrow> bool"
  hkdf_expand :: "bytes \<Rightarrow> bytes \<Rightarrow> nat \<Rightarrow> str + bytes"
  gcm_encrypt :: "bytes \<Rightarrow> bytes \<Rightarrow> bytes \<Rightarrow> str + bytes"
  gcm_decrypt :: "bytes \<Rightarrow> bytes \<Rightarrow> bytes \<Rightarrow> bytes option"

text \<open>The longest message of AES-GCM, \<open>2 ^ 39 - 256\<close> bits.\<close>

definition GCM_MAX :: nat where
  "GCM_MAX = 2 ^ 36 - 32"

definition hkdf_ok :: "seal_crypto \<Rightarrow> bool" where
  "hkdf_ok c \<longleftrightarrow>
     (\<forall>ikm info n. n \<le> 255 * 32 \<longrightarrow> (\<exists>okm. hkdf_expand c ikm info n = Inr okm \<and> length okm = n))"

text \<open>Key agreement commutes and keys have 32 bytes; encryption of a message within the limit
  succeeds, adds a 16-byte tag, and is inverted by decryption with the same key and nonce.\<close>

definition seal_crypto_ok :: "seal_crypto \<Rightarrow> bool" where
  "seal_crypto_ok c \<longleftrightarrow>
     hkdf_ok c \<and>
     (\<forall>seed. length seed = 32 \<longrightarrow> length (x_scalar c seed) = 32) \<and>
     (\<forall>s. length s = 32 \<longrightarrow> length (x_public c s) = 32) \<and>
     (\<forall>s t. length s = 32 \<longrightarrow> length t = 32 \<longrightarrow> x_dh c s (x_public c t) = x_dh c t (x_public c s)) \<and>
     (\<forall>k n m. length k = 32 \<longrightarrow> length n = 12 \<longrightarrow> length m \<le> GCM_MAX \<longrightarrow>
        (\<exists>ct. gcm_encrypt c k n m = Inr ct \<and> length ct = length m + 16 \<and> gcm_decrypt c k n ct = Some m))"

section \<open>identity.rs: X25519 keys\<close>

definition x25519_static_secret :: "seal_crypto \<Rightarrow> identity \<Rightarrow> bytes" where
  "x25519_static_secret c i = x_scalar c (signing_key i)"

definition x25519_public_key :: "seal_crypto \<Rightarrow> identity \<Rightarrow> bytes" where
  "x25519_public_key c i = x_public c (x25519_static_secret c i)"

section \<open>sealed\_envelope.rs\<close>

definition SEAL_INFO :: bytes where
  "SEAL_INFO = utf8_encode (lit ''lys-sealed-envelope/v1'')"

abbreviation (input) HKDF_OUTPUT_LEN :: nat where "HKDF_OUTPUT_LEN \<equiv> 44"
abbreviation (input) AES_KEY_LEN :: nat where "AES_KEY_LEN \<equiv> 32"
abbreviation (input) NONCE_LEN :: nat where "NONCE_LEN \<equiv> 12"

record sealed_envelope =
  se_ephemeral_public_key :: bytes
  se_ciphertext :: bytes
  se_nonce :: bytes

definition attestation_bytes :: "sealed_envelope \<Rightarrow> bytes" where
  "attestation_bytes e = se_ephemeral_public_key e @ se_ciphertext e @ se_nonce e"

definition derive_key_and_nonce ::
  "seal_crypto \<Rightarrow> bytes \<Rightarrow> bytes \<Rightarrow> bytes \<Rightarrow> (bytes \<times> bytes) trust_result" where
  "derive_key_and_nonce c shared_secret ephemeral_public_key recipient_public_key =
     (let info = SEAL_INFO @ ephemeral_public_key @ recipient_public_key in
      res_bind
        (map_err (\<lambda>e. Seal (lit ''HKDF expand failed: '' @ e))
          (of_sum (hkdf_expand c shared_secret info HKDF_OUTPUT_LEN))) (\<lambda>okm.
      res_bind (res_bind (slice_to AES_KEY_LEN okm) (copy_from_slice AES_KEY_LEN)) (\<lambda>key.
      res_bind (res_bind (slice_from AES_KEY_LEN okm) (copy_from_slice NONCE_LEN)) (\<lambda>nonce.
      Ok (key, nonce)))))"

text \<open>\<open>ephemeral_seed\<close> is the 32 random bytes that the call draws.\<close>

definition seal :: "seal_crypto \<Rightarrow> bytes \<Rightarrow> bytes \<Rightarrow> bytes \<Rightarrow> sealed_envelope trust_result" where
  "seal c ephemeral_seed payload recipient_public_key =
     (let ephemeral_secret = ephemeral_seed;
          ephemeral_public = x_public c ephemeral_secret;
          shared = x_dh c ephemeral_secret recipient_public_key in
      if \<not> x_contributory c shared
      then Err (Seal (lit ''recipient public key is a low-order point''))
      else
        res_bind (derive_key_and_nonce c shared ephemeral_public recipient_public_key) (\<lambda>(key_bytes, nonce_bytes).
        res_bind
          (map_err (\<lambda>e. Seal (lit ''AES-256-GCM encryption failed: '' @ e))
            (of_sum (gcm_encrypt c key_bytes nonce_bytes payload))) (\<lambda>ciphertext.
        Ok \<lparr>se_ephemeral_public_key = ephemeral_public, se_ciphertext = ciphertext, se_nonce = nonce_bytes\<rparr>)))"

definition open_envelope :: "seal_crypto \<Rightarrow> sealed_envelope \<Rightarrow> bytes \<Rightarrow> bytes trust_result" where
  "open_envelope c envelope recipient_private_key =
     (let ephemeral_public = se_ephemeral_public_key envelope;
          recipient_public = x_public c recipient_private_key;
          shared = x_dh c recipient_private_key ephemeral_public in
      if \<not> x_contributory c shared then Err UnsealFailed
      else
        res_bind
          (map_err (\<lambda>_. UnsealFailed)
            (derive_key_and_nonce c shared (se_ephemeral_public_key envelope) recipient_public))
          (\<lambda>(key_bytes, derived_nonce).
        ok_or UnsealFailed (gcm_decrypt c key_bytes (se_nonce envelope) (se_ciphertext envelope))))"

section \<open>authenticated.rs\<close>

definition SEALED_ENVELOPE_CONTEXT_V1 :: bytes where
  "SEALED_ENVELOPE_CONTEXT_V1 = utf8_encode (lit ''lys/sealed-envelope/v1'')"

definition contextualized_envelope_bytes :: "sealed_envelope \<Rightarrow> bytes" where
  "contextualized_envelope_bytes envelope = SEALED_ENVELOPE_CONTEXT_V1 @ attestation_bytes envelope"

definition sign_and_seal ::
  "seal_crypto \<Rightarrow> sha256 \<Rightarrow> ed25519 \<Rightarrow> bytes \<Rightarrow> i64 \<Rightarrow> bytes \<Rightarrow> identity \<Rightarrow> bytes
     \<Rightarrow> (sealed_envelope \<times> attestation) trust_result" where
  "sign_and_seal c sha ed ephemeral_seed now payload sender_identity recipient_x25519_public_key =
     res_bind (seal c ephemeral_seed payload recipient_x25519_public_key) (\<lambda>envelope.
     let attestation = sign_attestation sha ed now (contextualized_envelope_bytes envelope) sender_identity in
     Ok (envelope, attestation))"

definition open_and_verify ::
  "seal_crypto \<Rightarrow> sha256 \<Rightarrow> ed25519 \<Rightarrow> sealed_envelope \<Rightarrow> attestation \<Rightarrow> bytes \<Rightarrow> bytes \<Rightarrow> bytes trust_result" where
  "open_and_verify c sha ed envelope attestation sender_public_key recipient_x25519_secret =
     (if att_signer_public_key attestation \<noteq> sender_public_key then Err AttestationFailed
      else
        res_bind
          (map_err (\<lambda>_. AttestationFailed)
            (verify_attestation sha ed attestation (contextualized_envelope_bytes envelope))) (\<lambda>_.
        open_envelope c envelope recipient_x25519_secret))"

section \<open>Lemmas\<close>

lemma derive_key_and_nonce_Ok:
  assumes "hkdf_ok c"
  obtains k n where "derive_key_and_nonce c s e r = Ok (k, n)" and "length k = 32" and "length n = 12"
proof -
  have "44 \<le> 255 * (32 :: nat)" by simp
  with assms obtain okm where "hkdf_expand c s (SEAL_INFO @ e @ r) 44 = Inr okm" "length okm = 44"
    unfolding hkdf_ok_def by blast
  then show thesis
    by (intro that [of "take 32 okm" "drop 32 okm"]) (simp_all add: derive_key_and_nonce_def slice_defs)
qed

lemma seal_crypto_hkdf: "seal_crypto_ok c \<Longrightarrow> hkdf_ok c"
  by (simp add: seal_crypto_ok_def)

lemma gcm_roundtrip:
  "seal_crypto_ok c \<Longrightarrow> length k = 32 \<Longrightarrow> length n = 12 \<Longrightarrow> length m \<le> GCM_MAX \<Longrightarrow>
   \<exists>ct. gcm_encrypt c k n m = Inr ct \<and> length ct = length m + 16 \<and> gcm_decrypt c k n ct = Some m"
  by (simp add: seal_crypto_ok_def)

lemma open_sealed:
  assumes "seal_crypto_ok c" and "length seed = 32" and "length secret = 32" and "length payload \<le> GCM_MAX"
    and "x_contributory c (x_dh c seed (x_public c secret))"
  shows "\<exists>e. seal c seed payload (x_public c secret) = Ok e \<and> open_envelope c e secret = Ok payload \<and>
    length (se_ephemeral_public_key e) = 32 \<and> length (se_ciphertext e) = length payload + 16 \<and> length (se_nonce e) = 12"
proof -
  let ?shared = "x_dh c seed (x_public c secret)"
  have dh: "x_dh c secret (x_public c seed) = ?shared" and pk: "length (x_public c seed) = 32"
    using assms(1-3) by (auto simp: seal_crypto_ok_def)
  from derive_key_and_nonce_Ok [OF seal_crypto_hkdf [OF assms(1)], of ?shared "x_public c seed" "x_public c secret"]
  obtain k n where kn: "derive_key_and_nonce c ?shared (x_public c seed) (x_public c secret) = Ok (k, n)"
    "length k = 32" "length n = 12" .
  then obtain ct where ct: "gcm_encrypt c k n payload = Inr ct" "length ct = length payload + 16"
    "gcm_decrypt c k n ct = Some payload"
    using gcm_roundtrip [OF assms(1) _ _ assms(4)] by blast
  show ?thesis
    using assms(5) dh kn ct pk by (simp add: seal_def open_envelope_def Let_def)
qed

lemma derive_not_Panic: "hkdf_ok c \<Longrightarrow> derive_key_and_nonce c s e r \<noteq> Panic"
  by (rule derive_key_and_nonce_Ok [of c s e r]) auto

lemma open_envelope_fails [fails]: "hkdf_ok c \<Longrightarrow> fails_only UnsealFailed (open_envelope c e s)"
  unfolding open_envelope_def Let_def by (intro fails derive_not_Panic)

lemma attestation_bytes_inj:
  assumes "length (se_ephemeral_public_key e) = length (se_ephemeral_public_key f)"
    and "length (se_nonce e) = length (se_nonce f)" and "attestation_bytes e = attestation_bytes f"
  shows "e = (f :: sealed_envelope)"
  using assms by (cases e; cases f) (auto simp: attestation_bytes_def)

lemma contextualized_inj:
  "length (se_ephemeral_public_key e) = length (se_ephemeral_public_key f) \<Longrightarrow>
   length (se_nonce e) = length (se_nonce f) \<Longrightarrow>
   contextualized_envelope_bytes e = contextualized_envelope_bytes f \<Longrightarrow> e = (f :: sealed_envelope)"
  by (simp add: contextualized_envelope_bytes_def attestation_bytes_inj)

end
