(* ===== verification/Seal_Theorems.thy ===== *)
theory Seal_Theorems
  imports Seal_Model Attestation_Theorems Merkle_Theorems
begin

text \<open>
  What sealing promises: an envelope opens for its recipient, failures do not tell why, and
  the authenticated composition binds an envelope to its sender before anything is decrypted.
\<close>

section \<open>A reference instance of the crates\<close>

definition ref_seal :: seal_crypto where
  "ref_seal = \<lparr>
     x_scalar = (\<lambda>seed. seed),
     x_public = (\<lambda>s. s),
     x_dh = (\<lambda>s p. map2 (+) s p),
     x_contributory = (\<lambda>shared. shared \<noteq> replicate 32 0),
     hkdf_expand = (\<lambda>ikm info n.
       if n \<le> 255 * 32 then Inr (take n (concat (replicate n (ref_sha (ikm @ info)))))
       else Inl (lit ''invalid number of blocks, too large output'')),
     gcm_encrypt = (\<lambda>k n m. Inr (m @ take 16 (ref_sha (k @ n @ m)))),
     gcm_decrypt = (\<lambda>k n ct.
       if length ct < 16 then None
       else let m = take (length ct - 16) ct in
         if drop (length ct - 16) ct = take 16 (ref_sha (k @ n @ m)) then Some m else None)\<rparr>"

lemma ref_seal_ok [simp]: "seal_crypto_ok ref_seal"
proof -
  have "length (take n (concat (replicate n (ref_sha x)))) = n" for n x
    by (simp add: length_concat sum_list_replicate)
  moreover have "map2 (+) s t = map2 (+) t s" if "length s = length t" for s t :: bytes
    using that by (induction s t rule: list_induct2) (simp_all add: add.commute)
  ultimately show ?thesis
    by (simp add: seal_crypto_ok_def hkdf_ok_def ref_seal_def Let_def)
qed

section \<open>Lemmas\<close>

lemma verify_attestation_own:
  assumes "sha256_size sha" and "ed25519_signs ed" and "wf_identity ed i"
  shows "verify_attestation sha ed (sign_attestation sha ed now m i) m = Ok ()"
    and "att_signer_public_key (sign_attestation sha ed now m i) = public_key_bytes i"
proof -
  let ?a = "sign_attestation sha ed now m i"
  have "att_signer_public_key ?a = public_key_bytes i" "att_payload_hash ?a = sha m"
    "att_signature ?a = sign ed i (signed_bytes ?a)"
    by (simp_all add: sign_attestation_def signed_bytes_def Let_def)
  then show "verify_attestation sha ed ?a m = Ok ()" and "att_signer_public_key ?a = public_key_bytes i"
    using verify_signature_sign [OF assms(2,3)] by (simp_all add: verify_attestation_Ok)
qed

text \<open>The attestation gate that \<open>open_and_verify\<close> puts in front of the cipher.\<close>

definition sender_gate :: "sha256 \<Rightarrow> ed25519 \<Rightarrow> sealed_envelope \<Rightarrow> attestation \<Rightarrow> bytes \<Rightarrow> bool" where
  "sender_gate sha ed e a pk \<longleftrightarrow>
     att_signer_public_key a = pk \<and> sha (contextualized_envelope_bytes e) = att_payload_hash a \<and>
     verify_signature ed pk (signed_bytes a) (att_signature a) = Ok ()"

lemma open_and_verify_gate:
  "open_and_verify c sha ed e a pk s =
     (if sender_gate sha ed e a pk then open_envelope c e s else Err AttestationFailed)"
proof (cases "att_signer_public_key a = pk")
  case True
  let ?v = "verify_attestation sha ed a (contextualized_envelope_bytes e)"
  have "?v = Ok () \<longleftrightarrow> sender_gate sha ed e a pk"
    using True by (auto simp: verify_attestation_Ok sender_gate_def)
  moreover have "?v \<noteq> Panic"
    by (rule fails_only_not_Panic [OF verify_attestation_fails])
  ultimately show ?thesis
    using True by (cases ?v) (auto simp: open_and_verify_def)
next
  case False
  then show ?thesis by (simp add: open_and_verify_def sender_gate_def)
qed

section \<open>Properties\<close>

text \<open>Sealing: for every draw of the ephemeral seed, sealing a payload within the AES-GCM limit to
  an identity's X25519 public key either fails with \<^verbatim>\<open>TrustError::Seal\<close> because the key
  agreement is not contributory, or gives an envelope with a ciphertext 16 bytes longer than
  the payload, which that identity opens to exactly the payload.\<close>

lemma seal_open_roundtrip:
  assumes "seal_crypto_ok c" and "wf_identity ed i" and "length seed = 32" and "length payload \<le> GCM_MAX"
  shows "if x_contributory c (x_dh c seed (x25519_public_key c i))
    then \<exists>e. seal c seed payload (x25519_public_key c i) = Ok e \<and>
      open_envelope c e (x25519_static_secret c i) = Ok payload \<and>
      length (se_ephemeral_public_key e) = 32 \<and> length (se_ciphertext e) = length payload + 16 \<and> length (se_nonce e) = 12
    else \<exists>r. seal c seed payload (x25519_public_key c i) = Err (Seal r)"
proof -
  have "length (x25519_static_secret c i) = 32"
    using assms(1,2) by (simp add: seal_crypto_ok_def wf_identity_def x25519_static_secret_def)
  from open_sealed [OF assms(1,3) this assms(4)] show ?thesis
    by (simp add: x25519_public_key_def seal_def Let_def)
qed

text \<open>Failures of sealing: with HKDF as documented, no operation panics; sealing fails with
  \<^verbatim>\<open>TrustError::Seal\<close>, opening only with \<^verbatim>\<open>TrustError::UnsealFailed\<close>, and the authenticated
  opening only with that or \<^verbatim>\<open>TrustError::AttestationFailed\<close>, for every envelope, key and
  attestation.\<close>

lemma seal_failures:
  assumes "hkdf_ok c"
  shows "(case seal c seed payload pk of Ok e \<Rightarrow> True | Err e \<Rightarrow> \<exists>r. e = Seal r | Panic \<Rightarrow> False) \<and>
    ((\<exists>m. open_envelope c env s = Ok m) \<or> open_envelope c env s = Err UnsealFailed) \<and>
    ((\<exists>m. open_and_verify c sha ed env a sender s = Ok m) \<or> open_and_verify c sha ed env a sender s = Err UnsealFailed
       \<or> open_and_verify c sha ed env a sender s = Err AttestationFailed)"
proof -
  have "fails_only UnsealFailed (open_envelope c env s)"
    by (rule open_envelope_fails [OF assms])
  then have "(\<exists>m. open_envelope c env s = Ok m) \<or> open_envelope c env s = Err UnsealFailed"
    by (cases "open_envelope c env s") (auto simp: fails_only_def)
  moreover have "case seal c seed payload pk of Ok e \<Rightarrow> True | Err e \<Rightarrow> \<exists>r. e = Seal r | Panic \<Rightarrow> False"
  proof (rule derive_key_and_nonce_Ok [OF assms, of "x_dh c seed pk" "x_public c seed" pk])
    fix k n
    assume "derive_key_and_nonce c (x_dh c seed pk) (x_public c seed) pk = Ok (k, n)"
    then show ?thesis
      by (cases "gcm_encrypt c k n payload") (simp_all add: seal_def Let_def)
  qed
  ultimately show ?thesis
    by (auto simp: open_and_verify_gate)
qed

text \<open>Authenticated sealing: what \<^verbatim>\<open>sign_and_seal\<close> returns, \<^verbatim>\<open>open_and_verify\<close> under the
  sender's public key and the recipient's secret opens to exactly the payload.\<close>

lemma authenticated_roundtrip:
  assumes "seal_crypto_ok c" and "sha256_size sha" and "ed25519_signs ed" and "wf_identity ed sender"
    and "wf_identity ed recipient" and "length seed = 32" and "length payload \<le> GCM_MAX"
    and "sign_and_seal c sha ed seed now payload sender (x25519_public_key c recipient) = Ok (env, att)"
  shows "open_and_verify c sha ed env att (public_key_bytes sender) (x25519_static_secret c recipient) = Ok payload"
proof -
  from assms(8) have s: "seal c seed payload (x25519_public_key c recipient) = Ok env"
    "att = sign_attestation sha ed now (contextualized_envelope_bytes env) sender"
    by (auto simp: sign_and_seal_def Let_def outcome)
  then have "x_contributory c (x_dh c seed (x25519_public_key c recipient))"
    by (auto simp: seal_def Let_def split: if_splits)
  moreover have "length (x25519_static_secret c recipient) = 32"
    using assms(1,5) by (simp add: seal_crypto_ok_def wf_identity_def x25519_static_secret_def)
  ultimately have "open_envelope c env (x25519_static_secret c recipient) = Ok payload"
    using open_sealed [OF assms(1,6) _ assms(7)] s(1) by (fastforce simp: x25519_public_key_def)
  then show ?thesis
    using verify_attestation_own [OF assms(2-4)] s(2) by (simp add: open_and_verify_def)
qed

text \<open>The cipher never reports a failed attestation.\<close>

lemma open_envelope_not_attestation: "open_envelope c e s \<noteq> Err AttestationFailed"
  by (auto simp: open_envelope_def Let_def outcome split: prod.splits)

lemma open_and_verify_accepts:
  "open_and_verify c sha ed e a pk s \<noteq> Err AttestationFailed \<longleftrightarrow> sender_gate sha ed e a pk"
  using open_envelope_not_attestation by (simp add: open_and_verify_gate)

lemma tagged_envelope:
  "contextualized_envelope_bytes e =
     utf8_encode (lit ''lys/sealed-envelope/v1'') @ se_ephemeral_public_key e @ se_ciphertext e @ se_nonce e"
  by (simp add: contextualized_envelope_bytes_def SEALED_ENVELOPE_CONTEXT_V1_def attestation_bytes_def)

text \<open>C21 (the sender is bound before anything is decrypted): unless \<^verbatim>\<open>open_and_verify\<close> fails with
  \<^verbatim>\<open>AttestationFailed\<close>, the attestation names the expected sender, carries a valid signature under that key, and the hash
  in the signed claims is the one of the tag \<^verbatim>\<open>lys/sealed-envelope/v1\<close> followed by the three fields of the envelope. When it does
  fail so, it does for every secret and whatever the ciphers compute: nothing was decrypted. And one attestation is accepted
  for one envelope only, unless SHA-256 collides on the two tagged envelopes.\<close>

theorem sender_bound:
  "(open_and_verify c sha ed env att sender s \<noteq> Err AttestationFailed \<longrightarrow>
      att_signer_public_key att = sender \<and> ed_verify_strict ed sender (signed_bytes att) (att_signature att) \<and>
      att_payload_hash att =
        sha (utf8_encode (lit ''lys/sealed-envelope/v1'') @ se_ephemeral_public_key env @ se_ciphertext env @ se_nonce env)) \<and>
   (open_and_verify c sha ed env att sender s = Err AttestationFailed \<longrightarrow>
      (\<forall>c' s'. open_and_verify c' sha ed env att sender s' = Err AttestationFailed)) \<and>
   (open_and_verify c sha ed env att sender s \<noteq> Err AttestationFailed \<and>
    open_and_verify c' sha ed env' att sender' s' \<noteq> Err AttestationFailed \<and>
    length (se_ephemeral_public_key env) = 32 \<and> length (se_ephemeral_public_key env') = 32 \<and>
    length (se_nonce env) = 12 \<and> length (se_nonce env') = 12 \<and>
    collision_free sha
      {utf8_encode (lit ''lys/sealed-envelope/v1'') @ se_ephemeral_public_key env @ se_ciphertext env @ se_nonce env,
       utf8_encode (lit ''lys/sealed-envelope/v1'') @ se_ephemeral_public_key env' @ se_ciphertext env' @ se_nonce env'} \<longrightarrow>
    env = env')"
proof (intro conjI impI allI)
  show "att_signer_public_key att = sender" "ed_verify_strict ed sender (signed_bytes att) (att_signature att)"
    "att_payload_hash att =
        sha (utf8_encode (lit ''lys/sealed-envelope/v1'') @ se_ephemeral_public_key env @ se_ciphertext env @ se_nonce env)"
    if "open_and_verify c sha ed env att sender s \<noteq> Err AttestationFailed"
    using that unfolding open_and_verify_accepts sender_gate_def tagged_envelope by (auto simp: verify_signature_Ok simp del: lit_simps)
  show "open_and_verify c' sha ed env att sender s' = Err AttestationFailed"
    if "open_and_verify c sha ed env att sender s = Err AttestationFailed" for c' s'
    using that open_and_verify_accepts by blast
  assume a: "open_and_verify c sha ed env att sender s \<noteq> Err AttestationFailed \<and>
    open_and_verify c' sha ed env' att sender' s' \<noteq> Err AttestationFailed \<and>
    length (se_ephemeral_public_key env) = 32 \<and> length (se_ephemeral_public_key env') = 32 \<and>
    length (se_nonce env) = 12 \<and> length (se_nonce env') = 12 \<and>
    collision_free sha
      {utf8_encode (lit ''lys/sealed-envelope/v1'') @ se_ephemeral_public_key env @ se_ciphertext env @ se_nonce env,
       utf8_encode (lit ''lys/sealed-envelope/v1'') @ se_ephemeral_public_key env' @ se_ciphertext env' @ se_nonce env'}"
  then have "contextualized_envelope_bytes env = contextualized_envelope_bytes env'"
    unfolding open_and_verify_accepts sender_gate_def tagged_envelope [symmetric] by (metis inj_onD insertI1 insertI2)
  with a show "env = env'" by (intro contextualized_inj) simp_all
qed

definition w_env :: sealed_envelope where
  "w_env = \<lparr>se_ephemeral_public_key = w_seed, se_ciphertext = [1], se_nonce = replicate 12 2\<rparr>"

text \<open>The tagged form of the example envelope.\<close>

definition w_tagged :: bytes where
  "w_tagged = utf8_encode (lit ''lys/sealed-envelope/v1'') @ w_seed @ [1] @ replicate 12 2"

lemma w_tagged_env: "w_tagged = contextualized_envelope_bytes w_env"
  unfolding tagged_envelope by (simp add: w_tagged_def w_env_def del: lit_simps)

theorem sender_bound_witness:
  "open_and_verify ref_seal ref_sha ref_ed w_env (sign_attestation ref_sha ref_ed 5 w_tagged w_id) w_seed w_seed \<noteq> Err AttestationFailed \<and>
   att_payload_hash (sign_attestation ref_sha ref_ed 5 w_tagged w_id) = ref_sha w_tagged \<and>
   ed_verify_strict ref_ed w_seed (signed_bytes (sign_attestation ref_sha ref_ed 5 w_tagged w_id))
     (att_signature (sign_attestation ref_sha ref_ed 5 w_tagged w_id)) \<and>
   open_and_verify ref_seal ref_sha ref_ed w_env (sign_attestation ref_sha ref_ed 5 w_tagged w_id) [] [] = Err AttestationFailed"
proof (intro conjI)
  let ?a = "sign_attestation ref_sha ref_ed 5 w_tagged w_id"
  show o: "open_and_verify ref_seal ref_sha ref_ed w_env ?a w_seed w_seed \<noteq> Err AttestationFailed"
    using verify_attestation_own [OF ref_sha_size ref_ed_signs wf_w_id, of 5 w_tagged] open_envelope_not_attestation
    by (simp add: open_and_verify_def w_tagged_env)
  have t: "utf8_encode (lit ''lys/sealed-envelope/v1'') @ se_ephemeral_public_key w_env @ se_ciphertext w_env @ se_nonce w_env = w_tagged"
    unfolding w_tagged_env tagged_envelope ..
  show "att_payload_hash ?a = ref_sha w_tagged" "ed_verify_strict ref_ed w_seed (signed_bytes ?a) (att_signature ?a)"
    using sender_bound [of ref_seal ref_sha ref_ed w_env ?a w_seed w_seed, unfolded t] o by blast+
  have "att_signer_public_key ?a = w_seed" "w_seed \<noteq> []"
    using verify_attestation_own(2) [OF ref_sha_size ref_ed_signs wf_w_id] by (simp_all add: w_seed_def)
  then show "open_and_verify ref_seal ref_sha ref_ed w_env ?a [] [] = Err AttestationFailed"
    using sender_bound [of ref_seal ref_sha ref_ed w_env ?a "[]" "[]"] by metis
qed

text \<open>C22 (what the context tag separates and what not): an attestation that the sender makes with the generic
  \<^verbatim>\<open>sign_attestation\<close> over any bytes \<open>m\<close> is rejected with every envelope whose tagged form is not \<open>m\<close>, in particular when \<open>m\<close> are the
  bare bytes of the envelope, unless SHA-256 collides. But if \<open>m\<close> starts with the tag and is long enough for a key and a
  nonce, then it is accepted as the sender's attestation of the envelope that follows the tag, although the sender
  sealed nothing.\<close>

theorem generic_attestation_accepted:
  assumes "sha256_size sha" and "ed25519_signs ed" and "wf_identity ed sender"
  shows "(m \<noteq> utf8_encode (lit ''lys/sealed-envelope/v1'') @ se_ephemeral_public_key env @ se_ciphertext env @ se_nonce env \<and>
      collision_free sha
        {m, utf8_encode (lit ''lys/sealed-envelope/v1'') @ se_ephemeral_public_key env @ se_ciphertext env @ se_nonce env} \<longrightarrow>
      open_and_verify c sha ed env (sign_attestation sha ed now m sender) (public_key_bytes sender) s = Err AttestationFailed) \<and>
    (prefix (utf8_encode (lit ''lys/sealed-envelope/v1'')) m \<and> 22 + 32 + 12 \<le> length m \<longrightarrow>
      (\<exists>e. m = utf8_encode (lit ''lys/sealed-envelope/v1'') @ se_ephemeral_public_key e @ se_ciphertext e @ se_nonce e \<and>
         length (se_ephemeral_public_key e) = 32 \<and> length (se_nonce e) = 12 \<and>
         (\<forall>c s. open_and_verify c sha ed e (sign_attestation sha ed now m sender) (public_key_bytes sender) s = open_envelope c e s)))"
proof (intro conjI impI; elim conjE)
  let ?a = "sign_attestation sha ed now m sender"
  note own = verify_attestation_own [OF assms, of now m]
  have hash: "att_payload_hash ?a = sha m" using own(1) by (simp add: verify_attestation_Ok)
  show "open_and_verify c sha ed env ?a (public_key_bytes sender) s = Err AttestationFailed"
    if "m \<noteq> utf8_encode (lit ''lys/sealed-envelope/v1'') @ se_ephemeral_public_key env @ se_ciphertext env @ se_nonce env"
      "collision_free sha {m, utf8_encode (lit ''lys/sealed-envelope/v1'') @ se_ephemeral_public_key env @ se_ciphertext env @ se_nonce env}"
  proof -
    from that have "sha (contextualized_envelope_bytes env) \<noteq> sha m"
      unfolding tagged_envelope [symmetric] by (metis inj_onD insertI1 insertI2)
    then show ?thesis by (simp add: open_and_verify_gate sender_gate_def hash)
  qed
  assume "prefix (utf8_encode (lit ''lys/sealed-envelope/v1'')) m" and l: "22 + 32 + 12 \<le> length m"
  then obtain r where r: "m = utf8_encode (lit ''lys/sealed-envelope/v1'') @ r" by (auto simp: prefix_def)
  have "length (utf8_encode (lit ''lys/sealed-envelope/v1'')) = 22" by code_simp
  with l r have lr: "44 \<le> length r" by simp
  let ?e = "\<lparr>se_ephemeral_public_key = take 32 r, se_ciphertext = drop 32 (take (length r - 12) r), se_nonce = drop (length r - 12) r\<rparr>"
  have "take 32 (take (length r - 12) r) = take 32 r" using lr by simp
  then have "take 32 r @ drop 32 (take (length r - 12) r) = take (length r - 12) r"
    using append_take_drop_id [of 32 "take (length r - 12) r"] by simp
  then have "take 32 r @ drop 32 (take (length r - 12) r) @ drop (length r - 12) r = r"
    using append_take_drop_id [of "length r - 12" r] by (simp flip: append.assoc)
  then have m: "m = utf8_encode (lit ''lys/sealed-envelope/v1'') @ se_ephemeral_public_key ?e @ se_ciphertext ?e @ se_nonce ?e"
    unfolding r by (simp del: lit_simps)
  have "open_and_verify c sha ed ?e ?a (public_key_bytes sender) s = open_envelope c ?e s" for c s
    using own m [folded tagged_envelope] by (simp add: open_and_verify_def)
  moreover have "length (se_ephemeral_public_key ?e) = 32" "length (se_nonce ?e) = 12"
    using lr by simp_all
  ultimately show "\<exists>e. m = utf8_encode (lit ''lys/sealed-envelope/v1'') @ se_ephemeral_public_key e @ se_ciphertext e @ se_nonce e \<and>
         length (se_ephemeral_public_key e) = 32 \<and> length (se_nonce e) = 12 \<and>
         (\<forall>c s. open_and_verify c sha ed e ?a (public_key_bytes sender) s = open_envelope c e s)"
    using m by blast
qed

lemma w_hashes_differ: "take 1 (ref_sha (attestation_bytes w_env)) = [8]" "take 1 (ref_sha w_tagged) = [248]"
  by code_simp+

theorem generic_attestation_accepted_witness:
  "open_and_verify ref_seal ref_sha ref_ed w_env (sign_attestation ref_sha ref_ed 5 (attestation_bytes w_env) w_id) w_seed w_seed
     = Err AttestationFailed \<and>
   (\<exists>e. open_and_verify ref_seal ref_sha ref_ed e (sign_attestation ref_sha ref_ed 5 w_tagged w_id) w_seed w_seed
     = open_envelope ref_seal e w_seed)"
proof
  note g = generic_attestation_accepted [OF ref_sha_size ref_ed_signs wf_w_id, unfolded public_w_id]
  have t: "utf8_encode (lit ''lys/sealed-envelope/v1'') @ se_ephemeral_public_key w_env @ se_ciphertext w_env @ se_nonce w_env = w_tagged"
    unfolding w_tagged_env tagged_envelope ..
  have "attestation_bytes w_env \<noteq> w_tagged" "collision_free ref_sha {attestation_bytes w_env, w_tagged}"
    using w_hashes_differ by (auto simp del: lit_simps)
  then show "open_and_verify ref_seal ref_sha ref_ed w_env (sign_attestation ref_sha ref_ed 5 (attestation_bytes w_env) w_id) w_seed w_seed
     = Err AttestationFailed"
    using g [of "attestation_bytes w_env" w_env, unfolded t] by blast
  have "prefix (utf8_encode (lit ''lys/sealed-envelope/v1'')) w_tagged" "22 + 32 + 12 \<le> length w_tagged"
    by (simp add: w_tagged_def del: lit_simps, code_simp)
  then show "\<exists>e. open_and_verify ref_seal ref_sha ref_ed e (sign_attestation ref_sha ref_ed 5 w_tagged w_id) w_seed w_seed
     = open_envelope ref_seal e w_seed"
    using g [of w_tagged] by blast
qed

end
