(* ===== verification/Os_Model.thy ===== *)
theory Os_Model
  imports Errors "HOL-Library.AList"
begin

text \<open>
  The part of the standard library that touches the outside: paths, the file system, the
  output streams. A program is a tree of system calls (\<open>prog\<close>), each of which a world answers
  (\<open>exec\<close>); a world carries the failures that the operating system will inject (\<open>faults\<close>), so
  every call has its error branch. \<open>run\<close> executes a program alone; a crash is a program that
  stops after some of its calls (\<open>reaches\<close>); concurrent processes take turns call by call.
  A call is one operation of \<^verbatim>\<open>std::fs\<close> or of an output stream, such as reading a whole file or listing a directory,
  which may take several calls of the kernel.
  Names are taken as they are written: spellings of one file through \<^verbatim>\<open>.\<close>, \<^verbatim>\<open>..\<close> or
  symbolic links are not identified.
\<close>

unbundle bit_operations_syntax

section \<open>Paths\<close>

text \<open>An \<^verbatim>\<open>OsStr\<close>: text, or bytes that are not UTF-8 with their lossy rendering.\<close>

datatype os_str = Uni str | Non_utf8 bytes str

primrec to_string_lossy :: "os_str \<Rightarrow> str" where
  "to_string_lossy (Uni s) = s"
| "to_string_lossy (Non_utf8 b s) = s"

text \<open>\<^verbatim>\<open>OsString::push\<close> of ASCII text.\<close>

primrec os_push :: "os_str \<Rightarrow> str \<Rightarrow> os_str" where
  "os_push (Uni s) t = Uni (s @ t)"
| "os_push (Non_utf8 b s) t = Non_utf8 (b @ utf8_encode t) (s @ t)"

text \<open>A path is the list that \<^verbatim>\<open>Path::components\<close> gives.\<close>

datatype component = RootDir | CurDir | ParentDir | Normal os_str

type_synonym path = "component list"

definition file_name :: "path \<Rightarrow> os_str option" where
  "file_name p = (case rev p of Normal n # _ \<Rightarrow> Some n | _ \<Rightarrow> None)"

definition parent :: "path \<Rightarrow> path option" where
  "parent p = (case rev p of [] \<Rightarrow> None | RootDir # _ \<Rightarrow> None | _ # q \<Rightarrow> Some (rev q))"

text \<open>\<^verbatim>\<open>Path::join\<close> with a name that has no separator.\<close>

definition path_join :: "path \<Rightarrow> os_str \<Rightarrow> path" where
  "path_join p n = p @ [Normal n]"

fun component_text :: "component \<Rightarrow> str" where
  "component_text RootDir = []"
| "component_text CurDir = lit ''.''"
| "component_text ParentDir = lit ''..''"
| "component_text (Normal n) = to_string_lossy n"

definition display_path :: "path \<Rightarrow> str" where
  "display_path p = (if p = [RootDir] then lit ''/'' else join 47 (map component_text p))"

lemma file_name_Some: "file_name p = Some n \<longleftrightarrow> (\<exists>q. p = q @ [Normal n])"
  by (cases p rule: rev_cases) (auto simp: file_name_def split: component.splits)

lemma file_name_snoc [simp]: "file_name (q @ [Normal n]) = Some n"
  by (simp add: file_name_Some)

lemma parent_snoc [simp]: "parent (q @ [Normal n]) = Some q"
  by (simp add: parent_def)

section \<open>Worlds\<close>

datatype io_kind = NotFound | AlreadyExists | PermissionDenied | IsADirectory | NotADirectory | InvalidData | OtherKind

record io_error =
  io_kind :: io_kind
  io_text :: str

text \<open>What the operating system does with a call: carry it out, or fail after \<open>n\<close> units of work.\<close>

datatype choice = Run | Fail io_error nat

record inode =
  data :: bytes
  mode :: u32

datatype entry = Dir u32 | File nat

record world =
  entries :: "(path \<times> entry) list"
  inodes :: "nat \<Rightarrow> inode"
  next_inode :: nat
  umask :: u32
  dir_len :: nat
  tmp_counter :: "u32 \<Rightarrow> u64"
  faults :: "nat \<Rightarrow> choice"
  stdout :: "str list"
  stderr :: "str list"
  traces :: "str list"

abbreviation lookup :: "world \<Rightarrow> path \<Rightarrow> entry option" where
  "lookup w \<equiv> map_of (entries w)"

definition calm :: "world \<Rightarrow> bool" where
  "calm w \<longleftrightarrow> faults w = (\<lambda>_. Run)"

definition pop_fault :: "world \<Rightarrow> world" where
  "pop_fault w = w\<lparr>faults := \<lambda>n. faults w (Suc n)\<rparr>"

definition is_dir :: "world \<Rightarrow> path \<Rightarrow> bool" where
  "is_dir w p \<longleftrightarrow> p \<in> {[], [RootDir], [CurDir]} \<or> (case lookup w p of Some (Dir _) \<Rightarrow> True | _ \<Rightarrow> False)"

text \<open>The content of a regular file.\<close>

definition content :: "world \<Rightarrow> path \<Rightarrow> bytes option" where
  "content w p = (case lookup w p of Some (File i) \<Rightarrow> Some (data (inodes w i)) | _ \<Rightarrow> None)"

section \<open>System calls\<close>

datatype syscall =
    Exists path
  | Is_file path
  | Stat path
  | Read_file path
  | Create_dir_all path
  | Open_write bool u32 path
  | Write_all nat bytes
  | Set_mode path u32
  | Hard_link path path
  | Rename path path
  | Remove_file path
  | Read_dir path
  | Fetch_tmp u32
  | Println str
  | Eprintln str
  | Trace str

datatype reply =
    R_unit
  | R_err io_error
  | R_bool bool
  | R_stat u32 nat
  | R_bytes bytes
  | R_handle nat
  | R_names "(io_error + os_str) list"
  | R_u64 u64

definition io :: "io_kind \<Rightarrow> string \<Rightarrow> reply" where
  "io k s = R_err \<lparr>io_kind = k, io_text = lit s\<rparr>"

definition ENOENT :: reply where "ENOENT = io NotFound ''No such file or directory (os error 2)''"
definition EEXIST :: reply where "EEXIST = io AlreadyExists ''File exists (os error 17)''"
definition EISDIR :: reply where "EISDIR = io IsADirectory ''Is a directory (os error 21)''"
definition ENOTDIR :: reply where "ENOTDIR = io NotADirectory ''Not a directory (os error 20)''"
definition EPERM :: reply where "EPERM = io PermissionDenied ''Operation not permitted (os error 1)''"

lemmas errno = ENOENT_def EEXIST_def EISDIR_def ENOTDIR_def EPERM_def io_def

definition set_entry :: "path \<Rightarrow> entry \<Rightarrow> world \<Rightarrow> world" where
  "set_entry p e w = w\<lparr>entries := AList.update p e (entries w)\<rparr>"

definition del_entry :: "path \<Rightarrow> world \<Rightarrow> world" where
  "del_entry p w = w\<lparr>entries := AList.delete p (entries w)\<rparr>"

definition set_inode :: "nat \<Rightarrow> inode \<Rightarrow> world \<Rightarrow> world" where
  "set_inode i n w = w\<lparr>inodes := (inodes w)(i := n)\<rparr>"

text \<open>A write at the start of a file that has just been truncated or created.\<close>

definition write_data :: "nat \<Rightarrow> bytes \<Rightarrow> world \<Rightarrow> world" where
  "write_data i b w = set_inode i ((inodes w i)\<lparr>data := b @ drop (length b) (data (inodes w i))\<rparr>) w"

text \<open>Permission bits are written in decimal: 511, 493, 438 and 384 are the octal modes 777, 755,
  666 and 600, and 63 is the mask 077.

  \<^verbatim>\<open>DirBuilder::create\<close> with \<^verbatim>\<open>recursive(true)\<close>: the missing ancestors from the top.\<close>

definition ancestors :: "path \<Rightarrow> path list" where
  "ancestors p = map (\<lambda>n. take n p) [1 ..< Suc (length p)]"

fun make_dirs :: "path list \<Rightarrow> world \<Rightarrow> reply \<times> world" where
  "make_dirs [] w = (R_unit, w)"
| "make_dirs (p # ps) w =
     (if is_dir w p then make_dirs ps w
      else case lookup w p of
        Some _ \<Rightarrow> (if ps = [] then EEXIST else ENOTDIR, w)
      | None \<Rightarrow> make_dirs ps (set_entry p (Dir (511 AND NOT (umask w))) w))"

definition open_write :: "bool \<Rightarrow> u32 \<Rightarrow> path \<Rightarrow> world \<Rightarrow> reply \<times> world" where
  "open_write new m p w =
     (case lookup w p of
        Some (Dir _) \<Rightarrow> (if new then EEXIST else EISDIR, w)
      | Some (File i) \<Rightarrow>
          if new then (EEXIST, w) else (R_handle i, set_inode i ((inodes w i)\<lparr>data := []\<rparr>) w)
      | None \<Rightarrow>
          if is_dir w p then (if new then EEXIST else EISDIR, w)
          else if \<not> is_dir w (butlast p) then (ENOENT, w)
          else (R_handle (next_inode w),
                (set_entry p (File (next_inode w))
                  (set_inode (next_inode w) \<lparr>data = [], mode = m AND NOT (umask w)\<rparr> w))
                \<lparr>next_inode := Suc (next_inode w)\<rparr>))"

definition names_in :: "world \<Rightarrow> path \<Rightarrow> os_str list" where
  "names_in w d = List.map_filter
     (\<lambda>(p, _). case file_name p of Some n \<Rightarrow> if p = path_join d n then Some n else None | None \<Rightarrow> None)
     (entries w)"

fun perform :: "syscall \<Rightarrow> world \<Rightarrow> reply \<times> world" where
  "perform (Exists p) w = (R_bool (is_dir w p \<or> lookup w p \<noteq> None), w)"
| "perform (Is_file p) w = (R_bool (case lookup w p of Some (File _) \<Rightarrow> True | _ \<Rightarrow> False), w)"
| "perform (Stat p) w =
     (case lookup w p of
        Some (File i) \<Rightarrow> R_stat (mode (inodes w i)) (length (data (inodes w i)))
      | Some (Dir m) \<Rightarrow> R_stat m (dir_len w)
      | None \<Rightarrow> if is_dir w p then R_stat 493 (dir_len w) else ENOENT, w)"
| "perform (Read_file p) w =
     (case lookup w p of
        Some (File i) \<Rightarrow> R_bytes (data (inodes w i))
      | Some (Dir _) \<Rightarrow> EISDIR
      | None \<Rightarrow> if is_dir w p then EISDIR else ENOENT, w)"
| "perform (Create_dir_all p) w = make_dirs (ancestors p) w"
| "perform (Open_write new m p) w = open_write new m p w"
| "perform (Write_all i b) w = (R_unit, write_data i b w)"
| "perform (Set_mode p m) w =
     (case lookup w p of
        Some (File i) \<Rightarrow> (R_unit, set_inode i ((inodes w i)\<lparr>mode := m\<rparr>) w)
      | Some (Dir _) \<Rightarrow> (R_unit, set_entry p (Dir m) w)
      | None \<Rightarrow> (if is_dir w p then EPERM else ENOENT, w))"
| "perform (Hard_link a b) w =
     (case lookup w a of
        Some (File i) \<Rightarrow>
          if is_dir w b \<or> lookup w b \<noteq> None then (EEXIST, w)
          else if \<not> is_dir w (butlast b) then (ENOENT, w)
          else (R_unit, set_entry b (File i) w)
      | Some (Dir _) \<Rightarrow> (EPERM, w)
      | None \<Rightarrow> (if is_dir w a then EPERM else ENOENT, w))"
| "perform (Rename a b) w =
     (case lookup w a of
        Some (File i) \<Rightarrow>
          if is_dir w b then (EISDIR, w)
          else if \<not> is_dir w (butlast b) then (ENOENT, w)
          else (R_unit, if a = b then w else set_entry b (File i) (del_entry a w))
      | Some (Dir _) \<Rightarrow> (EPERM, w)
      | None \<Rightarrow> (if is_dir w a then EPERM else ENOENT, w))"
| "perform (Remove_file p) w =
     (case lookup w p of
        Some (File i) \<Rightarrow> (R_unit, del_entry p w)
      | Some (Dir _) \<Rightarrow> (EISDIR, w)
      | None \<Rightarrow> (if is_dir w p then EISDIR else ENOENT, w))"
| "perform (Read_dir p) w =
     (if is_dir w p then R_names (map Inr (names_in w p))
      else if lookup w p = None then ENOENT else ENOTDIR, w)"
| "perform (Fetch_tmp pid) w =
     (R_u64 (tmp_counter w pid), w\<lparr>tmp_counter := (tmp_counter w)(pid := tmp_counter w pid + 1)\<rparr>)"
| "perform (Println s) w = (R_unit, w\<lparr>stdout := stdout w @ [s]\<rparr>)"
| "perform (Eprintln s) w = (R_unit, w\<lparr>stderr := stderr w @ [s]\<rparr>)"
| "perform (Trace s) w = (R_unit, w\<lparr>traces := traces w @ [s]\<rparr>)"

text \<open>
  An injected failure. A write stops after some of the bytes, a recursive creation after some
  of the directories, a directory listing after some of the names; the existence tests answer
  \<open>False\<close>, as the standard library does; the counter and the tracing macros cannot fail. Other
  calls fail without an effect.
\<close>

fun perform_fail :: "io_error \<Rightarrow> nat \<Rightarrow> syscall \<Rightarrow> world \<Rightarrow> reply \<times> world" where
  "perform_fail e n (Exists p) w = (R_bool False, w)"
| "perform_fail e n (Is_file p) w = (R_bool False, w)"
| "perform_fail e n (Create_dir_all p) w = (R_err e, snd (make_dirs (take n (ancestors p)) w))"
| "perform_fail e n (Write_all i b) w = (R_err e, write_data i (take n b) w)"
| "perform_fail e n (Read_dir p) w =
     (if is_dir w p \<and> 0 < n then R_names (map Inr (take (n - 1) (names_in w p)) @ [Inl e]) else R_err e, w)"
| "perform_fail e n (Fetch_tmp pid) w = perform (Fetch_tmp pid) w"
| "perform_fail e n (Trace s) w = perform (Trace s) w"
| "perform_fail e n c w = (R_err e, w)"

definition exec :: "syscall \<Rightarrow> world \<Rightarrow> reply \<times> world" where
  "exec c w = (case faults w 0 of Run \<Rightarrow> perform c (pop_fault w) | Fail e n \<Rightarrow> perform_fail e n c (pop_fault w))"

section \<open>Programs\<close>

datatype 'a prog = Ret 'a | Call syscall "reply \<Rightarrow> 'a prog"

primrec run :: "'a prog \<Rightarrow> world \<Rightarrow> 'a \<times> world" where
  "run (Ret x) w = (x, w)"
| "run (Call c k) w = run (k (fst (exec c w))) (snd (exec c w))"

primrec pbind :: "'a prog \<Rightarrow> ('a \<Rightarrow> 'b prog) \<Rightarrow> 'b prog" where
  "pbind (Ret x) f = f x"
| "pbind (Call c k) f = Call c (\<lambda>r. pbind (k r) f)"

text \<open>The states that a program passes through: where it is if it is killed after a call.\<close>

inductive reaches :: "'a prog \<Rightarrow> world \<Rightarrow> 'a prog \<Rightarrow> world \<Rightarrow> bool" where
  reaches_refl: "reaches p w p w"
| reaches_call: "exec c w = (r, w') \<Longrightarrow> reaches (k r) w' p v \<Longrightarrow> reaches (Call c k) w p v"

text \<open>Sequencing of fallible programs: \<^verbatim>\<open>?\<close>.\<close>

definition rbind :: "('e, 'a) result prog \<Rightarrow> ('a \<Rightarrow> ('e, 'b) result prog) \<Rightarrow> ('e, 'b) result prog" where
  "rbind p f = pbind p (\<lambda>r. case r of Ok x \<Rightarrow> f x | Err e \<Rightarrow> Ret (Err e) | Panic \<Rightarrow> Ret Panic)"

definition perr :: "('e \<Rightarrow> 'f) \<Rightarrow> ('e, 'a) result prog \<Rightarrow> ('f, 'a) result prog" where
  "perr g p = pbind p (\<lambda>r. Ret (map_err g r))"

section \<open>The standard library over system calls\<close>

type_synonym 'a io_result = "(io_error, 'a) result"

definition fs_unit :: "syscall \<Rightarrow> unit io_result prog" where
  "fs_unit c = Call c (\<lambda>r. Ret (case r of R_unit \<Rightarrow> Ok () | R_err e \<Rightarrow> Err e | _ \<Rightarrow> Panic))"

definition fs_bool :: "syscall \<Rightarrow> bool prog" where
  "fs_bool c = Call c (\<lambda>r. Ret (case r of R_bool b \<Rightarrow> b | _ \<Rightarrow> False))"

definition fs_read :: "path \<Rightarrow> bytes io_result prog" where
  "fs_read p = Call (Read_file p) (\<lambda>r. Ret (case r of R_bytes b \<Rightarrow> Ok b | R_err e \<Rightarrow> Err e | _ \<Rightarrow> Panic))"

definition fs_metadata :: "path \<Rightarrow> (u32 \<times> nat) io_result prog" where
  "fs_metadata p = Call (Stat p) (\<lambda>r. Ret (case r of R_stat m l \<Rightarrow> Ok (m, l) | R_err e \<Rightarrow> Err e | _ \<Rightarrow> Panic))"

definition fs_open :: "bool \<Rightarrow> u32 \<Rightarrow> path \<Rightarrow> nat io_result prog" where
  "fs_open new m p =
     Call (Open_write new m p) (\<lambda>r. Ret (case r of R_handle i \<Rightarrow> Ok i | R_err e \<Rightarrow> Err e | _ \<Rightarrow> Panic))"

definition fs_read_dir :: "path \<Rightarrow> (io_error + os_str) list io_result prog" where
  "fs_read_dir p = Call (Read_dir p) (\<lambda>r. Ret (case r of R_names ns \<Rightarrow> Ok ns | R_err e \<Rightarrow> Err e | _ \<Rightarrow> Panic))"

definition fetch_add :: "u32 \<Rightarrow> u64 prog" where
  "fetch_add pid = Call (Fetch_tmp pid) (\<lambda>r. Ret (case r of R_u64 u \<Rightarrow> u | _ \<Rightarrow> 0))"

definition trace :: "str \<Rightarrow> unit prog" where
  "trace s = Call (Trace s) (\<lambda>_. Ret ())"

text \<open>\<^verbatim>\<open>std::fs::write\<close>: create or truncate, then write.\<close>

definition fs_write :: "path \<Rightarrow> bytes \<Rightarrow> unit io_result prog" where
  "fs_write p b = rbind (fs_open False 438 p) (\<lambda>h. fs_unit (Write_all h b))"

text \<open>\<^verbatim>\<open>println!\<close> and \<^verbatim>\<open>eprintln!\<close> panic when the stream cannot be written.\<close>

definition println :: "str \<Rightarrow> ('e, unit) result prog" where
  "println s = Call (Println s) (\<lambda>r. Ret (case r of R_unit \<Rightarrow> Ok () | _ \<Rightarrow> Panic))"

definition eprintln :: "str \<Rightarrow> ('e, unit) result prog" where
  "eprintln s = Call (Eprintln s) (\<lambda>r. Ret (case r of R_unit \<Rightarrow> Ok () | _ \<Rightarrow> Panic))"

lemmas fs_defs = fs_unit_def fs_bool_def fs_read_def fs_metadata_def fs_open_def fs_read_dir_def
  fetch_add_def trace_def println_def eprintln_def

section \<open>Lemmas on programs\<close>

named_theorems prog_simps

lemma run_pbind [prog_simps]: "run (pbind p f) w = (case run p w of (x, w') \<Rightarrow> run (f x) w')"
  by (induction p arbitrary: w) auto

lemma pbind_assoc: "pbind (pbind p f) g = pbind p (\<lambda>x. pbind (f x) g)"
  by (induction p) auto

lemma run_rbind [prog_simps]:
  "run (rbind p f) w = (case run p w of (Ok x, w') \<Rightarrow> run (f x) w' | (Err e, w') \<Rightarrow> (Err e, w') | (Panic, w') \<Rightarrow> (Panic, w'))"
  by (auto simp: rbind_def run_pbind split: prod.splits result.splits)

lemma run_perr [prog_simps]: "run (perr g p) w = (case run p w of (r, w') \<Rightarrow> (map_err g r, w'))"
  by (simp add: perr_def run_pbind)

lemma exec_calm: "calm w \<Longrightarrow> exec c w = perform c w"
proof -
  assume c: "calm w"
  then have "pop_fault w = w" by (simp add: pop_fault_def calm_def)
  with c show ?thesis by (simp add: exec_def calm_def)
qed

lemma lookup_set_entry [simp]: "lookup (set_entry p e w) = (lookup w)(p \<mapsto> e)"
  by (simp add: set_entry_def update_conv')

lemma lookup_del_entry [simp]: "lookup (del_entry p w) = (lookup w)(p := None)"
  by (simp add: del_entry_def delete_conv')

lemma world_ops_frame [simp]:
  "inodes (set_entry p e w) = inodes w" "inodes (del_entry p w) = inodes w"
  "next_inode (set_entry p e w) = next_inode w" "next_inode (del_entry p w) = next_inode w"
  "next_inode (set_inode i x w) = next_inode w" "next_inode (write_data i b w) = next_inode w"
  "entries (set_inode i x w) = entries w" "entries (write_data i b w) = entries w"
  "inodes (set_inode i x w) = (inodes w)(i := x)"
  "entries (pop_fault w) = entries w" "inodes (pop_fault w) = inodes w" "next_inode (pop_fault w) = next_inode w"
  "faults (set_entry p e w) = faults w" "faults (del_entry p w) = faults w"
  "faults (set_inode i x w) = faults w" "faults (write_data i b w) = faults w"
  by (simp_all add: set_entry_def del_entry_def set_inode_def write_data_def pop_fault_def)

lemma calm_pop [simp]: "calm w \<Longrightarrow> calm (pop_fault w)"
  by (simp add: calm_def pop_fault_def)

lemma reaches_run: "reaches p w (Ret (fst (run p w))) (snd (run p w))"
proof (induction p arbitrary: w)
  case (Ret x)
  then show ?case by (simp add: reaches_refl)
next
  case (Call c k)
  then show ?case by (cases "exec c w") (auto intro: reaches_call)
qed

section \<open>Creating directories\<close>

lemma make_dirs_frame:
  "snd (make_dirs ps w) = w\<lparr>entries := entries (snd (make_dirs ps w))\<rparr>"
  by (induction ps w rule: make_dirs.induct) (auto simp: set_entry_def split: option.splits)

lemma make_dirs_lookup:
  "lookup (snd (make_dirs ps w)) p = lookup w p \<or>
   (p \<in> set ps \<and> lookup w p = None \<and> (\<exists>m. lookup (snd (make_dirs ps w)) p = Some (Dir m)))"
proof (induction ps w rule: make_dirs.induct)
  case (2 d ps w)
  show ?case
  proof (cases "is_dir w d")
    case True
    then show ?thesis using "2.IH"(1) by auto
  next
    case False
    then show ?thesis
      using "2.IH"(2) by (cases "lookup w d") (auto split: if_splits)
  qed
qed simp

lemma make_dirs_dir: "is_dir w d \<Longrightarrow> is_dir (snd (make_dirs ps w)) d"
  using make_dirs_lookup [of ps w d] by (auto simp: is_dir_def split: option.splits entry.splits)

lemma make_dirs_ok:
  "(\<And>p i. p \<in> set ps \<Longrightarrow> lookup w p \<noteq> Some (File i)) \<Longrightarrow>
   fst (make_dirs ps w) = R_unit \<and> (\<forall>p \<in> set ps. is_dir (snd (make_dirs ps w)) p)"
proof (induction ps w rule: make_dirs.induct)
  case (2 d ps w)
  show ?case
  proof (cases "is_dir w d")
    case True
    then show ?thesis using "2.IH"(1) "2.prems" make_dirs_dir [OF True, of ps] by auto
  next
    case False
    have "lookup w d = None"
    proof (cases "lookup w d")
      case (Some e)
      then show ?thesis using False "2.prems" [of d] by (cases e) (auto simp: is_dir_def)
    qed
    moreover from this have "is_dir (set_entry d (Dir (511 AND NOT (umask w))) w) d"
      by (simp add: is_dir_def)
    ultimately show ?thesis
      using False "2.IH"(2) "2.prems" make_dirs_dir by auto
  qed
qed simp

lemma ancestors_length: "p \<in> set (ancestors q) \<Longrightarrow> length p \<le> length q"
  by (auto simp: ancestors_def)

lemma ancestors_self: "q \<noteq> [] \<Longrightarrow> q \<in> set (ancestors q)"
  by (cases q) (auto simp: ancestors_def image_def intro!: bexI [of _ "length q"])

lemma make_dirs_fields:
  "inodes (snd (make_dirs ps w)) = inodes w" "next_inode (snd (make_dirs ps w)) = next_inode w"
  "faults (snd (make_dirs ps w)) = faults w"
  by (subst make_dirs_frame, simp)+

section \<open>Replies have the shape of the call\<close>

fun reply_ok :: "syscall \<Rightarrow> reply \<Rightarrow> bool" where
  "reply_ok (Exists p) r = (\<exists>b. r = R_bool b)"
| "reply_ok (Is_file p) r = (\<exists>b. r = R_bool b)"
| "reply_ok (Stat p) r = ((\<exists>m l. r = R_stat m l) \<or> (\<exists>e. r = R_err e))"
| "reply_ok (Read_file p) r = ((\<exists>b. r = R_bytes b) \<or> (\<exists>e. r = R_err e))"
| "reply_ok (Open_write n m p) r = ((\<exists>i. r = R_handle i) \<or> (\<exists>e. r = R_err e))"
| "reply_ok (Read_dir p) r = ((\<exists>ns. r = R_names ns) \<or> (\<exists>e. r = R_err e))"
| "reply_ok (Fetch_tmp p) r = (\<exists>u. r = R_u64 u)"
| "reply_ok (Trace s) r = (r = R_unit)"
| "reply_ok c r = (r = R_unit \<or> (\<exists>e. r = R_err e))"

lemma make_dirs_reply: "fst (make_dirs ps v) = R_unit \<or> (\<exists>x. fst (make_dirs ps v) = R_err x)"
  by (induction ps v rule: make_dirs.induct) (auto simp: errno split: option.splits)

lemma perform_reply: "reply_ok c (fst (perform c w))" "reply_ok c (fst (perform_fail e n c w))"
  using make_dirs_reply
  by (cases c; auto simp: errno open_write_def split: option.splits entry.splits)+

lemma exec_reply: "reply_ok c (fst (exec c w))"
  by (simp add: exec_def perform_reply split: choice.splits)

text \<open>Every value that a program can return, whatever the world and the other processes do.\<close>

primrec yields :: "('a \<Rightarrow> bool) \<Rightarrow> 'a prog \<Rightarrow> bool" where
  "yields P (Ret x) = P x"
| "yields P (Call c k) = (\<forall>r. reply_ok c r \<longrightarrow> yields P (k r))"

lemma yields_run: "yields P p \<Longrightarrow> P (fst (run p w))"
  by (induction p arbitrary: w) (auto simp: exec_reply)

lemma yields_pbind: "yields R p \<Longrightarrow> (\<And>x. R x \<Longrightarrow> yields P (f x)) \<Longrightarrow> yields P (pbind p f)"
  by (induction p) auto

lemma yields_mono: "yields R p \<Longrightarrow> (\<And>x. R x \<Longrightarrow> P x) \<Longrightarrow> yields P p"
  by (induction p) auto

lemma yields_True: "yields (\<lambda>_. True) p"
  by (induction p) auto

text \<open>No panic, and values and errors of a given kind.\<close>

fun good :: "('a \<Rightarrow> bool) \<Rightarrow> ('e \<Rightarrow> bool) \<Rightarrow> ('e, 'a) result \<Rightarrow> bool" where
  "good P E (Ok x) = P x"
| "good P E (Err e) = E e"
| "good P E Panic = False"

abbreviation any :: "'a \<Rightarrow> bool" where
  "any \<equiv> \<lambda>_. True"

lemma good_bind: "good R E r \<Longrightarrow> (\<And>x. R x \<Longrightarrow> good P E (f x)) \<Longrightarrow> good P E (res_bind r f)"
  by (cases r) auto

lemma good_map_err: "good P any r \<Longrightarrow> (\<And>e. E (g e)) \<Longrightarrow> good P E (map_err g r)"
  by (cases r) auto

lemma good_ok_or: "E e \<Longrightarrow> good any E (ok_or e r)"
  by (cases r) auto

lemma good_of_sum: "good any any (of_sum r)"
  by (cases r) auto

lemma good_mono: "good P E r \<Longrightarrow> (\<And>x. P x \<Longrightarrow> Q x) \<Longrightarrow> (\<And>e. E e \<Longrightarrow> F e) \<Longrightarrow> good Q F r"
  by (cases r) auto

lemma good_rbind:
  "yields (good R E) p \<Longrightarrow> (\<And>x. R x \<Longrightarrow> yields (good P E) (f x)) \<Longrightarrow> yields (good P E) (rbind p f)"
  unfolding rbind_def by (erule yields_pbind) (auto elim!: good.elims)

lemma good_perr: "yields (good P any) p \<Longrightarrow> (\<And>e. E (g e)) \<Longrightarrow> yields (good P E) (perr g p)"
  unfolding perr_def by (erule yields_pbind) (auto elim!: good.elims)

lemma good_fs:
  "yields (good any any) (fs_read p)" "yields (good any any) (fs_metadata p)"
  "yields (good any any) (fs_open n m p)" "yields (good any any) (fs_read_dir p)"
  by (auto simp: fs_defs)

lemma good_fs_unit:
  "yields (good any any) (fs_unit (Create_dir_all p))" "yields (good any any) (fs_unit (Write_all i b))"
  "yields (good any any) (fs_unit (Set_mode p m))" "yields (good any any) (fs_unit (Hard_link p q))"
  "yields (good any any) (fs_unit (Rename p q))" "yields (good any any) (fs_unit (Remove_file p))"
  by (auto simp: fs_defs)

end
