(* ===== verification/Interference.thy ===== *)
theory Interference
  imports Os_Model
begin

text \<open>
  Concurrent programs over one world: the interleaving semantics and a rely-guarantee rule for
  it. A thread may draw one token by a call (a unique name, here); \<open>rely T\<close> is what a thread
  that holds \<open>T\<close> expects of the others, and every call must keep \<open>rely U\<close> for every other
  holder.
\<close>

section \<open>Interleaving\<close>

text \<open>A system is a world and the rest of each thread's program; one call is one step.\<close>

inductive sys_step :: "world \<times> 'a prog list \<Rightarrow> world \<times> 'a prog list \<Rightarrow> bool" where
  sys_stepI: "i < length ps \<Longrightarrow> ps ! i = Call c k \<Longrightarrow> exec c w = (r, w') \<Longrightarrow> sys_step (w, ps) (w', ps[i := k r])"

inductive_cases sys_stepE: "sys_step (w, ps) s'"

text \<open>Reachability in a given number of steps.\<close>

inductive sys_steps :: "nat \<Rightarrow> world \<times> 'a prog list \<Rightarrow> world \<times> 'a prog list \<Rightarrow> bool" where
  sys_steps_0: "sys_steps 0 s s"
| sys_steps_Suc: "sys_steps n s s' \<Longrightarrow> sys_step s' s'' \<Longrightarrow> sys_steps (Suc n) s s''"

primrec finished :: "'a prog \<Rightarrow> bool" where
  "finished (Ret x) = True"
| "finished (Call c k) = False"

lemma finished_iff: "finished p \<longleftrightarrow> (\<exists>x. p = Ret x)"
  by (cases p) auto

lemma sys_step_length: "sys_step s s' \<Longrightarrow> length (snd s') = length (snd s)"
  by (induction rule: sys_step.induct) simp

lemma sys_steps_length: "sys_steps n s s' \<Longrightarrow> length (snd s') = length (snd s)"
  by (induction rule: sys_steps.induct) (simp_all add: sys_step_length)

text \<open>A system with an unfinished thread can move: calls never block.\<close>

lemma sys_progress: "i < length ps \<Longrightarrow> \<not> finished (ps ! i) \<Longrightarrow> \<exists>s'. sys_step (w, ps) s'"
  by (cases "ps ! i"; cases "exec (case ps ! i of Call c k \<Rightarrow> c) w") (auto intro: sys_stepI)

text \<open>An executable scheduler: the threads that take a step, in order.\<close>

fun sys_run :: "nat list \<Rightarrow> world \<times> 'a prog list \<Rightarrow> world \<times> 'a prog list" where
  "sys_run [] s = s"
| "sys_run (i # is) s = (case snd s ! i of
     Ret x \<Rightarrow> sys_run is s
   | Call c k \<Rightarrow> (case exec c (fst s) of (r, w) \<Rightarrow> sys_run is (w, (snd s)[i := k r])))"

lemma sys_steps_first: "sys_steps n s' s'' \<Longrightarrow> sys_step s s' \<Longrightarrow> sys_steps (Suc n) s s''"
  by (induction rule: sys_steps.induct) (auto intro: sys_steps.intros)

lemma sys_run_steps: "list_all (\<lambda>i. i < length (snd s)) is \<Longrightarrow> \<exists>n. sys_steps n s (sys_run is s)"
proof (induction "is" s rule: sys_run.induct)
  case (2 i "is" s)
  show ?case
  proof (cases "snd s ! i")
    case (Ret x)
    with 2 show ?thesis by auto
  next
    case (Call c k)
    obtain r w where e: "exec c (fst s) = (r, w)" by (cases "exec c (fst s)")
    then have "\<exists>n. sys_steps n (w, (snd s)[i := k r]) (sys_run is (w, (snd s)[i := k r]))"
      using "2.IH"(2) [OF Call e [symmetric]] "2.prems" by simp
    moreover have "sys_step s (w, (snd s)[i := k r])"
      using sys_stepI [of i "snd s" c k "fst s" r w] "2.prems" Call e by simp
    ultimately show ?thesis using Call e by (auto intro: sys_steps_first)
  qed
qed (auto intro: sys_steps_0)

subsection \<open>Bounds on the number of calls\<close>

primrec calls_le :: "'a prog \<Rightarrow> nat \<Rightarrow> bool" where
  "calls_le (Ret x) n = True"
| "calls_le (Call c k) n = (0 < n \<and> (\<forall>r. calls_le (k r) (n - 1)))"

named_theorems calls

lemma calls_le_mono: "calls_le p m \<Longrightarrow> m \<le> n \<Longrightarrow> calls_le p n"
proof (induction p arbitrary: m n)
  case (Call c k)
  then have "calls_le (k r) (n - 1)" for r
    using Call.IH [of "k r" "m - 1" "n - 1"] by fastforce
  with Call.prems show ?case by simp
qed simp

lemma calls_le_pbind:
  "calls_le p m \<Longrightarrow> (\<And>x. calls_le (f x) n) \<Longrightarrow> calls_le (pbind p f) (m + n)"
proof (induction p arbitrary: m)
  case (Ret x)
  then show ?case using calls_le_mono [of "f x" n "m + n"] by simp
next
  case (Call c k)
  then have "calls_le (pbind (k r) f) (m - 1 + n)" for r
    using Call.IH [of "k r" "m - 1"] by simp
  then show ?case
    using Call.prems(1) by simp
qed

lemma calls_le_rbind:
  "calls_le p m \<Longrightarrow> (\<And>x. calls_le (f x) n) \<Longrightarrow> calls_le (rbind p f) (m + n)"
  unfolding rbind_def by (rule calls_le_pbind) (auto split: result.splits)

lemma calls_le_perr: "calls_le p m \<Longrightarrow> calls_le (perr g p) m"
  unfolding perr_def using calls_le_pbind [of p m "\<lambda>r. Ret (map_err g r)" 0] by simp

text \<open>Every run of a system ends: each step uses up one call of one thread.\<close>

lemma sys_steps_bounded:
  assumes "sys_steps n (w, ps) s'" and "\<And>p. p \<in> set ps \<Longrightarrow> calls_le p m"
  shows "\<exists>ms. length ms = length ps \<and> (\<forall>i < length ps. calls_le (snd s' ! i) (ms ! i)) \<and> n + sum_list ms = m * length ps"
  using assms
proof (induction n "(w, ps)" s' rule: sys_steps.induct)
  case sys_steps_0
  then show ?case
    by (intro exI [of _ "replicate (length ps) m"]) (simp add: sum_list_replicate)
next
  case (sys_steps_Suc n s' s'')
  then obtain ms where ms: "length ms = length ps" "\<And>i. i < length ps \<Longrightarrow> calls_le (snd s' ! i) (ms ! i)"
    "n + sum_list ms = m * length ps" by blast
  from sys_steps_Suc.hyps(3) obtain w' qs i c k r where
    s: "s' = (w', qs)" "i < length qs" "qs ! i = Call c k" "snd s'' = qs[i := k r]"
    by (cases rule: sys_step.cases) auto
  have len: "length qs = length ps"
    using sys_steps_length [OF sys_steps_Suc.hyps(1)] s(1) by simp
  with ms(2) [of i] s have i: "0 < ms ! i" "calls_le (k r) (ms ! i - 1)"
    by auto
  have "ms ! i \<le> sum_list ms"
    using s(2) len ms(1) by (simp add: elem_le_sum_list)
  then have "sum_list (ms[i := ms ! i - 1]) + 1 = sum_list ms"
    using i(1) s(2) len ms(1) by (simp add: sum_list_update)
  with ms s len i(2) show ?case
    by (intro exI [of _ "ms[i := ms ! i - 1]"]) (auto simp: nth_list_update)
qed

section \<open>Rely and guarantee\<close>

locale rely_guarantee =
  fixes inv :: "world \<Rightarrow> bool"
    and rely :: "'t option \<Rightarrow> world \<Rightarrow> world \<Rightarrow> bool"
    and token :: "syscall \<Rightarrow> reply \<Rightarrow> 't option"
    and draws :: "syscall \<Rightarrow> bool"
    and issued :: "world \<Rightarrow> 't \<Rightarrow> bool"
    and room :: "world \<Rightarrow> nat \<Rightarrow> bool"
  assumes rely_refl: "rely T w w"
    and rely_trans: "rely T u v \<Longrightarrow> rely T v w \<Longrightarrow> rely T u w"
    and token_drawn: "exec c w = (r, w') \<Longrightarrow> draws c \<longleftrightarrow> token c r \<noteq> None"
    and issued_new: "exec c w = (r, w') \<Longrightarrow> token c r = Some t \<Longrightarrow> room w 1 \<Longrightarrow> \<not> issued w t \<and> issued w' t"
    and issued_keep: "exec c w = (r, w') \<Longrightarrow> issued w t \<Longrightarrow> room w 1 \<or> \<not> draws c \<Longrightarrow> issued w' t"
    and room_step: "exec c w = (r, w') \<Longrightarrow> room w (if draws c then Suc n else n) \<Longrightarrow> room w' n"
    and room_down: "room w n \<Longrightarrow> m \<le> n \<Longrightarrow> room w m"
begin

text \<open>The token a thread holds after a call.\<close>

definition holds :: "'t option \<Rightarrow> syscall \<Rightarrow> reply \<Rightarrow> 't option" where
  "holds T c r = (case token c r of None \<Rightarrow> T | Some t \<Rightarrow> Some t)"

text \<open>One call that keeps the invariant and the expectations of everybody else.\<close>

definition good_step :: "'t option \<Rightarrow> world \<Rightarrow> world \<Rightarrow> bool" where
  "good_step T w w' \<longleftrightarrow> inv w' \<and> (\<forall>U. U = None \<or> U \<noteq> T \<longrightarrow> rely U w w')"

primrec safe :: "('a \<Rightarrow> 't option \<Rightarrow> world \<Rightarrow> bool) \<Rightarrow> 'a prog \<Rightarrow> 't option \<Rightarrow> world \<Rightarrow> bool" where
  "safe Q (Ret x) T w = (\<forall>w'. rely T w w' \<and> inv w' \<longrightarrow> Q x T w')"
| "safe Q (Call c k) T w =
     ((draws c \<longrightarrow> T = None) \<and>
      (\<forall>w' r w''. rely T w w' \<and> inv w' \<and> (draws c \<longrightarrow> room w' 1) \<and> exec c w' = (r, w'') \<longrightarrow>
         good_step (holds T c r) w' w'' \<and> safe Q (k r) (holds T c r) w''))"

lemma safe_rely: "safe Q p T w \<Longrightarrow> rely T w w' \<Longrightarrow> safe Q p T w'"
  by (cases p) (auto, (metis rely_trans)+)

definition stable :: "'t option \<Rightarrow> (world \<Rightarrow> bool) \<Rightarrow> bool" where
  "stable T A \<longleftrightarrow> (\<forall>w w'. A w \<and> inv w \<and> rely T w w' \<and> inv w' \<longrightarrow> A w')"

text \<open>Hoare triples: from every state of the invariant that satisfies \<open>A\<close>, the program is safe.\<close>

definition triple :: "'t option \<Rightarrow> (world \<Rightarrow> bool) \<Rightarrow> 'a prog \<Rightarrow> ('a \<Rightarrow> 't option \<Rightarrow> world \<Rightarrow> bool) \<Rightarrow> bool" where
  "triple T A p Q \<longleftrightarrow> (\<forall>w. inv w \<and> A w \<longrightarrow> safe Q p T w)"

lemma triple_Ret: "stable T A \<Longrightarrow> (\<And>w. inv w \<Longrightarrow> A w \<Longrightarrow> Q x T w) \<Longrightarrow> triple T A (Ret x) Q"
  by (auto simp: triple_def stable_def)

lemma triple_Call:
  assumes "stable T A" and "draws c \<Longrightarrow> T = None"
    and "\<And>w r w'. inv w \<Longrightarrow> A w \<Longrightarrow> (draws c \<Longrightarrow> room w 1) \<Longrightarrow> exec c w = (r, w') \<Longrightarrow>
      good_step (holds T c r) w w' \<and> safe Q (k r) (holds T c r) w'"
  shows "triple T A (Call c k) Q"
  using assms unfolding triple_def stable_def by (simp, blast)

text \<open>A call whose reply goes straight into a returned value.\<close>

lemma triple_prim:
  assumes "stable T A" and "\<And>r T'. stable T' (B r T')" and "draws c \<Longrightarrow> T = None"
    and "\<And>w r w'. inv w \<Longrightarrow> A w \<Longrightarrow> (draws c \<Longrightarrow> room w 1) \<Longrightarrow> exec c w = (r, w') \<Longrightarrow>
      good_step (holds T c r) w w' \<and> B r (holds T c r) w'"
  shows "triple T A (Call c (\<lambda>r. Ret (f r))) (\<lambda>x T' w. \<exists>r. x = f r \<and> B r T' w)"
proof (rule triple_Call [OF assms(1,3)])
  fix w r w'
  assume a: "inv w" "A w" "draws c \<Longrightarrow> room w 1" "exec c w = (r, w')"
  from assms(4) [OF this] have b: "good_step (holds T c r) w w'" "B r (holds T c r) w'"
    by auto
  then show "good_step (holds T c r) w w' \<and>
      safe (\<lambda>x T' w. \<exists>r. x = f r \<and> B r T' w) (Ret (f r)) (holds T c r) w'"
    using assms(2) by (auto simp: stable_def good_step_def)
qed

lemma safe_pbind:
  "safe R p T w \<Longrightarrow> inv w \<Longrightarrow> (\<And>x T w. inv w \<Longrightarrow> R x T w \<Longrightarrow> safe Q (f x) T w) \<Longrightarrow> safe Q (pbind p f) T w"
proof (induction p arbitrary: T w)
  case (Ret x)
  then show ?case using rely_refl by simp
next
  case (Call c k)
  from Call.prems(1) show ?case
    unfolding pbind.simps safe.simps
    using Call.IH [OF rangeI _ _ Call.prems(3)] by (meson good_step_def)
qed

lemma triple_pbind:
  "triple T A p R \<Longrightarrow> (\<And>x T'. triple T' (R x T') (f x) Q) \<Longrightarrow> triple T A (pbind p f) Q"
  unfolding triple_def by (blast intro: safe_pbind)

lemma triple_conseq:
  "triple T A p R \<Longrightarrow> (\<And>w. inv w \<Longrightarrow> B w \<Longrightarrow> A w) \<Longrightarrow> (\<And>x T w. inv w \<Longrightarrow> R x T w \<Longrightarrow> Q x T w) \<Longrightarrow> triple T B p Q"
proof -
  assume t: "triple T A p R" and b: "\<And>w. inv w \<Longrightarrow> B w \<Longrightarrow> A w" and q: "\<And>x T w. inv w \<Longrightarrow> R x T w \<Longrightarrow> Q x T w"
  have "safe Q p T w" if "safe R p T w" for T w
    using that
  proof (induction p arbitrary: T w)
    case (Ret x)
    then show ?case using q by auto
  next
    case (Call c k)
    from Call.prems Call.IH [OF rangeI] show ?case
      unfolding safe.simps by blast
  qed
  with t b show ?thesis unfolding triple_def by blast
qed

lemma triple_If:
  "(c \<Longrightarrow> triple T A p Q) \<Longrightarrow> (\<not> c \<Longrightarrow> triple T A p' Q) \<Longrightarrow> triple T A (if c then p else p') Q"
  by simp

text \<open>Assertions that nobody can break need no proof of their own.\<close>

lemma safe_frame:
  assumes "\<And>U. stable U D"
  shows "safe Q p T w \<Longrightarrow> inv w \<Longrightarrow> D w \<Longrightarrow> safe (\<lambda>x T w. Q x T w \<and> D w) p T w"
proof (induction p arbitrary: T w)
  case (Ret x)
  then show ?case using assms unfolding stable_def by auto
next
  case (Call c k)
  have D: "D w''" if "rely T w w'" "inv w'" "good_step U w' w''" for w' w'' U
    using assms Call.prems(2,3) that unfolding stable_def good_step_def by metis
  from Call.prems(1) show ?case
    unfolding safe.simps using Call.IH [OF rangeI] D by (meson good_step_def)
qed

lemma triple_frame:
  "(\<And>U. stable U D) \<Longrightarrow> triple T A p Q \<Longrightarrow> triple T (\<lambda>w. A w \<and> D w) p (\<lambda>x T w. Q x T w \<and> D w)"
  unfolding triple_def using safe_frame by blast

text \<open>Programs that draw no token.\<close>

definition quiet :: "'t option \<Rightarrow> (world \<Rightarrow> bool) \<Rightarrow> 'a prog \<Rightarrow> ('a \<Rightarrow> world \<Rightarrow> bool) \<Rightarrow> bool" where
  "quiet T A p R \<longleftrightarrow> triple T A p (\<lambda>x T' w. T' = T \<and> R x w)"

lemma quiet_Ret: "stable T A \<Longrightarrow> (\<And>w. inv w \<Longrightarrow> A w \<Longrightarrow> R x w) \<Longrightarrow> quiet T A (Ret x) R"
  unfolding quiet_def by (rule triple_Ret) auto

lemma quiet_prim:
  assumes "\<not> draws c" and "stable T A" and "\<And>r. stable T (B r)"
    and "\<And>w r w'. inv w \<Longrightarrow> A w \<Longrightarrow> exec c w = (r, w') \<Longrightarrow> good_step T w w' \<and> B r w'"
  shows "quiet T A (Call c (\<lambda>r. Ret (f r))) (\<lambda>x w. \<exists>r. x = f r \<and> B r w)"
proof -
  have h: "exec c w = (r, w') \<Longrightarrow> holds T c r = T" for w r w'
    using token_drawn [of c w r w'] assms(1) by (simp add: holds_def)
  have "triple T A (Call c (\<lambda>r. Ret (f r))) (\<lambda>x T' w. \<exists>r. x = f r \<and> (T' = T \<and> B r w))"
    by (rule triple_prim) (use assms h in \<open>auto simp: stable_def\<close>)
  then show ?thesis
    unfolding quiet_def by (rule triple_conseq) auto
qed

lemma quiet_pbind:
  "quiet T A p R \<Longrightarrow> (\<And>x. triple T (R x) (f x) Q) \<Longrightarrow> triple T A (pbind p f) Q"
  unfolding quiet_def by (rule triple_pbind) (auto simp: triple_def)

lemma quiet_quiet: "quiet T A p R \<Longrightarrow> (\<And>x. quiet T (R x) (f x) S) \<Longrightarrow> quiet T A (pbind p f) S"
  by (subst quiet_def, erule quiet_pbind) (simp add: quiet_def)

lemma quiet_triple: "quiet T A p R \<Longrightarrow> (\<And>x w. inv w \<Longrightarrow> R x w \<Longrightarrow> Q x T w) \<Longrightarrow> triple T A p Q"
  unfolding quiet_def by (erule triple_conseq) auto

lemma quiet_conseq:
  "quiet T A p R \<Longrightarrow> (\<And>w. inv w \<Longrightarrow> B w \<Longrightarrow> A w) \<Longrightarrow> (\<And>x w. inv w \<Longrightarrow> R x w \<Longrightarrow> S x w) \<Longrightarrow> quiet T B p S"
  unfolding quiet_def by (erule triple_conseq) auto

lemma quiet_frame:
  assumes "\<And>U. stable U D" and "quiet T A p R"
  shows "quiet T (\<lambda>w. A w \<and> D w) p (\<lambda>x w. R x w \<and> D w)"
  using triple_frame [OF assms(1) assms(2) [unfolded quiet_def]] unfolding quiet_def
  by (rule triple_conseq) auto

lemma quiet_perr:
  "quiet T A p R \<Longrightarrow> (\<And>x. stable T (R x)) \<Longrightarrow> quiet T A (perr g p) (\<lambda>x w. \<exists>y. x = map_err g y \<and> R y w)"
  unfolding perr_def by (erule quiet_quiet) (rule quiet_Ret, auto)

subsection \<open>Soundness\<close>

definition sys_inv :: "(nat \<Rightarrow> 'a \<Rightarrow> 't option \<Rightarrow> world \<Rightarrow> bool) \<Rightarrow> world \<times> 'a prog list \<Rightarrow> 't option list \<Rightarrow> bool" where
  "sys_inv Q s Ts \<longleftrightarrow>
     inv (fst s) \<and> length Ts = length (snd s) \<and>
     (\<forall>i < length Ts. safe (Q i) (snd s ! i) (Ts ! i) (fst s)) \<and>
     (\<forall>i < length Ts. \<forall>j < length Ts. i \<noteq> j \<longrightarrow> Ts ! i \<noteq> None \<longrightarrow> Ts ! i \<noteq> Ts ! j) \<and>
     (\<forall>t. Some t \<in> set Ts \<longrightarrow> issued (fst s) t) \<and>
     room (fst s) (count_list Ts None)"

lemma count_list_update_None:
  "i < length Ts \<Longrightarrow> Ts ! i = None \<Longrightarrow> count_list Ts None = Suc (count_list (Ts[i := Some t]) None)"
  by (induction Ts arbitrary: i) (auto split: nat.split simp: nth_Cons')

lemma count_list_pos: "i < length Ts \<Longrightarrow> Ts ! i = x \<Longrightarrow> 0 < count_list Ts x"
  using count_list_0_iff [of Ts x] nth_mem [of i Ts] by (metis gr0I)

lemma count_list_replicate_le: "count_list (replicate n x) y \<le> n"
  by (induction n) auto

lemma sys_inv_step:
  assumes "sys_inv Q s Ts" and "sys_step s s'"
  shows "\<exists>Ts'. sys_inv Q s' Ts' \<and> rely None (fst s) (fst s')"
  using assms(2,1)
proof (cases rule: sys_step.cases)
  case (sys_stepI i ps c k w r w')
  let ?T' = "holds (Ts ! i) c r"
  from assms(1) sys_stepI have I: "inv w" "length Ts = length ps" "i < length Ts"
    "\<And>j. j < length Ts \<Longrightarrow> safe (Q j) (ps ! j) (Ts ! j) w"
    "\<And>a b. a < length Ts \<Longrightarrow> b < length Ts \<Longrightarrow> a \<noteq> b \<Longrightarrow> Ts ! a \<noteq> None \<Longrightarrow> Ts ! a \<noteq> Ts ! b"
    "\<And>t. Some t \<in> set Ts \<Longrightarrow> issued w t" "room w (count_list Ts None)"
    by (auto simp: sys_inv_def)
  have draw: "draws c \<Longrightarrow> Ts ! i = None"
    using I(4) [OF I(3)] sys_stepI(4) by simp
  have room1: "draws c \<Longrightarrow> room w 1"
    using room_down [OF I(7), of 1] count_list_pos [OF I(3) draw] by simp
  have safe: "good_step ?T' w w'" "safe (Q i) (k r) ?T' w'"
    using I(4) [OF I(3)] sys_stepI(5) I(1) rely_refl room1
    unfolding sys_stepI(4) safe.simps by blast+
  have keep: "Some t \<in> set Ts \<Longrightarrow> issued w' t" for t
    using issued_keep [OF sys_stepI(5) I(6)] room1 by blast
  have new: "?T' \<noteq> Ts ! i \<Longrightarrow> \<exists>t. ?T' = Some t \<and> \<not> issued w t \<and> issued w' t \<and> Ts ! i = None \<and> draws c"
    using issued_new [OF sys_stepI(5) _ room1] token_drawn [OF sys_stepI(5)] draw
    by (auto simp: holds_def split: option.splits)
  have dist: "j < length Ts \<Longrightarrow> j \<noteq> i \<Longrightarrow> Ts ! j = None \<or> Ts ! j \<noteq> ?T'" for j
    using I(5) [of j i] I(3) new I(6) nth_mem [of j Ts] by metis
  have others: "rely (Ts ! j) w w'" if "j < length Ts" "j \<noteq> i" for j
    using safe(1) dist [OF that] by (auto simp: good_step_def)
  have "inv w'" and "rely None w w'"
    using safe(1) by (auto simp: good_step_def)
  moreover have "room w' (count_list (Ts[i := ?T']) None)"
  proof (cases "?T' = Ts ! i")
    case True
    have "room w' (count_list Ts None)" if "\<not> draws c"
      using room_step [OF sys_stepI(5), of "count_list Ts None"] that I(7) by simp
    moreover have "\<not> draws c"
      using draw True token_drawn [OF sys_stepI(5)] by (auto simp: holds_def)
    ultimately show ?thesis using True by simp
  next
    case False
    with new obtain t where t: "?T' = Some t" "Ts ! i = None" "draws c" by blast
    with I(7) room_step [OF sys_stepI(5), of "count_list (Ts[i := ?T']) None"] show ?thesis
      by (simp add: count_list_update_None [OF I(3) t(2), of t])
  qed
  moreover have "issued w' t" if "Some t \<in> set (Ts[i := ?T'])" for t
  proof (cases "Some t \<in> set Ts")
    case False
    with that set_update_subset_insert [of Ts i ?T'] have "?T' = Some t" by auto
    with new False I(3) nth_mem show ?thesis by (metis option.inject)
  qed (rule keep)
  moreover have "safe (Q j) (ps[i := k r] ! j) (Ts[i := ?T'] ! j) w'" if "j < length Ts" for j
    using that safe(2) I(2,4) safe_rely [OF _ others] by (cases "j = i") auto
  moreover have "Ts[i := ?T'] ! a \<noteq> Ts[i := ?T'] ! b" if "a < length Ts" "b < length Ts" "a \<noteq> b" "Ts[i := ?T'] ! a \<noteq> None" for a b
    using that dist [of a] dist [of b] I(3,5) by (cases "a = i"; cases "b = i") auto
  ultimately have "sys_inv Q (w', ps[i := k r]) (Ts[i := ?T'])"
    using I(2) by (simp add: sys_inv_def)
  then show ?thesis
    using \<open>rely None w w'\<close> sys_stepI by auto
qed

lemma sys_inv_init:
  assumes "inv w" and "room w (length ps)" and "\<And>i. i < length ps \<Longrightarrow> safe (Q i) (ps ! i) None w"
  shows "sys_inv Q (w, ps) (replicate (length ps) None)"
  using assms room_down [OF assms(2) count_list_replicate_le] by (auto simp: sys_inv_def)

lemma sys_inv_steps:
  "sys_steps n s s' \<Longrightarrow> sys_inv Q s Ts \<Longrightarrow> \<exists>Ts'. sys_inv Q s' Ts' \<and> rely None (fst s) (fst s')"
proof (induction rule: sys_steps.induct)
  case (sys_steps_Suc n s s' s'')
  then show ?case using sys_inv_step rely_trans by metis
qed (auto intro: rely_refl)

lemma sys_inv_done:
  assumes "sys_inv Q s Ts" and "i < length (snd s)" and "snd s ! i = Ret x"
  shows "\<exists>T. Q i x T (fst s)"
proof -
  from assms have "safe (Q i) (Ret x) (Ts ! i) (fst s)" and "inv (fst s)"
    by (auto simp: sys_inv_def)
  then show ?thesis using rely_refl by auto
qed

lemma sys_inv_inv: "sys_inv Q s Ts \<Longrightarrow> inv (fst s)"
  by (simp add: sys_inv_def)

end

end
