(* ===== verification/Key_Files.thy ===== *)
theory Key_Files
  imports Identity Hex Interference
begin

text \<open>
  Key files and environment keys of \<^verbatim>\<open>lys-core/src/keys/identity.rs\<close>, as programs over system
  calls (the Unix variant). The process id and the random seed that a generation draws are
  arguments; tracing events are recorded by their message.
\<close>

section \<open>Text helpers\<close>

text \<open>\<^verbatim>\<open>str::trim\<close> and \<^verbatim>\<open>str::trim_end_matches\<close> of one character.\<close>

definition str_trim :: "str \<Rightarrow> str" where
  "str_trim s = rev (dropWhile is_whitespace (rev (dropWhile is_whitespace s)))"

definition trim_end_matches :: "nat \<Rightarrow> str \<Rightarrow> str" where
  "trim_end_matches c s = rev (dropWhile (\<lambda>d. d = c) (rev s))"

section \<open>Debug output\<close>

definition public_key_bytes_hex :: "identity \<Rightarrow> str" where
  "public_key_bytes_hex i = hex_lower (verifying_key i)"

definition debug_identity :: "identity \<Rightarrow> str" where
  "debug_identity i =
     lit ''Ed25519Identity { signing_key: '' @ [34] @ lit ''[REDACTED]'' @ [34] @ lit '', verifying_key: '' @ [34] @
     public_key_bytes_hex i @ [34] @ lit '' }''"

section \<open>Environment keys\<close>

definition KEY_ENV_VAR :: str where
  "KEY_ENV_VAR = lit ''LYS_IDENTITY_KEY''"

text \<open>\<open>raw\<close> is the value of the variable, \<open>None\<close> when it is unset or no Unicode; \<open>url\<close> and \<open>std\<close>
  are the two base64 engines.\<close>

definition from_env :: "ed25519 \<Rightarrow> base64 \<Rightarrow> base64 \<Rightarrow> str option \<Rightarrow> identity trust_result" where
  "from_env ed url std env_var =
     res_bind (ok_or (KeyManagement (lit ''environment variable '' @ KEY_ENV_VAR @ lit '' not set'')) env_var) (\<lambda>raw.
     let trimmed = str_trim raw in
     res_bind
       (case b64_decode url (trim_end_matches 61 trimmed) of
          Inr decoded \<Rightarrow> Ok decoded
        | Inl _ \<Rightarrow>
            map_err
              (\<lambda>_. KeyManagement (lit ''environment variable '' @ KEY_ENV_VAR @ lit '' contains invalid base64''))
              (of_sum (b64_decode std trimmed))) (\<lambda>decoded.
     let n = length decoded in
     if n \<noteq> 32
     then Err (KeyManagement
       (lit ''environment variable '' @ KEY_ENV_VAR @ lit '' decoded to '' @ dec n @ lit '' bytes, expected 32''))
     else res_bind (copy_from_slice 32 decoded) (\<lambda>seed. Ok (from_seed ed seed))))"

section \<open>Key files\<close>

definition warn_if_loose_permissions :: "path \<Rightarrow> unit prog" where
  "warn_if_loose_permissions path =
     pbind (fs_metadata path) (\<lambda>r. case r of
       Ok (m, _) \<Rightarrow>
         if m AND 63 \<noteq> 0 then trace (lit ''identity key file has loose permissions; expected 0600'') else Ret ()
     | _ \<Rightarrow> trace (lit ''could not stat identity key file to check permissions''))"

definition load_existing :: "ed25519 \<Rightarrow> path \<Rightarrow> identity trust_result prog" where
  "load_existing ed path =
     pbind (warn_if_loose_permissions path) (\<lambda>_.
     rbind (perr (\<lambda>e. KeyManagement (lit ''failed to read identity key: '' @ io_text e)) (fs_read path)) (\<lambda>bytes.
     if length bytes \<noteq> 32
     then Ret (Err (KeyManagement
       (lit ''identity key file has invalid length: expected 32 bytes, got '' @ dec (length bytes))))
     else Ret (res_bind (copy_from_slice 32 bytes) (\<lambda>seed. Ok (from_seed ed seed)))))"

definition write_failed :: "io_error \<Rightarrow> trust_error" where
  "write_failed e = KeyManagement (lit ''failed to write identity key: '' @ io_text e)"

definition write_identity_file :: "path \<Rightarrow> bytes \<Rightarrow> unit trust_result prog" where
  "write_identity_file path seed =
     rbind (perr write_failed (fs_open False 384 path)) (\<lambda>file.
     rbind (perr write_failed (fs_unit (Write_all file seed))) (\<lambda>_.
     perr write_failed (fs_unit (Set_mode path 384))))"

definition remove_tmp_file :: "path \<Rightarrow> unit prog" where
  "remove_tmp_file tmp_path =
     pbind (fs_unit (Remove_file tmp_path)) (\<lambda>r. case r of
       Err e \<Rightarrow>
         if io_kind e \<noteq> NotFound
         then trace (lit ''failed to remove temporary identity key file after write failure'') else Ret ()
     | _ \<Rightarrow> Ret ())"

text \<open>The suffix of a temporary name and the path beside the key file.\<close>

definition tmp_suffix :: "u32 \<Rightarrow> u64 \<Rightarrow> str" where
  "tmp_suffix pid unique = lit ''.'' @ dec (unat pid) @ lit ''.'' @ dec (unat unique) @ lit ''.tmp''"

definition tmp_path_for :: "path \<Rightarrow> os_str \<Rightarrow> u32 \<Rightarrow> u64 \<Rightarrow> path" where
  "tmp_path_for dir fname pid unique =
     (let tmp_name = os_push fname (tmp_suffix pid unique) in
      if dir = [] then [Normal tmp_name] else path_join dir tmp_name)"

definition publish :: "ed25519 \<Rightarrow> path \<Rightarrow> bytes \<Rightarrow> path \<Rightarrow> identity trust_result prog" where
  "publish ed path seed tmp_path =
     pbind (fs_unit (Hard_link tmp_path path)) (\<lambda>r. case r of
       Ok _ \<Rightarrow>
         pbind (remove_tmp_file tmp_path) (\<lambda>_.
         pbind (trace (lit ''generated and persisted identity key'')) (\<lambda>_. Ret (Ok (from_seed ed seed))))
     | Err e \<Rightarrow>
         if io_kind e = AlreadyExists then
           pbind (remove_tmp_file tmp_path) (\<lambda>_.
           pbind (trace (lit ''identity key was persisted concurrently; loading the persisted key'')) (\<lambda>_.
           load_existing ed path))
         else pbind (remove_tmp_file tmp_path) (\<lambda>_. Ret (Err (write_failed e)))
     | Panic \<Rightarrow> Ret Panic)"

definition generate_and_persist :: "ed25519 \<Rightarrow> u32 \<Rightarrow> bytes \<Rightarrow> path \<Rightarrow> identity trust_result prog" where
  "generate_and_persist ed pid seed path =
     (case file_name path of
        None \<Rightarrow> Ret (Err (KeyManagement
          (lit ''identity key path has no filename component: '' @ display_path path)))
      | Some fname \<Rightarrow>
          let dir = (case parent path of None \<Rightarrow> [] | Some q \<Rightarrow> q) in
          rbind (if dir \<noteq> [] then perr write_failed (fs_unit (Create_dir_all dir)) else Ret (Ok ())) (\<lambda>_.
          pbind (fetch_add pid) (\<lambda>unique.
          let tmp_path = tmp_path_for dir fname pid unique in
          pbind (write_identity_file tmp_path seed) (\<lambda>r. case r of
            Err e \<Rightarrow> pbind (remove_tmp_file tmp_path) (\<lambda>_. Ret (Err e))
          | Panic \<Rightarrow> Ret Panic
          | Ok _ \<Rightarrow> publish ed path seed tmp_path))))"

definition load_or_generate :: "ed25519 \<Rightarrow> u32 \<Rightarrow> bytes \<Rightarrow> path \<Rightarrow> identity trust_result prog" where
  "load_or_generate ed pid seed path =
     pbind (fs_bool (Exists path)) (\<lambda>b. if b then load_existing ed path else generate_and_persist ed pid seed path)"

definition load :: "ed25519 \<Rightarrow> path \<Rightarrow> identity trust_result prog" where
  "load ed path = load_existing ed path"

section \<open>Temporary names\<close>

lemma tmp_suffix_not_Nil [simp]: "tmp_suffix p u \<noteq> []"
  by (simp add: tmp_suffix_def)

lemma dec_inj: "dec m = dec n \<longleftrightarrow> m = n"
proof
  assume eq: "dec m = dec n"
  have "parse_digits (Suc (max m n)) 10 0 (dec m) = Inr m" and "parse_digits (Suc (max m n)) 10 0 (dec n) = Inr n"
    by (rule parse_digits_dec, simp)+
  then show "m = n"
    unfolding eq by (metis sum.inject(2))
qed (simp only:)

lemma dec_no_dot: "46 \<notin> set (dec n)"
  using dec_digits [of 46 n] by (auto simp: is_ascii_digit_def)

lemma dot_split: "46 \<notin> set a \<Longrightarrow> 46 \<notin> set b \<Longrightarrow> a @ 46 # x = b @ 46 # y \<longleftrightarrow> a = b \<and> x = y"
  by (metis option.inject prod.inject split_once_append)

lemma tmp_suffix_inj: "tmp_suffix p u = tmp_suffix q v \<longleftrightarrow> p = q \<and> u = v"
  by (auto simp: tmp_suffix_def lit_def dot_split dec_no_dot dec_inj word_unat_eq_iff)

lemma os_push_inj: "list_all (\<lambda>c. c < 128) s \<Longrightarrow> list_all (\<lambda>c. c < 128) t \<Longrightarrow> os_push n s = os_push n t \<longleftrightarrow> s = t"
  by (cases n) auto

lemma os_push_neq: "s \<noteq> [] \<Longrightarrow> os_push n s \<noteq> n"
  by (cases n) auto

lemma tmp_suffix_ascii: "list_all (\<lambda>c. c < 128) (tmp_suffix p u)"
  using dec_ascii by (simp add: tmp_suffix_def)

lemma tmp_path_for_join: "tmp_path_for q n p u = q @ [Normal (os_push n (tmp_suffix p u))]"
  by (simp add: tmp_path_for_def path_join_def Let_def)

lemma tmp_path_for_inj: "tmp_path_for q n p u = tmp_path_for q n p' u' \<longleftrightarrow> p = p' \<and> u = u'"
  by (simp add: tmp_path_for_join os_push_inj tmp_suffix_ascii tmp_suffix_inj)

lemma tmp_path_for_neq: "tmp_path_for q n p u \<noteq> q @ [Normal n]"
  by (simp add: tmp_path_for_join os_push_neq)

lemma generate_and_persist_named:
  "generate_and_persist ed pid seed (q @ [Normal n]) =
     rbind (if q \<noteq> [] then perr write_failed (fs_unit (Create_dir_all q)) else Ret (Ok ())) (\<lambda>_.
     pbind (fetch_add pid) (\<lambda>unique.
     pbind (write_identity_file (tmp_path_for q n pid unique) seed) (\<lambda>r. case r of
       Err e \<Rightarrow> pbind (remove_tmp_file (tmp_path_for q n pid unique)) (\<lambda>_. Ret (Err e))
     | Panic \<Rightarrow> Ret Panic
     | Ok _ \<Rightarrow> publish ed (q @ [Normal n]) seed (tmp_path_for q n pid unique))))"
  by (simp add: generate_and_persist_def file_name_snoc Let_def)

section \<open>Bounds on the calls\<close>

lemma fs_calls:
  "calls_le (fs_unit c) 1" "calls_le (fs_bool c) 1" "calls_le (fs_read p) 1" "calls_le (fs_metadata p) 1"
  "calls_le (fs_open b m p) 1" "calls_le (fetch_add pid) 1" "calls_le (trace s) 1"
  by (simp_all add: fs_defs)

lemmas fs_calls_Suc = fs_calls [unfolded One_nat_def]

lemma calls_le_Ret: "calls_le (Ret x) n"
  by simp

lemma load_existing_calls: "calls_le (load_existing ed p) 3"
proof -
  have "calls_le (warn_if_loose_permissions p) (1 + 1)"
    unfolding warn_if_loose_permissions_def
    by (rule calls_le_pbind) (auto simp: fs_calls_Suc split: result.splits)
  moreover have "calls_le (rbind (perr f (fs_read p)) g) (1 + 0)" if "\<And>x. calls_le (g x) 0"
    for f :: "io_error \<Rightarrow> trust_error" and g :: "bytes \<Rightarrow> identity trust_result prog"
    by (rule calls_le_rbind) (auto intro: calls_le_perr fs_calls_Suc that)
  ultimately have "calls_le (load_existing ed p) ((1 + 1) + (1 + 0))"
    unfolding load_existing_def by (intro calls_le_pbind) auto
  then show ?thesis by (simp add: numeral_3_eq_3)
qed

lemma remove_tmp_file_calls: "calls_le (remove_tmp_file p) 2"
proof -
  have "calls_le (remove_tmp_file p) (1 + 1)"
    unfolding remove_tmp_file_def by (rule calls_le_pbind) (auto simp: fs_calls_Suc split: result.splits)
  then show ?thesis by (simp add: numeral_2_eq_2)
qed

lemma write_identity_file_calls: "calls_le (write_identity_file p s) 3"
proof -
  have "calls_le (write_identity_file p s) (1 + (1 + 1))"
    unfolding write_identity_file_def
    by (intro calls_le_rbind calls_le_perr fs_calls)
  then show ?thesis by (simp add: numeral_3_eq_3)
qed

lemma publish_calls: "calls_le (publish ed p s t) 7"
proof -
  have a: "calls_le (pbind (trace m) (\<lambda>_. load_existing ed p)) (1 + 3)" for m
    by (intro calls_le_pbind fs_calls load_existing_calls)
  have b: "calls_le (pbind (remove_tmp_file t) (\<lambda>_. x)) (2 + n)" if "calls_le x n" for x :: "identity trust_result prog" and n
    by (intro calls_le_pbind remove_tmp_file_calls that)
  have c: "calls_le (pbind (trace m) (\<lambda>_. Ret x)) (1 + 3)" for m and x :: "identity trust_result"
    by (intro calls_le_pbind fs_calls) simp
  have "calls_le (publish ed p s t) (1 + (2 + (1 + 3)))"
    unfolding publish_def
    by (intro calls_le_pbind fs_calls) (use b [OF a] b [OF c] b [OF calls_le_Ret, of _ "1 + 3"] in \<open>auto split: result.splits\<close>)
  then show ?thesis by simp
qed

lemma load_or_generate_calls: "calls_le (load_or_generate ed pid seed p) 13"
proof -
  have w: "calls_le (case r of Err e \<Rightarrow> pbind (remove_tmp_file t) (\<lambda>_. Ret (Err e)) | Panic \<Rightarrow> Ret Panic | Ok _ \<Rightarrow> publish ed p seed t) 7"
    for r :: "unit trust_result" and t
  proof (cases r)
    case (Err e)
    have "calls_le (pbind (remove_tmp_file t) (\<lambda>_. Ret (Err e) :: identity trust_result prog)) (2 + 5)"
      by (intro calls_le_pbind remove_tmp_file_calls) simp
    with Err show ?thesis by simp
  qed (simp_all add: publish_calls)
  have "calls_le (generate_and_persist ed pid seed p) (1 + (1 + (3 + 7)))"
  proof (cases "file_name p")
    case None
    then show ?thesis by (simp add: generate_and_persist_def)
  next
    case (Some n)
    then obtain q where "p = q @ [Normal n]" by (auto simp: file_name_Some)
    then show ?thesis
      using w unfolding \<open>p = _\<close> generate_and_persist_named
      by (intro calls_le_rbind calls_le_pbind fs_calls write_identity_file_calls)
        (auto intro: calls_le_perr fs_calls_Suc)
  qed
  then have "calls_le (load_or_generate ed pid seed p) (1 + (1 + (1 + (3 + 7))))"
    unfolding load_or_generate_def
    by (intro calls_le_pbind fs_calls)
      (auto intro: calls_le_mono [OF load_existing_calls] simp del: One_nat_def)
  then show ?thesis by simp
qed

end
