(* ===== verification/Key_Race.thy ===== *)
theory Key_Race
  imports Key_Files
begin

text \<open>
  The race of key generators: the invariant of the file system around a key path
  \<open>q @ [Normal n]\<close>, what a generator expects of the others, and the proof that the program of
  the key files keeps both. A token is the pair of process id and counter value in a temporary
  name. \<open>A\<close> is the set of seeds that may be persisted; \<open>smooth\<close> says that nothing fails from
  outside.
\<close>

type_synonym token = "u32 \<times> u64"

abbreviation tok_path :: "path \<Rightarrow> os_str \<Rightarrow> token \<Rightarrow> path" where
  "tok_path q n t \<equiv> tmp_path_for q n (fst t) (snd t)"

definition key_inv :: "path \<Rightarrow> os_str \<Rightarrow> bytes set \<Rightarrow> bool \<Rightarrow> world \<Rightarrow> bool" where
  "key_inv q n A smooth w \<longleftrightarrow>
     (\<forall>p i. lookup w p = Some (File i) \<longrightarrow> i < next_inode w) \<and>
     (\<forall>t. tmp_counter w (fst t) \<le> snd t \<longrightarrow> lookup w (tok_path q n t) = None) \<and>
     (\<forall>a b i. lookup w (tok_path q n a) = Some (File i) \<longrightarrow> lookup w (tok_path q n b) = Some (File i) \<longrightarrow> a = b) \<and>
     (\<forall>i. lookup w (q @ [Normal n]) = Some (File i) \<longrightarrow> data (inodes w i) \<in> A) \<and>
     (smooth \<longrightarrow>
        calm w \<and> (\<forall>p \<in> set (ancestors q). \<forall>i. lookup w p \<noteq> Some (File i)) \<and>
        (\<forall>m. lookup w (q @ [Normal n]) \<noteq> Some (Dir m)) \<and> (\<forall>a \<in> A. length a = 32))"

definition key_issued :: "world \<Rightarrow> token \<Rightarrow> bool" where
  "key_issued w t \<longleftrightarrow> snd t < tmp_counter w (fst t)"

text \<open>The key file is final, directories stay, tokens stay issued, and the file under the thread's own temporary name is
  left alone: same inode, same content, no new or lost names for it.\<close>

definition key_rely :: "path \<Rightarrow> os_str \<Rightarrow> token option \<Rightarrow> world \<Rightarrow> world \<Rightarrow> bool" where
  "key_rely q n T w w' \<longleftrightarrow>
     (lookup w (q @ [Normal n]) \<noteq> None \<longrightarrow>
        lookup w' (q @ [Normal n]) = lookup w (q @ [Normal n]) \<and>
        content w' (q @ [Normal n]) = content w (q @ [Normal n])) \<and>
     (\<forall>d. is_dir w d \<longrightarrow> is_dir w' d) \<and>
     (\<forall>t. key_issued w t \<longrightarrow> key_issued w' t) \<and>
     (\<forall>t. T = Some t \<longrightarrow>
        lookup w' (tok_path q n t) = lookup w (tok_path q n t) \<and>
        (\<forall>i. lookup w (tok_path q n t) = Some (File i) \<longrightarrow>
           inodes w' i = inodes w i \<and> (\<forall>p. lookup w' p = Some (File i) \<longleftrightarrow> lookup w p = Some (File i))))"

fun key_token :: "syscall \<Rightarrow> reply \<Rightarrow> token option" where
  "key_token (Fetch_tmp pid) (R_u64 u) = Some (pid, u)"
| "key_token _ _ = None"

fun key_draws :: "syscall \<Rightarrow> bool" where
  "key_draws (Fetch_tmp pid) = True"
| "key_draws _ = False"

definition key_room :: "world \<Rightarrow> nat \<Rightarrow> bool" where
  "key_room w m \<longleftrightarrow> (\<forall>pid. unat (tmp_counter w pid) + m < 2 ^ 64)"

section \<open>The counter\<close>

lemma make_dirs_counter [simp]: "tmp_counter (snd (make_dirs ps w)) = tmp_counter w"
  by (subst make_dirs_frame) simp

lemma world_ops_counter [simp]:
  "tmp_counter (set_entry p e w) = tmp_counter w" "tmp_counter (del_entry p w) = tmp_counter w"
  "tmp_counter (set_inode i x w) = tmp_counter w" "tmp_counter (write_data i b w) = tmp_counter w"
  "tmp_counter (pop_fault w) = tmp_counter w"
  by (simp_all add: set_entry_def del_entry_def set_inode_def write_data_def pop_fault_def)

lemma open_write_counter [simp]: "tmp_counter (snd (open_write new m p w)) = tmp_counter w"
  by (simp add: open_write_def split: option.splits entry.splits)

lemma perform_counter:
  "\<not> key_draws c \<Longrightarrow> tmp_counter (snd (perform c w)) = tmp_counter w"
  "\<not> key_draws c \<Longrightarrow> tmp_counter (snd (perform_fail e m c w)) = tmp_counter w"
  by (cases c; simp split: option.splits entry.splits)+

lemma exec_counter: "\<not> key_draws c \<Longrightarrow> tmp_counter (snd (exec c w)) = tmp_counter w"
  by (simp add: exec_def perform_counter split: choice.splits)

lemma exec_fetch:
  "exec (Fetch_tmp pid) w =
     (R_u64 (tmp_counter w pid), (pop_fault w)\<lparr>tmp_counter := (tmp_counter w)(pid := tmp_counter w pid + 1)\<rparr>)"
  by (simp add: exec_def split: choice.splits)

lemma key_draws_iff: "key_draws c \<longleftrightarrow> (\<exists>pid. c = Fetch_tmp pid)"
  by (cases c) auto

lemma key_token_none: "\<not> key_draws c \<Longrightarrow> key_token c r = None"
  by (cases c; cases r) auto

lemma unat_Suc64: "unat (x :: u64) + 1 < 2 ^ 64 \<Longrightarrow> unat (x + 1) = unat x + 1"
  by (simp add: unat_word_ariths)

lemma key_room_Suc: "key_room w (Suc m) \<Longrightarrow> unat (tmp_counter w pid + 1) = unat (tmp_counter w pid) + 1"
  by (rule unat_Suc64) (auto simp: key_room_def dest: spec [of _ pid])

section \<open>The interpretation\<close>

lemma key_rely_refl: "key_rely q n T w w"
  by (simp add: key_rely_def)

lemma key_rely_trans: "key_rely q n T u v \<Longrightarrow> key_rely q n T v w \<Longrightarrow> key_rely q n T u w"
  by (simp add: key_rely_def)

interpretation kr: rely_guarantee "key_inv q n A smooth" "key_rely q n" key_token key_draws key_issued key_room
  for q n A smooth
proof
  fix c w r w' t m
  assume e: "exec c w = (r, w')"
  show "key_draws c \<longleftrightarrow> key_token c r \<noteq> None"
    using e key_token_none by (cases "key_draws c") (auto simp: key_draws_iff exec_fetch)
  show "key_token c r = Some t \<Longrightarrow> key_room w 1 \<Longrightarrow> \<not> key_issued w t \<and> key_issued w' t"
    using e key_token_none [of c r] key_room_Suc [of w 0]
    by (cases "key_draws c") (auto simp: key_draws_iff exec_fetch key_issued_def word_less_nat_alt)
  show "key_issued w t \<Longrightarrow> key_room w 1 \<or> \<not> key_draws c \<Longrightarrow> key_issued w' t"
    using e key_room_Suc [of w 0] exec_counter [of c w]
    by (cases "key_draws c") (auto simp: key_draws_iff exec_fetch key_issued_def word_less_nat_alt)
  show "key_room w' m" if "key_room w (if key_draws c then Suc m else m)"
  proof (cases "key_draws c")
    case True
    then have k: "key_room w (Suc m)" using that by simp
    then have "unat (tmp_counter w p) + m < 2 ^ 64" for p
      unfolding key_room_def by (metis Suc_lessD add_Suc_right)
    with True k e key_room_Suc [OF k] show ?thesis
      by (auto simp: key_draws_iff exec_fetch key_room_def)
  qed (use that e exec_counter [of c w] in \<open>auto simp: key_room_def\<close>)
next
  show "key_rely q n T w w" for T w by (rule key_rely_refl)
  show "key_rely q n T u v \<Longrightarrow> key_rely q n T v w \<Longrightarrow> key_rely q n T u w" for T u v w by (rule key_rely_trans)
  show "key_room w m" if "key_room w k" and "m \<le> k" for w k m
    using that by (simp add: key_room_def) (meson add_left_mono le_less_trans)
qed

section \<open>Calls that touch no files\<close>

fun idle :: "syscall \<Rightarrow> bool" where
  "idle (Exists p) = True"
| "idle (Stat p) = True"
| "idle (Read_file p) = True"
| "idle (Trace s) = True"
| "idle _ = False"

definition same_files :: "world \<Rightarrow> world \<Rightarrow> bool" where
  "same_files w w' \<longleftrightarrow> entries w' = entries w \<and> inodes w' = inodes w \<and> next_inode w' = next_inode w \<and>
     tmp_counter w' = tmp_counter w \<and> (calm w \<longrightarrow> calm w')"

lemma same_files_pop: "same_files w (pop_fault w)"
  by (simp add: same_files_def)

lemma exec_idle: "idle c \<Longrightarrow> exec c w = (r, w') \<Longrightarrow> same_files w w'"
  by (cases c; cases "faults w 0") (auto simp: exec_def same_files_def calm_def pop_fault_def)

lemma same_files_content:
  "same_files w w' \<Longrightarrow> content w' = content w" "same_files w w' \<Longrightarrow> is_dir w' = is_dir w"
  by (simp_all add: same_files_def content_def [abs_def] is_dir_def [abs_def] cong: option.case_cong entry.case_cong)

lemma same_files_inv: "same_files w w' \<Longrightarrow> key_inv q n A s w \<Longrightarrow> key_inv q n A s w'"
  by (simp add: same_files_def key_inv_def)

lemma same_files_rely: "same_files w w' \<Longrightarrow> key_rely q n T w w'"
  using same_files_content [of w w'] by (auto simp: key_rely_def same_files_def key_issued_def)

lemma same_files_good: "same_files w w' \<Longrightarrow> key_inv q n A s w \<Longrightarrow> kr.good_step q n A s T w w'"
  by (simp add: kr.good_step_def same_files_inv same_files_rely)

lemma good_pop: "kr.good_step q n A s T (pop_fault w) w' \<Longrightarrow> kr.good_step q n A s T w w'"
  unfolding kr.good_step_def
  using key_rely_trans [OF same_files_rely [OF same_files_pop]] by blast

lemma quiet_idle:
  assumes "idle c" and "kr.stable q n A s T B"
  shows "kr.quiet q n A s T B (Call c (\<lambda>r. Ret (f r))) (\<lambda>x w. B w)"
proof -
  have "\<not> key_draws c" using assms(1) by (cases c) auto
  then have "kr.quiet q n A s T B (Call c (\<lambda>r. Ret (f r))) (\<lambda>x w. \<exists>r. x = f r \<and> B w)"
  proof (rule kr.quiet_prim [OF _ assms(2) assms(2)])
    fix w r w'
    assume "key_inv q n A s w" "B w" "exec c w = (r, w')"
    then show "kr.good_step q n A s T w w' \<and> B w'"
      using assms exec_idle [OF assms(1)] same_files_good same_files_rely same_files_inv
      unfolding kr.stable_def by metis
  qed
  then show ?thesis
    by (rule kr.quiet_conseq) auto
qed

section \<open>Loading\<close>

text \<open>What a thread may return: an identity only for the persisted seed, an error only when something
  failed from outside, and never a panic.\<close>

fun key_done :: "ed25519 \<Rightarrow> bool \<Rightarrow> path \<Rightarrow> identity trust_result \<Rightarrow> world \<Rightarrow> bool" where
  "key_done ed smooth p (Ok idn) w = (\<exists>s. content w p = Some s \<and> length s = 32 \<and> idn = from_seed ed s)"
| "key_done ed smooth p (Err e) w = (\<not> smooth)"
| "key_done ed smooth p Panic w = False"

lemma content_lookup: "content w p = Some b \<Longrightarrow> lookup w p \<noteq> None"
  by (auto simp: content_def split: option.splits)

lemma stable_True: "kr.stable q n A s T (\<lambda>w. True)"
  by (simp add: kr.stable_def)

lemma stable_const: "kr.stable q n A s T (\<lambda>w. c)"
  by (simp add: kr.stable_def)

lemma stable_conj:
  "kr.stable q n A s T B \<Longrightarrow> kr.stable q n A s T C \<Longrightarrow> kr.stable q n A s T (\<lambda>w. B w \<and> C w)"
  unfolding kr.stable_def by blast

lemma stable_imp: "(c \<Longrightarrow> kr.stable q n A s T B) \<Longrightarrow> kr.stable q n A s T (\<lambda>w. c \<longrightarrow> B w)"
  unfolding kr.stable_def by blast

lemma stable_ex: "(\<And>x. kr.stable q n A s T (B x)) \<Longrightarrow> kr.stable q n A s T (\<lambda>w. \<exists>x. B x w)"
  unfolding kr.stable_def by blast

lemma stable_present: "kr.stable q n A s T (\<lambda>w. lookup w (q @ [Normal n]) \<noteq> None)"
  by (auto simp: kr.stable_def key_rely_def)

lemma stable_content: "kr.stable q n A s T (\<lambda>w. content w (q @ [Normal n]) = Some b)"
  using content_lookup unfolding kr.stable_def key_rely_def by metis

lemma stable_done: "kr.stable q n A s T (key_done ed m (q @ [Normal n]) x)"
proof (cases x)
  case (Ok idn)
  show ?thesis
    unfolding Ok key_done.simps by (intro stable_ex stable_conj stable_content stable_const)
qed (simp_all add: kr.stable_def)

lemma exec_read:
  assumes "exec (Read_file p) w = (r, w')"
  shows "(\<exists>b. r = R_bytes b \<and> content w p = Some b) \<or>
    (\<exists>e. r = R_err e \<and> (calm w \<longrightarrow> content w p = None))"
proof (cases "faults w 0")
  case Run
  with assms have "r = (case lookup w p of Some (File i) \<Rightarrow> R_bytes (data (inodes w i)) | Some (Dir _) \<Rightarrow> EISDIR
      | None \<Rightarrow> if is_dir (pop_fault w) p then EISDIR else ENOENT)"
    by (auto simp: exec_def cong: option.case_cong entry.case_cong)
  then show ?thesis
    by (cases "lookup w p"; cases "the (lookup w p)") (auto simp: content_def errno)
next
  case (Fail e m)
  with assms show ?thesis by (auto simp: exec_def calm_def)
qed

text \<open>The common shape of a postcondition: errors only when something failed from outside.\<close>

fun ok_post :: "bool \<Rightarrow> ('a \<Rightarrow> world \<Rightarrow> bool) \<Rightarrow> ('e, 'a) result \<Rightarrow> world \<Rightarrow> bool" where
  "ok_post s B (Ok x) w = B x w"
| "ok_post s B (Err e) w = (\<not> s)"
| "ok_post s B Panic w = False"

lemma stable_ok_post: "(\<And>x. kr.stable q n A s T (B x)) \<Longrightarrow> kr.stable q n A s T (ok_post s B r)"
  by (cases r) (auto simp: kr.stable_def)

lemma ok_post_map_err: "ok_post s B (map_err g r) w = ok_post s B r w"
  by (cases r) auto

lemma quiet_perr_ok:
  assumes "kr.quiet q n A s T C p (ok_post s B)" and "\<And>x. kr.stable q n A s T (B x)"
  shows "kr.quiet q n A s T C (perr g p) (ok_post s B)"
  by (rule kr.quiet_conseq [OF kr.quiet_perr [OF assms(1) stable_ok_post [OF assms(2)]]])
    (auto simp: ok_post_map_err)

lemma rbind_ok:
  assumes "kr.quiet q n A s T C p (ok_post s B)" and "\<And>x. kr.stable q n A s T (B x)"
    and "\<And>x. kr.triple q n A s T (B x) (f x) Q" and "\<And>e w. \<not> s \<Longrightarrow> Q (Err e) T w"
  shows "kr.triple q n A s T C (rbind p f) Q"
  unfolding rbind_def
proof (rule kr.quiet_pbind [OF assms(1)])
  fix r
  show "kr.triple q n A s T (ok_post s B r) (case r of Ok x \<Rightarrow> f x | Err e \<Rightarrow> Ret (Err e) | Panic \<Rightarrow> Ret Panic) Q"
  proof (cases r)
    case (Ok x)
    with assms(3) [of x] show ?thesis by (simp add: kr.triple_def)
  qed (use assms(4) in \<open>auto intro!: kr.triple_Ret simp: kr.stable_def\<close>)
qed

lemma rbind_quiet:
  assumes "kr.quiet q n A s T C p (ok_post s B)" and "\<And>x. kr.stable q n A s T (B x)"
    and "\<And>x. kr.quiet q n A s T (B x) (f x) (ok_post s D)"
  shows "kr.quiet q n A s T C (rbind p f) (ok_post s D)"
  unfolding kr.quiet_def by (rule rbind_ok [OF assms(1,2)]) (use assms(3) in \<open>auto simp: kr.quiet_def\<close>)

text \<open>The effect of one call as a postcondition.\<close>

lemma quiet_call:
  assumes "\<not> key_draws c" and "kr.stable q n A s T C" and "\<And>x. kr.stable q n A s T (B x)"
    and "\<And>w r w'. key_inv q n A s w \<Longrightarrow> C w \<Longrightarrow> exec c w = (r, w') \<Longrightarrow>
      kr.good_step q n A s T w w' \<and> ok_post s B (f r) w'"
  shows "kr.quiet q n A s T C (Call c (\<lambda>r. Ret (f r))) (ok_post s B)"
proof -
  have "kr.quiet q n A s T C (Call c (\<lambda>r. Ret (f r))) (\<lambda>x w. \<exists>r. x = f r \<and> ok_post s B (f r) w)"
    by (rule kr.quiet_prim [OF assms(1,2) stable_ok_post [OF assms(3)] assms(4)])
  then show ?thesis
    by (rule kr.quiet_conseq) auto
qed

lemma fs_read_triple:
  "kr.quiet q n A s T (\<lambda>w. s \<longrightarrow> lookup w (q @ [Normal n]) \<noteq> None) (fs_read (q @ [Normal n]))
     (ok_post s (\<lambda>b w. content w (q @ [Normal n]) = Some b \<and> (s \<longrightarrow> length b = 32)))"
  unfolding fs_read_def
proof (rule quiet_call)
  let ?P = "q @ [Normal n]"
  show "\<not> key_draws (Read_file ?P)" by simp
  show "kr.stable q n A s T (\<lambda>w. s \<longrightarrow> lookup w ?P \<noteq> None)"
    by (intro stable_imp stable_present)
  show "kr.stable q n A s T (\<lambda>w. content w ?P = Some b \<and> (s \<longrightarrow> length b = 32))" for b
    by (intro stable_conj stable_content stable_const)
  fix w r w'
  assume a: "key_inv q n A s w" "s \<longrightarrow> lookup w ?P \<noteq> None" "exec (Read_file ?P) w = (r, w')"
  have f: "same_files w w'"
    using exec_idle [OF _ a(3)] by simp
  have "content w ?P = Some b \<Longrightarrow> s \<Longrightarrow> length b = 32" for b
    using a(1) by (auto simp: key_inv_def content_def split: option.splits entry.splits)
  moreover have "s \<Longrightarrow> content w ?P \<noteq> None \<and> calm w"
    using a(1,2) by (auto simp: key_inv_def content_def split: option.splits entry.splits)
  ultimately show "kr.good_step q n A s T w w' \<and>
      ok_post s (\<lambda>b w. content w ?P = Some b \<and> (s \<longrightarrow> length b = 32))
        (case r of R_bytes b \<Rightarrow> Ok b | R_err e \<Rightarrow> Err e | _ \<Rightarrow> Panic) w'"
    using exec_read [OF a(3)] same_files_good [OF f a(1)] same_files_content(1) [OF f] by auto
qed

lemma quiet_trace: "kr.stable q n A s T B \<Longrightarrow> kr.quiet q n A s T B (trace m) (\<lambda>_. B)"
  unfolding trace_def by (rule quiet_idle) simp

lemma quiet_warn:
  assumes "kr.stable q n A s T B"
  shows "kr.quiet q n A s T B (warn_if_loose_permissions p) (\<lambda>_. B)"
  unfolding warn_if_loose_permissions_def
proof (rule kr.quiet_quiet)
  show "kr.quiet q n A s T B (fs_metadata p) (\<lambda>_. B)"
    unfolding fs_metadata_def by (rule quiet_idle [OF _ assms]) simp
  fix r :: "(u32 \<times> nat) io_result"
  show "kr.quiet q n A s T B (case r of Ok (m, _) \<Rightarrow>
      if m AND 63 \<noteq> 0 then trace (lit ''identity key file has loose permissions; expected 0600'') else Ret ()
     | _ \<Rightarrow> trace (lit ''could not stat identity key file to check permissions'')) (\<lambda>_. B)"
    by (cases r) (auto intro!: quiet_trace kr.quiet_Ret assms simp del: lit_simps)
qed

lemma load_existing_triple:
  "kr.triple q n A s T (\<lambda>w. s \<longrightarrow> lookup w (q @ [Normal n]) \<noteq> None) (load_existing ed (q @ [Normal n]))
     (\<lambda>x T' w. key_done ed s (q @ [Normal n]) x w)"
  unfolding load_existing_def
proof (rule kr.quiet_pbind [OF quiet_warn], intro stable_imp stable_present)
  let ?P = "q @ [Normal n]"
  have st: "kr.stable q n A s T (\<lambda>w. content w ?P = Some b \<and> (s \<longrightarrow> length b = 32))" for b
    by (intro stable_conj stable_content stable_const)
  show "kr.triple q n A s T (\<lambda>w. s \<longrightarrow> lookup w ?P \<noteq> None)
     (rbind (perr (\<lambda>e. KeyManagement (lit ''failed to read identity key: '' @ io_text e)) (fs_read ?P)) (\<lambda>bytes.
     if length bytes \<noteq> 32
     then Ret (Err (KeyManagement
       (lit ''identity key file has invalid length: expected 32 bytes, got '' @ dec (length bytes))))
     else Ret (res_bind (copy_from_slice 32 bytes) (\<lambda>seed. Ok (from_seed ed seed)))))
     (\<lambda>x T' w. key_done ed s ?P x w)"
  proof (rule rbind_ok [OF quiet_perr_ok [OF fs_read_triple st] st])
    fix b :: bytes
    show "kr.triple q n A s T (\<lambda>w. content w ?P = Some b \<and> (s \<longrightarrow> length b = 32))
      (if length b \<noteq> 32
       then Ret (Err (KeyManagement
         (lit ''identity key file has invalid length: expected 32 bytes, got '' @ dec (length b))))
       else Ret (res_bind (copy_from_slice 32 b) (\<lambda>seed. Ok (from_seed ed seed))))
      (\<lambda>x T' w. key_done ed s ?P x w)"
      by (intro kr.triple_If kr.triple_Ret [OF st]) (simp_all add: copy_from_slice_def del: lit_simps)
  qed simp
qed

end
