(* ===== verification/Key_Publish.thy ===== *)
theory Key_Publish
  imports Key_Race
begin

text \<open>
  The writing half of the key race: each file-system call of a generator keeps the invariant
  and what the other generators rely on, and the generator as a whole returns the persisted
  identity.
\<close>

section \<open>What a generator knows of its own temporary file\<close>

definition priv :: "path \<Rightarrow> os_str \<Rightarrow> token \<Rightarrow> nat \<Rightarrow> world \<Rightarrow> bool" where
  "priv q n t i w \<longleftrightarrow>
     lookup w (tok_path q n t) = Some (File i) \<and> (\<forall>p. lookup w p = Some (File i) \<longrightarrow> p = tok_path q n t)"

lemma stable_priv: "kr.stable q n A s (Some t) (\<lambda>w. priv q n t i w \<and> data (inodes w i) = b)"
  by (auto simp: kr.stable_def key_rely_def priv_def)

lemma stable_priv': "kr.stable q n A s (Some t) (priv q n t i)"
  by (auto simp: kr.stable_def key_rely_def priv_def)

lemma stable_no_tmp: "kr.stable q n A s (Some t) (\<lambda>w. lookup w (tok_path q n t) = None)"
  by (auto simp: kr.stable_def key_rely_def)

lemma stable_dir: "kr.stable q n A s T (\<lambda>w. is_dir w d)"
  by (auto simp: kr.stable_def key_rely_def)

lemma tok_path_neq [simp]: "tok_path q n t \<noteq> q @ [Normal n]" "q @ [Normal n] \<noteq> tok_path q n t"
  using tmp_path_for_neq [of q n "fst t" "snd t"] by auto

lemma tok_path_inj [simp]: "tok_path q n t = tok_path q n u \<longleftrightarrow> t = u"
  by (auto simp: tmp_path_for_inj prod_eq_iff)

lemma tok_path_snoc: "\<exists>m. tok_path q n t = q @ [Normal m]"
  by (auto simp: tmp_path_for_join)

lemma is_dir_snoc: "is_dir w (p @ [Normal m]) \<longleftrightarrow> (\<exists>x. lookup w (p @ [Normal m]) = Some (Dir x))"
  by (auto simp: is_dir_def split: option.splits entry.splits)

section \<open>Directories\<close>

lemma make_dirs_good:
  assumes "key_inv q n A s w" and "set ps \<subseteq> set (ancestors q)"
  shows "kr.good_step q n A s T w (snd (make_dirs ps w))"
proof -
  let ?w = "snd (make_dirs ps w)"
  have f: "lookup ?w p = Some (File i) \<longleftrightarrow> lookup w p = Some (File i)" for p i
    using make_dirs_lookup [of ps w p] by auto
  have l: "lookup ?w (q @ [x]) = lookup w (q @ [x])" for x
    using make_dirs_lookup [of ps w "q @ [x]"] ancestors_length [of "q @ [x]" q] assms(2) by auto
  have t: "lookup ?w (tmp_path_for q n a b) = lookup w (tmp_path_for q n a b)" for a b
    using l by (simp add: tmp_path_for_join)
  have "key_inv q n A s ?w"
    using assms(1) unfolding key_inv_def f l t make_dirs_fields make_dirs_counter
    by (simp add: calm_def make_dirs_fields)
  moreover have "key_rely q n U w ?w" for U
    unfolding key_rely_def f l t make_dirs_fields
    using make_dirs_dir
    by (auto simp: content_def l make_dirs_fields key_issued_def split: option.splits entry.splits)
  ultimately show ?thesis by (simp add: kr.good_step_def)
qed

lemma create_dirs_triple:
  assumes "q \<noteq> []"
  shows "kr.quiet q n A s T (\<lambda>w. True) (fs_unit (Create_dir_all q)) (ok_post s (\<lambda>_ w. s \<longrightarrow> is_dir w q))"
  unfolding fs_unit_def
proof (rule quiet_call)
  fix w r w'
  assume a: "key_inv q n A s w" "exec (Create_dir_all q) w = (r, w')"
  have i: "key_inv q n A s (pop_fault w)"
    by (rule same_files_inv [OF same_files_pop a(1)])
  show "kr.good_step q n A s T w w' \<and>
      ok_post s (\<lambda>_ w. s \<longrightarrow> is_dir w q) (case r of R_unit \<Rightarrow> Ok () | R_err e \<Rightarrow> Err e | _ \<Rightarrow> Panic) w'"
  proof (cases "faults w 0")
    case Run
    then have e: "r = fst (make_dirs (ancestors q) (pop_fault w))" "w' = snd (make_dirs (ancestors q) (pop_fault w))"
      using a(2) by (simp_all add: exec_def)
    moreover have "r = R_unit \<and> is_dir w' q \<or> \<not> s \<and> (r = R_unit \<or> (\<exists>x. r = R_err x))"
    proof (cases s)
      case True
      then have "\<And>p j. p \<in> set (ancestors q) \<Longrightarrow> lookup (pop_fault w) p \<noteq> Some (File j)"
        using a(1) by (auto simp: key_inv_def)
      from make_dirs_ok [OF this] show ?thesis using e ancestors_self [OF assms] by auto
    next
      case False
      with e make_dirs_reply show ?thesis by auto
    qed
    ultimately show ?thesis
      using good_pop [OF make_dirs_good [OF i order_refl]] by auto
  next
    case (Fail e m)
    then have "r = R_err e" "w' = snd (make_dirs (take m (ancestors q)) (pop_fault w))"
      using a(2) by (simp_all add: exec_def)
    moreover have "\<not> s"
      using a(1) Fail by (auto simp: key_inv_def calm_def)
    ultimately show ?thesis
      using good_pop [OF make_dirs_good [OF i set_take_subset]] by simp
  qed
qed (auto intro: stable_imp stable_dir stable_True)

section \<open>The temporary file\<close>

text \<open>Every call below either does its work on the popped world, or fails there.\<close>

lemma exec_smooth: "key_inv q n A s w \<Longrightarrow> faults w 0 = Fail e m \<Longrightarrow> \<not> s"
  by (auto simp: key_inv_def calm_def)

lemma key_relyI:
  assumes "lookup w (q @ [Normal n]) \<noteq> None \<Longrightarrow> lookup w' (q @ [Normal n]) = lookup w (q @ [Normal n])"
    and "\<And>i. lookup w (q @ [Normal n]) = Some (File i) \<Longrightarrow> data (inodes w' i) = data (inodes w i)"
    and "\<And>d m. lookup w d = Some (Dir m) \<Longrightarrow> \<exists>m'. lookup w' d = Some (Dir m')"
    and "\<And>u. key_issued w u \<Longrightarrow> key_issued w' u"
    and "\<And>u. U = Some u \<Longrightarrow> lookup w' (tok_path q n u) = lookup w (tok_path q n u)"
    and "\<And>u i. U = Some u \<Longrightarrow> lookup w (tok_path q n u) = Some (File i) \<Longrightarrow> inodes w' i = inodes w i"
    and "\<And>u i p. U = Some u \<Longrightarrow> lookup w (tok_path q n u) = Some (File i) \<Longrightarrow>
      lookup w' p = Some (File i) \<longleftrightarrow> lookup w p = Some (File i)"
  shows "key_rely q n U w w'"
proof -
  have "is_dir w' d" if "is_dir w d" for d
    using that assms(3) [of d] by (auto simp: is_dir_def split: option.splits entry.splits)
  moreover have "content w' (q @ [Normal n]) = content w (q @ [Normal n])" if "lookup w (q @ [Normal n]) \<noteq> None"
    using assms(1) [OF that] assms(2) by (auto simp: content_def split: option.splits entry.splits)
  ultimately show ?thesis
    unfolding key_rely_def using assms(1,4,5,6,7) by blast
qed

lemma good_stepI:
  "key_inv q n A s w' \<Longrightarrow> (\<And>U. U \<noteq> Some t \<Longrightarrow> key_rely q n U w w') \<Longrightarrow> kr.good_step q n A s (Some t) w w'"
  by (auto simp: kr.good_step_def)

lemma key_invI:
  assumes "\<And>p i. lookup w p = Some (File i) \<Longrightarrow> i < next_inode w"
    and "\<And>t. tmp_counter w (fst t) \<le> snd t \<Longrightarrow> lookup w (tok_path q n t) = None"
    and "\<And>a b i. lookup w (tok_path q n a) = Some (File i) \<Longrightarrow> lookup w (tok_path q n b) = Some (File i) \<Longrightarrow> a = b"
    and "\<And>i. lookup w (q @ [Normal n]) = Some (File i) \<Longrightarrow> data (inodes w i) \<in> A"
    and "s \<Longrightarrow> calm w" and "\<And>p i. s \<Longrightarrow> p \<in> set (ancestors q) \<Longrightarrow> lookup w p \<noteq> Some (File i)"
    and "\<And>m. s \<Longrightarrow> lookup w (q @ [Normal n]) \<noteq> Some (Dir m)" and "\<And>a. s \<Longrightarrow> a \<in> A \<Longrightarrow> length a = 32"
  shows "key_inv q n A s w"
  unfolding key_inv_def using assms by blast

lemma key_invD:
  assumes "key_inv q n A s w"
  shows "lookup w p = Some (File i) \<Longrightarrow> i < next_inode w"
    and "tmp_counter w (fst t) \<le> snd t \<Longrightarrow> lookup w (tok_path q n t) = None"
    and "lookup w (tok_path q n a) = Some (File i) \<Longrightarrow> lookup w (tok_path q n b) = Some (File i) \<Longrightarrow> a = b"
    and "lookup w (q @ [Normal n]) = Some (File i) \<Longrightarrow> data (inodes w i) \<in> A"
    and "s \<Longrightarrow> calm w" and "s \<Longrightarrow> p \<in> set (ancestors q) \<Longrightarrow> lookup w p \<noteq> Some (File i)"
    and "s \<Longrightarrow> lookup w (q @ [Normal n]) \<noteq> Some (Dir m)" and "s \<Longrightarrow> c \<in> A \<Longrightarrow> length c = 32"
  using assms unfolding key_inv_def by blast+

lemma tok_path_ancestor: "tok_path q n t \<notin> set (ancestors q)" "q @ [Normal n] \<notin> set (ancestors q)"
  using ancestors_length [of _ q] by (fastforce simp: tmp_path_for_join)+

lemma set_inode_good:
  assumes "key_inv q n A s w" and "priv q n t i w"
  shows "kr.good_step q n A s (Some t) w (set_inode i x w)"
proof (rule good_stepI)
  show "key_inv q n A s (set_inode i x w)"
    using assms by (auto simp: key_inv_def priv_def calm_def)
  fix U
  assume "U \<noteq> Some t"
  then have "lookup w (tok_path q n u) = Some (File j) \<Longrightarrow> U = Some u \<Longrightarrow> j \<noteq> i" for u j
    using assms(2) by (auto simp: priv_def simp del: split_paired_All)
  then show "key_rely q n U w (set_inode i x w)"
    using assms(2) by (intro key_relyI) (auto simp: priv_def key_issued_def)
qed

lemma priv_set_inode [simp]: "priv q n t i (set_inode j x w) = priv q n t i w"
  by (simp add: priv_def)

lemma is_dir_set_inode [simp]: "is_dir (set_inode j x w) d = is_dir w d"
  by (simp add: is_dir_def)

lemma open_good:
  assumes "key_inv q n A s w" and "lookup w (tok_path q n t) = None" and "key_issued w t"
    and "open_write False m (tok_path q n t) w = (r, w')"
  shows "kr.good_step q n A s (Some t) w w' \<and>
    ((\<exists>i. r = R_handle i \<and> priv q n t i w' \<and> data (inodes w' i) = []) \<or> (\<exists>e. r = R_err e \<and> \<not> is_dir w q))"
proof -
  let ?t = "tok_path q n t"
  obtain x where x: "?t = q @ [Normal x]" using tok_path_snoc by blast
  have nd: "\<not> is_dir w ?t"
    using assms(2) unfolding x is_dir_snoc by simp
  show ?thesis
  proof (cases "is_dir w q")
    case False
    then have "r = ENOENT" "w' = w"
      using assms(2,4) nd by (auto simp: open_write_def x)
    with False show ?thesis
      using same_files_good [OF _ assms(1), of w] by (simp add: same_files_def errno)
  next
    case True
    let ?i = "next_inode w"
    have e: "r = R_handle ?i" "lookup w' = (lookup w)(?t \<mapsto> File ?i)" "next_inode w' = Suc ?i"
      "inodes w' = (inodes w)(?i := \<lparr>data = [], mode = m AND NOT (umask w)\<rparr>)" "tmp_counter w' = tmp_counter w"
      "faults w' = faults w"
      using assms(2,4) nd True by (auto simp: open_write_def x)
    have fresh: "lookup w p \<noteq> Some (File ?i)" for p
      using assms(1) by (auto simp: key_inv_def)
    have "key_inv q n A s w'"
    proof (rule key_invI)
      show "lookup w' p = Some (File i) \<Longrightarrow> i < next_inode w'" for p i
        using key_invD(1) [OF assms(1), of p i] by (auto simp: e split: if_splits)
      show "tmp_counter w' (fst u) \<le> snd u \<Longrightarrow> lookup w' (tok_path q n u) = None" for u
        using key_invD(2) [OF assms(1), of u] assms(3) by (auto simp: e key_issued_def)
      show "a = b" if "lookup w' (tok_path q n a) = Some (File i)" "lookup w' (tok_path q n b) = Some (File i)" for a b i
        using key_invD(3) [OF assms(1), of a i b] fresh that by (auto simp: e split: if_splits)
      show "lookup w' (q @ [Normal n]) = Some (File i) \<Longrightarrow> data (inodes w' i) \<in> A" for i
        using key_invD(4) [OF assms(1), of i] fresh by (auto simp: e)
      show "s \<Longrightarrow> calm w'"
        using key_invD(5) [OF assms(1)] by (simp add: calm_def e)
      show "s \<Longrightarrow> p \<in> set (ancestors q) \<Longrightarrow> lookup w' p \<noteq> Some (File i)" for p i
        using key_invD(6) [OF assms(1), of p i] tok_path_ancestor(1) [of q n t] by (auto simp: e)
      show "s \<Longrightarrow> lookup w' (q @ [Normal n]) \<noteq> Some (Dir k)" for k
        using key_invD(7) [OF assms(1), of k] by (simp add: e)
    qed (rule key_invD(8) [OF assms(1)])
    moreover have "key_rely q n U w w'" if "U \<noteq> Some t" for U
      using that fresh e assms(2) by (intro key_relyI) (auto simp: key_issued_def)
    moreover have "priv q n t ?i w'" "data (inodes w' ?i) = []"
      using e fresh by (auto simp: priv_def)
    ultimately show ?thesis
      using e(1) by (auto simp: kr.good_step_def)
  qed
qed

lemma stable_issued: "kr.stable q n A s T (\<lambda>w. key_issued w t)"
  unfolding kr.stable_def key_rely_def by blast

lemmas stable_intros = stable_imp stable_conj stable_const stable_dir stable_issued stable_no_tmp stable_priv stable_priv'
  stable_present stable_content

text \<open>A call that fails from outside changes nothing, apart from the calls with partial effects.\<close>

lemma exec_same_fail:
  assumes "exec c w = (r, w')" and "faults w 0 = Fail e m" and "perform_fail e m c (pop_fault w) = (R_err e, pop_fault w)"
    and "key_inv q n A s w"
  shows "r = R_err e \<and> kr.good_step q n A s T w w' \<and> \<not> s"
  using assms same_files_good [OF same_files_pop assms(4)] exec_smooth [OF assms(4,2)] by (simp add: exec_def)

lemma pop_inv: "key_inv q n A s w \<Longrightarrow> key_inv q n A s (pop_fault w)"
  by (rule same_files_inv [OF same_files_pop])

lemma pop_simps [simp]:
  "priv q n t i (pop_fault w) = priv q n t i w" "is_dir (pop_fault w) d = is_dir w d"
  "key_issued (pop_fault w) t = key_issued w t"
  by (simp_all add: priv_def is_dir_def key_issued_def)

lemma open_triple:
  "kr.quiet q n A s (Some t) (\<lambda>w. lookup w (tok_path q n t) = None \<and> key_issued w t \<and> (s \<longrightarrow> is_dir w q))
     (fs_open False m (tok_path q n t))
     (ok_post s (\<lambda>i w. priv q n t i w \<and> data (inodes w i) = []))"
  unfolding fs_open_def
proof (rule quiet_call)
  fix w r w'
  assume a: "key_inv q n A s w" "lookup w (tok_path q n t) = None \<and> key_issued w t \<and> (s \<longrightarrow> is_dir w q)"
    "exec (Open_write False m (tok_path q n t)) w = (r, w')"
  show "kr.good_step q n A s (Some t) w w' \<and> ok_post s (\<lambda>i w. priv q n t i w \<and> data (inodes w i) = [])
      (case r of R_handle i \<Rightarrow> Ok i | R_err e \<Rightarrow> Err e | _ \<Rightarrow> Panic) w'"
  proof (cases "faults w 0")
    case Run
    then have "open_write False m (tok_path q n t) (pop_fault w) = (r, w')"
      using a(3) by (simp add: exec_def)
    from open_good [OF pop_inv [OF a(1)] _ _ this] a(2) show ?thesis
      by (auto intro: good_pop)
  next
    case (Fail e k)
    from exec_same_fail [OF a(3) Fail _ a(1), of "Some t"] show ?thesis by auto
  qed
qed (simp, (intro stable_intros)+)

lemma write_triple:
  "kr.quiet q n A s (Some t) (\<lambda>w. priv q n t i w \<and> data (inodes w i) = []) (fs_unit (Write_all i b))
     (ok_post s (\<lambda>_ w. priv q n t i w \<and> data (inodes w i) = b))"
  unfolding fs_unit_def
proof (rule quiet_call)
  fix w r w'
  assume a: "key_inv q n A s w" "priv q n t i w \<and> data (inodes w i) = []" "exec (Write_all i b) w = (r, w')"
  have g: "kr.good_step q n A s (Some t) w (write_data i c (pop_fault w))" for c
    unfolding write_data_def by (rule good_pop [OF set_inode_good [OF pop_inv [OF a(1)]]]) (simp add: a(2))
  show "kr.good_step q n A s (Some t) w w' \<and> ok_post s (\<lambda>_ w. priv q n t i w \<and> data (inodes w i) = b)
      (case r of R_unit \<Rightarrow> Ok () | R_err e \<Rightarrow> Err e | _ \<Rightarrow> Panic) w'"
    using a(2,3) g exec_smooth [OF a(1)] by (cases "faults w 0") (auto simp: exec_def write_data_def)
qed (simp, (intro stable_intros)+)

lemma set_mode_triple:
  "kr.quiet q n A s (Some t) (\<lambda>w. priv q n t i w \<and> data (inodes w i) = b) (fs_unit (Set_mode (tok_path q n t) m))
     (ok_post s (\<lambda>_ w. priv q n t i w \<and> data (inodes w i) = b))"
  unfolding fs_unit_def
proof (rule quiet_call)
  fix w r w'
  assume a: "key_inv q n A s w" "priv q n t i w \<and> data (inodes w i) = b" "exec (Set_mode (tok_path q n t) m) w = (r, w')"
  have g: "kr.good_step q n A s (Some t) w (set_inode i x (pop_fault w))" for x
    by (rule good_pop [OF set_inode_good [OF pop_inv [OF a(1)]]]) (simp add: a(2))
  have l: "lookup w (tok_path q n t) = Some (File i)"
    using a(2) by (simp add: priv_def)
  show "kr.good_step q n A s (Some t) w w' \<and> ok_post s (\<lambda>_ w. priv q n t i w \<and> data (inodes w i) = b)
      (case r of R_unit \<Rightarrow> Ok () | R_err e \<Rightarrow> Err e | _ \<Rightarrow> Panic) w'"
  proof (cases "faults w 0")
    case Run
    with a(2,3) g l show ?thesis by (auto simp: exec_def)
  next
    case (Fail e k)
    from exec_same_fail [OF a(3) Fail _ a(1), of "Some t"] show ?thesis by auto
  qed
qed (simp, (intro stable_intros)+)

lemma link_good:
  assumes "key_inv q n A s w" and "priv q n t i w" and "data (inodes w i) \<in> A" and "lookup w (q @ [Normal n]) = None"
  shows "kr.good_step q n A s (Some t) w (set_entry (q @ [Normal n]) (File i) w)"
proof (rule good_stepI)
  note D = key_invD [OF assms(1)]
  let ?w = "set_entry (q @ [Normal n]) (File i) w"
  have i: "lookup w (tok_path q n t) = Some (File i)"
    using assms(2) by (simp add: priv_def)
  show "key_inv q n A s ?w"
  proof (rule key_invI)
    show "lookup ?w p = Some (File j) \<Longrightarrow> j < next_inode ?w" for p j
      using D(1) i by (auto split: if_splits)
    show "tmp_counter ?w (fst u) \<le> snd u \<Longrightarrow> lookup ?w (tok_path q n u) = None" for u
      using D(2) by simp
    show "a = b" if "lookup ?w (tok_path q n a) = Some (File j)" "lookup ?w (tok_path q n b) = Some (File j)" for a b j
      using D(3) that by simp
    show "s \<Longrightarrow> p \<in> set (ancestors q) \<Longrightarrow> lookup ?w p \<noteq> Some (File j)" for p j
      using D(6) tok_path_ancestor(2) [of q n] by auto
  qed (use assms(3) D(5,8) in \<open>auto simp: calm_def\<close>)
  fix U
  assume "U \<noteq> Some t"
  then have "lookup w (tok_path q n u) = Some (File j) \<Longrightarrow> U = Some u \<Longrightarrow> j \<noteq> i" for u j
    using assms(2) by (auto simp: priv_def simp del: split_paired_All)
  then show "key_rely q n U w ?w"
    using assms(4) by (intro key_relyI) (auto simp: key_issued_def)
qed

lemma del_good:
  assumes "key_inv q n A s w" and "lookup w (tok_path q n t) = Some (File i)"
  shows "kr.good_step q n A s (Some t) w (del_entry (tok_path q n t) w)"
proof (rule good_stepI)
  note D = key_invD [OF assms(1)]
  let ?w = "del_entry (tok_path q n t) w"
  show "key_inv q n A s ?w"
  proof (rule key_invI)
    show "lookup ?w p = Some (File j) \<Longrightarrow> j < next_inode ?w" for p j
      using D(1) by (auto split: if_splits)
    show "tmp_counter ?w (fst u) \<le> snd u \<Longrightarrow> lookup ?w (tok_path q n u) = None" for u
      using D(2) by simp
    show "a = b" if "lookup ?w (tok_path q n a) = Some (File j)" "lookup ?w (tok_path q n b) = Some (File j)" for a b j
      using D(3) that by (auto split: if_splits simp del: tok_path_inj)
    show "s \<Longrightarrow> p \<in> set (ancestors q) \<Longrightarrow> lookup ?w p \<noteq> Some (File j)" for p j
      using D(6) by simp
  qed (use D(4,5,7,8) in \<open>auto simp: calm_def\<close>)
  fix U
  assume "U \<noteq> Some t"
  then have "lookup w (tok_path q n u) = Some (File j) \<Longrightarrow> U = Some u \<Longrightarrow> j \<noteq> i" for u j
    using D(3) [OF assms(2), of u] by auto
  then show "key_rely q n U w ?w"
    using assms(2) \<open>U \<noteq> Some t\<close> by (intro key_relyI) (auto simp: key_issued_def)
qed

text \<open>Assertions on the key path survive the removal of the temporary name.\<close>

lemma remove_tmp_triple:
  assumes "kr.stable q n A s (Some t) B"
    and "\<And>w w'. B w \<Longrightarrow> lookup w' (q @ [Normal n]) = lookup w (q @ [Normal n]) \<Longrightarrow> inodes w' = inodes w \<Longrightarrow> B w'"
  shows "kr.quiet q n A s (Some t) B (remove_tmp_file (tok_path q n t)) (\<lambda>_. B)"
  unfolding remove_tmp_file_def fs_unit_def
proof (rule kr.quiet_quiet [where R = "\<lambda>_. B"])
  have "kr.quiet q n A s (Some t) B (Call (Remove_file (tok_path q n t)) (\<lambda>r. Ret (case r of R_unit \<Rightarrow> Ok () | R_err e \<Rightarrow> Err e | _ \<Rightarrow> Panic)))
      (\<lambda>x w. \<exists>r. x = (case r of R_unit \<Rightarrow> Ok () | R_err e \<Rightarrow> Err e | _ \<Rightarrow> Panic) \<and> B w)"
  proof (rule kr.quiet_prim [OF _ assms(1) assms(1)])
    fix w r w'
    assume a: "key_inv q n A s w" "B w" "exec (Remove_file (tok_path q n t)) w = (r, w')"
    have sf: "kr.good_step q n A s (Some t) w (pop_fault w)"
      by (rule same_files_good [OF same_files_pop a(1)])
    have B: "B (pop_fault w)" "B (del_entry (tok_path q n t) (pop_fault w))"
      using a(2) by (auto intro: assms(2))
    consider "w' = pop_fault w" | i where "w' = del_entry (tok_path q n t) (pop_fault w)" "lookup w (tok_path q n t) = Some (File i)"
      using a(3) by (cases "faults w 0"; cases "lookup w (tok_path q n t)"; cases "the (lookup w (tok_path q n t))")
        (auto simp: exec_def)
    then show "kr.good_step q n A s (Some t) w w' \<and> B w'"
      by cases (use sf B good_pop [OF del_good [OF pop_inv [OF a(1)]]] in auto)
  qed simp
  then show "kr.quiet q n A s (Some t) B (Call (Remove_file (tok_path q n t)) (\<lambda>r. Ret (case r of R_unit \<Rightarrow> Ok () | R_err e \<Rightarrow> Err e | _ \<Rightarrow> Panic))) (\<lambda>_. B)"
    by (rule kr.quiet_conseq) auto
  fix r :: "unit io_result"
  show "kr.quiet q n A s (Some t) B (case r of Err e \<Rightarrow> if io_kind e \<noteq> NotFound
      then trace (lit ''failed to remove temporary identity key file after write failure'') else Ret () | _ \<Rightarrow> Ret ()) (\<lambda>_. B)"
    by (cases r) (auto intro!: quiet_trace kr.quiet_Ret assms(1) simp del: lit_simps)
qed

section \<open>Publishing\<close>

fun link_post :: "bool \<Rightarrow> path \<Rightarrow> bytes \<Rightarrow> unit io_result \<Rightarrow> world \<Rightarrow> bool" where
  "link_post s p seed (Ok _) w = (content w p = Some seed)"
| "link_post s p seed (Err e) w = (if io_kind e = AlreadyExists then s \<longrightarrow> lookup w p \<noteq> None else \<not> s)"
| "link_post s p seed Panic w = False"

lemma stable_link_post: "kr.stable q n A s T (link_post s (q @ [Normal n]) seed x)"
proof (cases x)
  case (Err e)
  have "kr.stable q n A s T (\<lambda>w. s \<longrightarrow> lookup w (q @ [Normal n]) \<noteq> None)"
    by (intro stable_imp stable_present)
  with Err show ?thesis by (simp add: kr.stable_def) blast
qed (use stable_content [of q n A s T seed] in \<open>simp_all add: kr.stable_def\<close>)

lemma content_cong: "lookup w' p = lookup w p \<Longrightarrow> inodes w' = inodes w \<Longrightarrow> content w' p = content w p"
  by (simp add: content_def cong: option.case_cong entry.case_cong)

lemma link_effect:
  assumes "key_inv q n A s w" and "priv q n t i w" and "data (inodes w i) = seed" and "seed \<in> A" and "s \<longrightarrow> is_dir w q"
    and "perform (Hard_link (tok_path q n t) (q @ [Normal n])) w = (r, w')"
  shows "kr.good_step q n A s (Some t) w w' \<and>
    link_post s (q @ [Normal n]) seed (case r of R_unit \<Rightarrow> Ok () | R_err e \<Rightarrow> Err e | _ \<Rightarrow> Panic) w'"
proof -
  have l: "lookup w (tok_path q n t) = Some (File i)"
    using assms(2) by (simp add: priv_def)
  have same: "kr.good_step q n A s (Some t) w w"
    by (rule same_files_good [OF _ assms(1)]) (simp add: same_files_def)
  consider "lookup w (q @ [Normal n]) \<noteq> None" | "lookup w (q @ [Normal n]) = None" "\<not> is_dir w q"
    | "lookup w (q @ [Normal n]) = None" "is_dir w q" by blast
  then show ?thesis
  proof cases
    case 1
    with l assms(6) same show ?thesis by (auto simp: errno)
  next
    case 2
    with l assms(5,6) same show ?thesis by (auto simp: errno is_dir_snoc)
  next
    case 3
    have "r = R_unit" "w' = set_entry (q @ [Normal n]) (File i) w"
      using 3 l assms(6) by (auto simp: is_dir_snoc)
    with link_good [OF assms(1,2) _ 3(1)] assms(3,4) show ?thesis
      by (simp add: content_def)
  qed
qed

lemma link_triple:
  assumes "seed \<in> A"
  shows "kr.quiet q n A s (Some t) (\<lambda>w. (priv q n t i w \<and> data (inodes w i) = seed) \<and> (s \<longrightarrow> is_dir w q))
     (fs_unit (Hard_link (tok_path q n t) (q @ [Normal n]))) (link_post s (q @ [Normal n]) seed)"
  unfolding fs_unit_def
proof (rule kr.quiet_conseq [OF kr.quiet_prim])
  let ?f = "\<lambda>r. case r of R_unit \<Rightarrow> Ok () | R_err e \<Rightarrow> Err e | _ \<Rightarrow> Panic"
  fix w r w'
  assume a: "key_inv q n A s w" "(priv q n t i w \<and> data (inodes w i) = seed) \<and> (s \<longrightarrow> is_dir w q)"
    "exec (Hard_link (tok_path q n t) (q @ [Normal n])) w = (r, w')"
  show "kr.good_step q n A s (Some t) w w' \<and> link_post s (q @ [Normal n]) seed (?f r) w'"
  proof (cases "faults w 0")
    case Run
    then have "perform (Hard_link (tok_path q n t) (q @ [Normal n])) (pop_fault w) = (r, w')"
      using a(3) by (simp add: exec_def)
    from link_effect [OF pop_inv [OF a(1)] _ _ assms _ this] a(2) good_pop show ?thesis by auto
  next
    case (Fail e k)
    from exec_same_fail [OF a(3) Fail _ a(1), of "Some t"] show ?thesis by auto
  qed
next
  show "kr.stable q n A s (Some t) (\<lambda>w. (priv q n t i w \<and> data (inodes w i) = seed) \<and> (s \<longrightarrow> is_dir w q))"
    by (intro stable_conj stable_priv stable_imp stable_dir)
qed (simp_all add: stable_link_post, blast)

lemma publish_triple:
  assumes "seed \<in> A" and "length seed = 32"
  shows "kr.triple q n A s (Some t) (\<lambda>w. (priv q n t i w \<and> data (inodes w i) = seed) \<and> (s \<longrightarrow> is_dir w q))
     (publish ed (q @ [Normal n]) seed (tok_path q n t)) (\<lambda>x T' w. key_done ed s (q @ [Normal n]) x w)"
  unfolding publish_def
proof (rule kr.quiet_pbind [OF link_triple [OF assms(1)]])
  let ?P = "q @ [Normal n]"
  let ?Q = "\<lambda>x (T' :: token option) w. key_done ed s ?P x w"
  fix r :: "unit io_result"
  have st1: "kr.stable q n A s (Some t) (\<lambda>w. s \<longrightarrow> lookup w ?P \<noteq> None)"
    by (intro stable_intros)
  have ok: "kr.triple q n A s (Some t) (\<lambda>w. content w ?P = Some seed) (pbind (remove_tmp_file (tok_path q n t)) (\<lambda>_.
      pbind (trace (lit ''generated and persisted identity key'')) (\<lambda>_. Ret (Ok (from_seed ed seed))))) ?Q"
    by (rule kr.quiet_pbind [OF remove_tmp_triple [OF stable_content]], metis content_cong,
        rule kr.quiet_pbind [OF quiet_trace [OF stable_content]], rule kr.triple_Ret [OF stable_content])
      (use assms(2) in simp)
  have lost: "kr.triple q n A s (Some t) (\<lambda>w. s \<longrightarrow> lookup w ?P \<noteq> None) (pbind (remove_tmp_file (tok_path q n t)) (\<lambda>_.
      pbind (trace (lit ''identity key was persisted concurrently; loading the persisted key'')) (\<lambda>_. load_existing ed ?P))) ?Q"
    by (rule kr.quiet_pbind [OF remove_tmp_triple [OF st1]], simp,
        rule kr.quiet_pbind [OF quiet_trace [OF st1] load_existing_triple])
  have err: "kr.triple q n A s (Some t) (\<lambda>w. \<not> s) (pbind (remove_tmp_file (tok_path q n t)) (\<lambda>_. Ret (Err e))) ?Q" for e
    by (rule kr.quiet_pbind [OF remove_tmp_triple [OF stable_const]], simp,
        rule kr.triple_Ret [OF stable_const]) simp
  show "kr.triple q n A s (Some t) (link_post s ?P seed r) (case r of
       Ok _ \<Rightarrow> pbind (remove_tmp_file (tok_path q n t)) (\<lambda>_.
         pbind (trace (lit ''generated and persisted identity key'')) (\<lambda>_. Ret (Ok (from_seed ed seed))))
     | Err e \<Rightarrow> if io_kind e = AlreadyExists then
           pbind (remove_tmp_file (tok_path q n t)) (\<lambda>_.
           pbind (trace (lit ''identity key was persisted concurrently; loading the persisted key'')) (\<lambda>_.
           load_existing ed ?P))
         else pbind (remove_tmp_file (tok_path q n t)) (\<lambda>_. Ret (Err (write_failed e)))
     | Panic \<Rightarrow> Ret Panic) ?Q"
    using ok lost err by (cases r) (auto simp: kr.triple_def simp del: lit_simps)
qed

section \<open>The generator\<close>

lemma write_identity_triple:
  "kr.quiet q n A s (Some t) (\<lambda>w. lookup w (tok_path q n t) = None \<and> key_issued w t \<and> (s \<longrightarrow> is_dir w q))
     (write_identity_file (tok_path q n t) seed)
     (ok_post s (\<lambda>_ w. \<exists>i. priv q n t i w \<and> data (inodes w i) = seed))"
  unfolding write_identity_file_def
proof (rule rbind_quiet [OF quiet_perr_ok [OF open_triple stable_priv] stable_priv])
  fix i
  have *: "kr.quiet q n A s (Some t) (\<lambda>w. priv q n t i w \<and> data (inodes w i) = [])
      (rbind (perr write_failed (fs_unit (Write_all i seed))) (\<lambda>_. perr write_failed (fs_unit (Set_mode (tok_path q n t) 384))))
      (ok_post s (\<lambda>_ w. priv q n t i w \<and> data (inodes w i) = seed))"
    by (rule rbind_quiet [OF quiet_perr_ok [OF write_triple stable_priv] stable_priv quiet_perr_ok [OF set_mode_triple stable_priv]])
  then show "kr.quiet q n A s (Some t) (\<lambda>w. priv q n t i w \<and> data (inodes w i) = [])
      (rbind (perr write_failed (fs_unit (Write_all i seed))) (\<lambda>_. perr write_failed (fs_unit (Set_mode (tok_path q n t) 384))))
      (ok_post s (\<lambda>_ w. \<exists>i. priv q n t i w \<and> data (inodes w i) = seed))"
    by (rule kr.quiet_conseq) (auto elim!: ok_post.elims)
qed

lemma fetch_good:
  assumes "key_inv q n A s w" and "key_room w 1"
    and "w' = (pop_fault w)\<lparr>tmp_counter := (tmp_counter w)(pid := tmp_counter w pid + 1)\<rparr>"
  shows "key_inv q n A s w' \<and> key_rely q n U w w' \<and> key_issued w' (pid, tmp_counter w pid)"
proof -
  note D = key_invD [OF assms(1)]
  have u: "unat (tmp_counter w pid + 1) = unat (tmp_counter w pid) + 1"
    using key_room_Suc [of w 0] assms(2) by simp
  have up: "tmp_counter w p \<le> tmp_counter w' p" for p
    using u by (simp add: assms(3) word_le_nat_alt)
  have "key_inv q n A s w'"
  proof (rule key_invI)
    show "tmp_counter w' (fst t) \<le> snd t \<Longrightarrow> lookup w' (tok_path q n t) = None" for t
      using D(2) [of t] up [of "fst t"] by (simp add: assms(3))
    show "s \<Longrightarrow> calm w'"
      using D(5) by (simp add: assms(3) calm_def pop_fault_def)
    show "a = b" if "lookup w' (tok_path q n a) = Some (File i)" "lookup w' (tok_path q n b) = Some (File i)" for a b i
      using D(3) that by (simp add: assms(3))
  qed (use D(1,4,6,7,8) in \<open>auto simp: assms(3)\<close>)
  moreover have "key_issued w t \<Longrightarrow> key_issued w' t" for t
    using up [of "fst t"] unfolding key_issued_def by simp
  then have "key_rely q n U w w'"
    by (intro key_relyI) (auto simp: assms(3))
  moreover have "key_issued w' (pid, tmp_counter w pid)"
    using u by (simp add: key_issued_def assms(3) word_less_nat_alt)
  ultimately show ?thesis by blast
qed

text \<open>What holds after the draw of a token.\<close>

definition drawn :: "path \<Rightarrow> os_str \<Rightarrow> bool \<Rightarrow> token option \<Rightarrow> token option \<Rightarrow> world \<Rightarrow> bool" where
  "drawn q n s t T w \<longleftrightarrow> T = t \<and> (\<exists>u. T = Some u \<and>
     (lookup w (tok_path q n u) = None \<and> key_issued w u \<and> (s \<longrightarrow> is_dir w q)))"

lemma stable_drawn: "kr.stable q n A s T (drawn q n s t T)"
proof (cases T)
  case (Some u)
  have "kr.stable q n A s (Some u) (\<lambda>w. lookup w (tok_path q n u) = None \<and> key_issued w u \<and> (s \<longrightarrow> is_dir w q))"
    by (intro stable_intros)
  with Some show ?thesis unfolding kr.stable_def drawn_def by blast
qed (simp add: kr.stable_def drawn_def)

lemma fetch_triple:
  "kr.triple q n A s None (\<lambda>w. s \<longrightarrow> is_dir w q) (fetch_add pid) (\<lambda>u T w. drawn q n s (Some (pid, u)) T w)"
proof -
  let ?f = "\<lambda>r. case r of R_u64 u \<Rightarrow> u | _ \<Rightarrow> 0"
  have "kr.triple q n A s None (\<lambda>w. s \<longrightarrow> is_dir w q) (Call (Fetch_tmp pid) (\<lambda>r. Ret (?f r)))
      (\<lambda>u T w. \<exists>r. u = ?f r \<and> drawn q n s (Some (pid, ?f r)) T w)"
  proof (rule kr.triple_prim [OF _ stable_drawn])
    show "kr.stable q n A s None (\<lambda>w. s \<longrightarrow> is_dir w q)"
      by (intro stable_intros)
    fix w r w'
    assume a: "key_inv q n A s w" "s \<longrightarrow> is_dir w q" "key_draws (Fetch_tmp pid) \<Longrightarrow> key_room w 1"
      "exec (Fetch_tmp pid) w = (r, w')"
    from a(4) have e: "r = R_u64 (tmp_counter w pid)"
      "w' = (pop_fault w)\<lparr>tmp_counter := (tmp_counter w)(pid := tmp_counter w pid + 1)\<rparr>"
      by (simp_all add: exec_fetch)
    have "lookup w' (tok_path q n (pid, tmp_counter w pid)) = None" "s \<longrightarrow> is_dir w' q"
      using key_invD(2) [OF a(1), of "(pid, tmp_counter w pid)"] a(2) by (simp_all add: e is_dir_def)
    with fetch_good [OF a(1) _ e(2)] a(3)
    show "kr.good_step q n A s (kr.holds None (Fetch_tmp pid) r) w w' \<and>
        drawn q n s (Some (pid, ?f r)) (kr.holds None (Fetch_tmp pid) r) w'"
      by (simp add: e(1) kr.holds_def kr.good_step_def drawn_def)
  qed simp
  then show ?thesis
    unfolding fetch_add_def by (rule kr.triple_conseq) auto
qed

lemma written_triple:
  "kr.quiet q n A s (Some t) (drawn q n s (Some t) (Some t)) (write_identity_file (tok_path q n t) seed)
     (\<lambda>x w. ok_post s (\<lambda>_ w. \<exists>i. priv q n t i w \<and> data (inodes w i) = seed) x w \<and> (s \<longrightarrow> is_dir w q))"
  by (rule kr.quiet_conseq [OF kr.quiet_frame [OF stable_imp [OF stable_dir] write_identity_triple]])
    (auto simp: drawn_def)

lemma publish_or_fail:
  assumes "seed \<in> A" and "length seed = 32"
  shows "kr.triple q n A s (Some t)
     (\<lambda>w. ok_post s (\<lambda>_ w. \<exists>i. priv q n t i w \<and> data (inodes w i) = seed) r w \<and> (s \<longrightarrow> is_dir w q))
     (case r of Err e \<Rightarrow> pbind (remove_tmp_file (tok_path q n t)) (\<lambda>_. Ret (Err e)) | Panic \<Rightarrow> Ret Panic
      | Ok _ \<Rightarrow> publish ed (q @ [Normal n]) seed (tok_path q n t))
     (\<lambda>x T w. key_done ed s (q @ [Normal n]) x w)"
proof (cases r)
  case (Ok x)
  then show ?thesis
    using publish_triple [OF assms, of q n s t _ ed] by (auto simp: kr.triple_def)
next
  case (Err e)
  have "kr.triple q n A s (Some t) (\<lambda>w. \<not> s) (pbind (remove_tmp_file (tok_path q n t)) (\<lambda>_. Ret (Err e)))
     (\<lambda>x T w. key_done ed s (q @ [Normal n]) x w)"
    by (rule kr.quiet_pbind [OF remove_tmp_triple [OF stable_const]], simp,
        rule kr.triple_Ret [OF stable_const]) simp
  then have "kr.triple q n A s (Some t) (\<lambda>w. \<not> s \<and> (s \<longrightarrow> is_dir w q))
      (pbind (remove_tmp_file (tok_path q n t)) (\<lambda>_. Ret (Err e))) (\<lambda>x T w. key_done ed s (q @ [Normal n]) x w)"
    by (rule kr.triple_conseq) auto
  with Err show ?thesis by simp
qed (simp add: kr.triple_def)

lemma generate_triple:
  assumes "seed \<in> A" and "length seed = 32"
  shows "kr.triple q n A s None (\<lambda>w. True) (generate_and_persist ed pid seed (q @ [Normal n]))
     (\<lambda>x T w. key_done ed s (q @ [Normal n]) x w)"
  unfolding generate_and_persist_named
proof (rule rbind_ok)
  let ?P = "q @ [Normal n]"
  let ?Q = "\<lambda>x (T' :: token option) w. key_done ed s ?P x w"
  have "kr.quiet q n A s None (\<lambda>w. True) (Ret (Ok ()) :: unit trust_result prog) (ok_post s (\<lambda>_ w. s \<longrightarrow> is_dir w q))" if "q = []"
    using that by (intro kr.quiet_Ret stable_True) (simp add: is_dir_def)
  then show "kr.quiet q n A s None (\<lambda>w. True) (if q \<noteq> [] then perr write_failed (fs_unit (Create_dir_all q)) else Ret (Ok ()))
      (ok_post s (\<lambda>_ w. s \<longrightarrow> is_dir w q))"
    using quiet_perr_ok [OF create_dirs_triple stable_imp [OF stable_dir], of q n A s None write_failed] by simp
  show "kr.stable q n A s None (\<lambda>w. s \<longrightarrow> is_dir w q)"
    by (intro stable_intros)
  let ?k = "\<lambda>t r. case r of Err e \<Rightarrow> pbind (remove_tmp_file t) (\<lambda>_. Ret (Err e)) | Panic \<Rightarrow> Ret Panic | Ok _ \<Rightarrow> publish ed ?P seed t"
  show "kr.triple q n A s None (\<lambda>w. s \<longrightarrow> is_dir w q)
      (pbind (fetch_add pid) (\<lambda>u. pbind (write_identity_file (tmp_path_for q n pid u) seed) (?k (tmp_path_for q n pid u)))) ?Q"
  proof (rule kr.triple_pbind [OF fetch_triple])
    fix u T
    have "kr.triple q n A s (Some (pid, u)) (drawn q n s (Some (pid, u)) (Some (pid, u)))
        (pbind (write_identity_file (tok_path q n (pid, u)) seed) (?k (tok_path q n (pid, u)))) ?Q"
      by (rule kr.quiet_pbind [OF written_triple publish_or_fail [OF assms]])
    then show "kr.triple q n A s T (drawn q n s (Some (pid, u)) T)
        (pbind (write_identity_file (tmp_path_for q n pid u) seed) (?k (tmp_path_for q n pid u))) ?Q"
      by (cases "T = Some (pid, u)") (simp_all add: drawn_def kr.triple_def)
  qed
qed simp

lemma load_or_generate_triple:
  assumes "seed \<in> A" and "length seed = 32"
  shows "kr.triple q n A s None (\<lambda>w. True) (load_or_generate ed pid seed (q @ [Normal n]))
     (\<lambda>x T w. key_done ed s (q @ [Normal n]) x w)"
  unfolding load_or_generate_def fs_bool_def
proof (rule kr.quiet_pbind)
  let ?P = "q @ [Normal n]"
  let ?f = "\<lambda>r. case r of R_bool b \<Rightarrow> b | _ \<Rightarrow> False"
  show "kr.quiet q n A s None (\<lambda>w. True) (Call (Exists ?P) (\<lambda>r. Ret (?f r)))
      (\<lambda>x w. \<exists>r. x = ?f r \<and> (?f r \<longrightarrow> lookup w ?P \<noteq> None))"
  proof (rule kr.quiet_prim [OF _ stable_True])
    show "kr.stable q n A s None (\<lambda>w. ?f r \<longrightarrow> lookup w ?P \<noteq> None)" for r
      by (intro stable_intros)
    fix w r w'
    assume a: "key_inv q n A s w" "exec (Exists ?P) w = (r, w')"
    have "same_files w w'"
      using exec_idle [OF _ a(2)] by simp
    moreover from a(2) have "?f r \<longrightarrow> lookup w ?P \<noteq> None"
      by (auto simp: exec_def is_dir_snoc split: choice.splits)
    ultimately show "kr.good_step q n A s None w w' \<and> (?f r \<longrightarrow> lookup w' ?P \<noteq> None)"
      using same_files_good [OF _ a(1)] by (simp add: same_files_def)
  qed simp
  fix b
  show "kr.triple q n A s None (\<lambda>w. \<exists>r. b = ?f r \<and> (?f r \<longrightarrow> lookup w ?P \<noteq> None))
      (if b then load_existing ed ?P else generate_and_persist ed pid seed ?P) (\<lambda>x T w. key_done ed s ?P x w)"
    using load_existing_triple [of q n A s None ed] generate_triple [OF assms, of q n s ed pid]
    by (auto simp: kr.triple_def)
qed

end
