(* ===== verification/Key_Theorems.thy ===== *)
theory Key_Theorems
  imports Key_Publish Checkpoint_Theorems
begin

text \<open>
  Properties of the key files: any number of generators, in any number of threads and
  processes, under any interleaving and any injected failure.
\<close>

section \<open>Systems of generators\<close>

text \<open>A generator is a process id and the seed it drew.\<close>

definition generators :: "ed25519 \<Rightarrow> path \<Rightarrow> (u32 \<times> bytes) list \<Rightarrow> identity trust_result prog list" where
  "generators ed key ths = map (\<lambda>(pid, seed). load_or_generate ed pid seed key) ths"

text \<open>The start of a race: inode numbers in use are below the next one, no temporary file of this
  key is lying around, seeds have 32 bytes, and the counters do not wrap around.\<close>

definition race_start :: "path \<Rightarrow> os_str \<Rightarrow> world \<Rightarrow> (u32 \<times> bytes) list \<Rightarrow> bool" where
  "race_start q n w ths \<longleftrightarrow>
     (\<forall>p i. lookup w p = Some (File i) \<longrightarrow> i < next_inode w) \<and>
     (\<forall>pid u. lookup w (tmp_path_for q n pid u) = None) \<and>
     (\<forall>g \<in> set ths. length (snd g) = 32) \<and>
     (\<forall>pid. unat (tmp_counter w pid) + length ths < 2 ^ 64)"

text \<open>Nothing fails from outside: no injected failure, no file in the way of the directories, and the
  key file, if there is one, holds 32 bytes.\<close>

definition smooth_start :: "path \<Rightarrow> os_str \<Rightarrow> world \<Rightarrow> bool" where
  "smooth_start q n w \<longleftrightarrow>
     calm w \<and> (\<forall>p \<in> set (ancestors q). \<forall>i. lookup w p \<noteq> Some (File i)) \<and>
     (case lookup w (q @ [Normal n]) of None \<Rightarrow> True | Some (Dir _) \<Rightarrow> False
      | Some (File i) \<Rightarrow> length (data (inodes w i)) = 32)"

definition candidates :: "path \<Rightarrow> world \<Rightarrow> (u32 \<times> bytes) list \<Rightarrow> bytes set" where
  "candidates key w ths = set_option (content w key) \<union> snd ` set ths"

lemma race_inv:
  assumes "race_start q n w ths" and "s \<Longrightarrow> smooth_start q n w"
  shows "key_inv q n (candidates (q @ [Normal n]) w ths) s w"
proof (rule key_invI)
  show "s \<Longrightarrow> lookup w (q @ [Normal n]) \<noteq> Some (Dir m)" for m
    using assms(2) by (auto simp: smooth_start_def)
  show "s \<Longrightarrow> a \<in> candidates (q @ [Normal n]) w ths \<Longrightarrow> length a = 32" for a
    using assms by (auto simp: smooth_start_def race_start_def candidates_def content_def split: option.splits entry.splits)
qed (use assms in \<open>auto simp: smooth_start_def race_start_def candidates_def content_def\<close>)

lemma race_sys_inv:
  assumes "race_start q n w ths" and "s \<Longrightarrow> smooth_start q n w"
  shows "kr.sys_inv q n (candidates (q @ [Normal n]) w ths) s (\<lambda>i x T w. key_done ed s (q @ [Normal n]) x w)
    (w, generators ed (q @ [Normal n]) ths) (replicate (length (generators ed (q @ [Normal n]) ths)) None)"
proof (rule kr.sys_inv_init)
  note I = race_inv [OF assms]
  show "key_inv q n (candidates (q @ [Normal n]) w ths) s w" by (rule I)
  show "key_room w (length (generators ed (q @ [Normal n]) ths))"
    using assms(1) by (simp add: race_start_def key_room_def generators_def)
  fix i
  assume i: "i < length (generators ed (q @ [Normal n]) ths)"
  obtain pid seed where t: "ths ! i = (pid, seed)" by (cases "ths ! i")
  moreover have "ths ! i \<in> set ths"
    using i by (simp add: generators_def)
  ultimately have m: "(pid, seed) \<in> set ths" by simp
  then have "seed \<in> candidates (q @ [Normal n]) w ths"
    unfolding candidates_def by (metis UnI2 image_eqI snd_conv)
  moreover have "\<forall>g \<in> set ths. length (snd g) = 32"
    using assms(1) unfolding race_start_def by blast
  with m have "length seed = 32" by fastforce
  ultimately have "seed \<in> candidates (q @ [Normal n]) w ths" "length seed = 32" by auto
  from load_or_generate_triple [OF this, of q n s ed pid] I i t
  show "kr.safe q n (candidates (q @ [Normal n]) w ths) s (\<lambda>x T w. key_done ed s (q @ [Normal n]) x w)
      (generators ed (q @ [Normal n]) ths ! i) None w"
    by (simp add: kr.triple_def generators_def)
qed

text \<open>Every state of a race: who has returned an identity returned that of the key file.\<close>

lemma race_reach:
  assumes "race_start q n w ths" and "s \<Longrightarrow> smooth_start q n w" and "sys_steps k (w, generators ed (q @ [Normal n]) ths) st"
  obtains Ts where "kr.sys_inv q n (candidates (q @ [Normal n]) w ths) s (\<lambda>i x T w. key_done ed s (q @ [Normal n]) x w) st Ts"
    and "length (snd st) = length ths"
  using kr.sys_inv_steps [OF assms(3) race_sys_inv [OF assms(1,2)]] sys_steps_length [OF assms(3)]
  by (auto simp: generators_def)

section \<open>Properties\<close>

text \<open>A race of two threads of one process on an empty file system, to apply the properties to.\<close>

definition w_world :: world where
  "w_world = \<lparr>entries = [], inodes = (\<lambda>_. \<lparr>data = [], mode = 0\<rparr>), next_inode = 0, umask = 18, dir_len = 4096,
     tmp_counter = (\<lambda>_. 0), faults = (\<lambda>_. Run), stdout = [], stderr = [], traces = []\<rparr>"

definition w_name :: os_str where
  "w_name = Uni (lit ''id.key'')"

definition w_threads :: "(u32 \<times> bytes) list" where
  "w_threads = [(7, replicate 32 1), (7, replicate 32 2)]"

definition w_race :: "nat \<Rightarrow> world \<times> identity trust_result prog list" where
  "w_race m = sys_run (concat (replicate m [0, 1])) (w_world, generators ref_ed ([] @ [Normal w_name]) w_threads)"

lemma w_race_start: "race_start [] w_name w_world w_threads" "smooth_start [] w_name w_world"
  by (auto simp: race_start_def smooth_start_def w_world_def w_threads_def calm_def ancestors_def)

lemma w_race_steps: "\<exists>k. sys_steps k (w_world, generators ref_ed ([] @ [Normal w_name]) w_threads) (w_race m)"
  unfolding w_race_def
  by (rule sys_run_steps) (induction m; simp add: generators_def w_threads_def)

definition returned :: "'a prog \<Rightarrow> 'a option" where
  "returned p = (case p of Ret x \<Rightarrow> Some x | Call _ _ \<Rightarrow> None)"

lemma returned_Some: "returned p = Some x \<longleftrightarrow> p = Ret x"
  by (cases p) (auto simp: returned_def)

text \<open>C23 (the key file is final): in every race of generators, once the key file has a content, it
  keeps that content, and it is what was there before the race or the seed of one of the
  generators.\<close>

theorem key_file_final:
  assumes "race_start q n w ths"
    and "sys_steps k (w, generators ed (q @ [Normal n]) ths) st" and "sys_steps m st st'"
    and "content (fst st) (q @ [Normal n]) = Some b"
  shows "content (fst st') (q @ [Normal n]) = Some b \<and>
    (content w (q @ [Normal n]) = Some b \<or> b \<in> snd ` set ths)"
proof -
  obtain Ts where I: "kr.sys_inv q n (candidates (q @ [Normal n]) w ths) False
      (\<lambda>i x T w. key_done ed False (q @ [Normal n]) x w) st Ts"
    by (rule race_reach [OF assms(1) _ assms(2), of False]) auto
  from kr.sys_inv_steps [OF assms(3) I] have "key_rely q n None (fst st) (fst st')" by blast
  with assms(4) content_lookup [OF assms(4)] have "content (fst st') (q @ [Normal n]) = Some b"
    by (simp add: key_rely_def)
  moreover have "b \<in> candidates (q @ [Normal n]) w ths"
    using key_invD(4) [OF kr.sys_inv_inv [OF I]] assms(4)
    by (auto simp: content_def split: option.splits entry.splits)
  ultimately show ?thesis by (auto simp: candidates_def)
qed

theorem key_file_final_witness:
  "\<exists>st'. (\<exists>m. sys_steps m (w_race 8) st') \<and> content (fst st') ([] @ [Normal w_name]) = Some (replicate 32 1)"
proof -
  obtain k where k: "sys_steps k (w_world, generators ref_ed ([] @ [Normal w_name]) w_threads) (w_race 8)"
    using w_race_steps by blast
  have s: "sys_steps 0 (w_race 8) (w_race 8)" by (rule sys_steps_0)
  have c: "content (fst (w_race 8)) ([] @ [Normal w_name]) = Some (replicate 32 1)"
    by code_simp
  from key_file_final [OF w_race_start(1) k s c] s show ?thesis by blast
qed

text \<open>C24 (generators agree): a generator that has returned an identity returned the identity of the
  seed in the key file, so all of them return the same one; none panics.\<close>

theorem generators_agree:
  assumes "race_start q n w ths"
    and "sys_steps k (w, generators ed (q @ [Normal n]) ths) st"
    and "i < length ths" and "snd st ! i = Ret x"
  shows "x \<noteq> Panic \<and> (\<forall>idn. x = Ok idn \<longrightarrow>
    (\<exists>seed. content (fst st) (q @ [Normal n]) = Some seed \<and> length seed = 32 \<and> idn = from_seed ed seed))"
proof -
  obtain Ts where I: "kr.sys_inv q n (candidates (q @ [Normal n]) w ths) False
      (\<lambda>i x T w. key_done ed False (q @ [Normal n]) x w) st Ts" and l: "length (snd st) = length ths"
    by (rule race_reach [OF assms(1) _ assms(2), of False]) auto
  from kr.sys_inv_done [OF I _ assms(4)] l assms(3) have "key_done ed False (q @ [Normal n]) x (fst st)" by auto
  then show ?thesis by (cases x) auto
qed

theorem generators_agree_witness:
  "\<exists>idn. returned (snd (w_race 12) ! 1) = Some (Ok idn) \<and> idn = from_seed ref_ed (replicate 32 1)"
proof -
  obtain k where k: "sys_steps k (w_world, generators ref_ed ([] @ [Normal w_name]) w_threads) (w_race 12)"
    using w_race_steps by blast
  have "map_option is_ok (returned (snd (w_race 12) ! 1)) = Some True"
    by code_simp
  then obtain idn where i: "snd (w_race 12) ! 1 = Ret (Ok idn)"
    by (auto simp: returned_Some is_ok_iff)
  moreover have "content (fst (w_race 12)) ([] @ [Normal w_name]) = Some (replicate 32 1)"
    by code_simp
  ultimately show ?thesis
    using generators_agree [OF w_race_start(1) k _ i] by (simp add: w_threads_def returned_Some)
qed

text \<open>C25 (races end, and end well): a race of \<open>N\<close> generators takes at most \<open>13 * N\<close> system calls (operations of \<^verbatim>\<open>std::fs\<close>) and
  can go on as long as one of them has not returned; if nothing fails from outside, all of them
  return the identity of the key file.\<close>

theorem generators_finish:
  assumes "race_start q n w ths"
    and "sys_steps k (w, generators ed (q @ [Normal n]) ths) st"
  shows "k \<le> 13 * length ths \<and>
    ((\<forall>st'. \<not> sys_step st st') \<longrightarrow> (\<forall>i < length ths. \<exists>x. snd st ! i = Ret x \<and>
       (smooth_start q n w \<longrightarrow> (\<exists>seed. content (fst st) (q @ [Normal n]) = Some seed \<and> x = Ok (from_seed ed seed)))))"
proof -
  have "\<And>p. p \<in> set (generators ed (q @ [Normal n]) ths) \<Longrightarrow> calls_le p 13"
    by (auto simp: generators_def load_or_generate_calls)
  from sys_steps_bounded [OF assms(2) this] have "k \<le> 13 * length ths"
    by (auto simp: generators_def)
  moreover have "\<exists>x. snd st ! i = Ret x \<and>
      (smooth_start q n w \<longrightarrow> (\<exists>seed. content (fst st) (q @ [Normal n]) = Some seed \<and> x = Ok (from_seed ed seed)))"
    if stuck: "\<forall>st'. \<not> sys_step st st'" and i: "i < length ths" for i
  proof -
    obtain Ts where I: "kr.sys_inv q n (candidates (q @ [Normal n]) w ths) (smooth_start q n w)
        (\<lambda>i x T v. key_done ed (smooth_start q n w) (q @ [Normal n]) x v) st Ts" and l: "length (snd st) = length ths"
      by (rule race_reach [OF assms(1) _ assms(2), of "smooth_start q n w"]) auto
    have "finished (snd st ! i)"
      using stuck sys_progress [of i "snd st" "fst st"] l i by auto
    then obtain x where x: "snd st ! i = Ret x" by (auto simp: finished_iff)
    from kr.sys_inv_done [OF I _ x] l i have "key_done ed (smooth_start q n w) (q @ [Normal n]) x (fst st)" by auto
    with x show ?thesis by (cases x) auto
  qed
  ultimately show ?thesis by blast
qed

theorem generators_finish_witness:
  "\<exists>seed. content (fst (w_race 12)) ([] @ [Normal w_name]) = Some seed \<and>
     snd (w_race 12) ! 0 = Ret (Ok (from_seed ref_ed seed)) \<and> snd (w_race 12) ! 1 = Ret (Ok (from_seed ref_ed seed))"
proof -
  obtain k where k: "sys_steps k (w_world, generators ref_ed ([] @ [Normal w_name]) w_threads) (w_race 12)"
    using w_race_steps by blast
  have "list_all finished (snd (w_race 12))"
    by code_simp
  then have "\<forall>st'. \<not> sys_step (w_race 12) st'"
    by (auto simp: list_all_length finished_iff elim!: sys_step.cases)
  with generators_finish [OF w_race_start(1) k] w_race_start(2)
  have "\<forall>i < length w_threads. \<exists>seed. content (fst (w_race 12)) ([] @ [Normal w_name]) = Some seed \<and>
      snd (w_race 12) ! i = Ret (Ok (from_seed ref_ed seed))" by blast
  from this [rule_format, of 0] this [rule_format, of 1] show ?thesis by (auto simp: w_threads_def)
qed

text \<open>C26 (constructors of identities): whatever the environment variable, the file system and the
  failures, the constructors never panic, an identity they return is the key pair of a 32-byte
  seed, and every error is a \<^verbatim>\<open>KeyManagement\<close> error.\<close>

definition key_error :: "trust_error \<Rightarrow> bool" where
  "key_error e \<longleftrightarrow> (\<exists>reason. e = KeyManagement reason)"

lemma load_existing_yields: "yields (good (wf_identity ed) key_error) (load_existing ed p)"
  unfolding load_existing_def
  by (rule yields_pbind [OF yields_True], rule good_rbind [OF good_perr [OF good_fs(1)]])
    (auto simp: key_error_def copy_from_slice_def wf_from_seed simp del: lit_simps)

lemma write_identity_yields: "yields (good any key_error) (write_identity_file p s)"
  unfolding write_identity_file_def
  by (rule good_rbind [OF good_perr [OF good_fs(3)]], simp add: key_error_def write_failed_def,
      rule good_rbind [OF good_perr [OF good_fs_unit(2)]], simp add: key_error_def write_failed_def,
      rule good_perr [OF good_fs_unit(3)], simp add: key_error_def write_failed_def)

lemma publish_yields: "length seed = 32 \<Longrightarrow> yields (good (wf_identity ed) key_error) (publish ed p seed t)"
  unfolding publish_def
  by (rule yields_pbind [OF good_fs_unit(4)])
    (auto elim!: good.elims intro!: yields_pbind [OF yields_True] load_existing_yields
      simp: wf_from_seed key_error_def write_failed_def simp del: lit_simps)

lemma generate_yields:
  assumes "length seed = 32"
  shows "yields (good (wf_identity ed) key_error) (generate_and_persist ed pid seed p)"
proof (cases "file_name p")
  case None
  then show ?thesis by (simp add: generate_and_persist_def key_error_def)
next
  case (Some n)
  then obtain q where p: "p = q @ [Normal n]" by (auto simp: file_name_Some)
  have "yields (good any key_error) (if q \<noteq> [] then perr write_failed (fs_unit (Create_dir_all q)) else Ret (Ok ()))"
    by (auto intro!: good_perr good_fs_unit simp: key_error_def write_failed_def)
  then show ?thesis
    unfolding p generate_and_persist_named
    by (rule good_rbind, intro yields_pbind [OF yields_True] yields_pbind [OF write_identity_yields])
      (auto elim!: good.elims intro!: yields_pbind [OF yields_True] publish_yields assms)
qed

theorem key_constructors_typed:
  assumes "length seed = 32"
  shows "good (wf_identity ed) key_error (from_env ed url std v) \<and>
    good (wf_identity ed) key_error (fst (run (load ed p) w)) \<and>
    good (wf_identity ed) key_error (fst (run (load_or_generate ed pid seed p) w))"
proof -
  have "good (wf_identity ed) key_error (from_env ed url std v)"
    unfolding from_env_def Let_def
    by (intro good_bind [OF good_ok_or] good_bind [where R = any])
      (auto intro!: good_map_err good_of_sum simp: key_error_def copy_from_slice_def wf_from_seed
        simp del: lit_simps split: sum.splits)
  moreover have "yields (good (wf_identity ed) key_error) (load ed p)"
    by (simp add: load_def load_existing_yields)
  moreover have "yields (good (wf_identity ed) key_error) (load_or_generate ed pid seed p)"
    unfolding load_or_generate_def
    by (rule yields_pbind [OF yields_True]) (simp add: load_existing_yields generate_yields assms)
  ultimately show ?thesis by (blast intro: yields_run)
qed

theorem key_constructors_typed_witness:
  "good (wf_identity ref_ed) key_error (fst (run (load_or_generate ref_ed 7 (replicate 32 1) [Normal w_name]) w_world))"
  using key_constructors_typed [of "replicate 32 1"] by simp

end
