(* ===== verification/Cli_Base.thy ===== *)
theory Cli_Base
  imports Key_Files Verifier_Key_Model Hex
begin

text \<open>
  Ground of the command-line tool: \<^verbatim>\<open>commands/error.rs\<close>, \<^verbatim>\<open>commands/files.rs\<close> and
  \<^verbatim>\<open>commands/key.rs\<close>. Error values of other crates (JSON, dates) are kept by their display text.
\<close>

section \<open>error.rs\<close>

datatype cli_error =
    KeyFileMissing path
  | Io str io_error
  | Trust trust_error
  | JsonParse str path str
  | JsonSerialize str str
  | VerificationFailed
  | CertificateVerificationFailed
  | PemParse path str
  | ClaimsJsonParse path str
  | InvalidIssuerPublicKey
  | InvalidRecipientPublicKey
  | InvalidSenderPublicKey
  | OpenFailed
  | LogDirMissing path
  | LogDirInvalid path str
  | LogInclusionVerificationFailed
  | LogConsistencyVerificationFailed
  | InvalidTimestamp str str

type_synonym 'a cli_result = "(cli_error, 'a) result"

text \<open>\<open>dbg\<close> is the \<^verbatim>\<open>Debug\<close> form of a string, whose escapes follow the Unicode tables of the
  standard library.\<close>

fun display_cli_error :: "(str \<Rightarrow> str) \<Rightarrow> cli_error \<Rightarrow> str" where
  "display_cli_error dbg (KeyFileMissing p) =
     lit ''identity key file not found: '' @ display_path p @ lit '' (run `lys key generate --out '' @ display_path p @
     lit ''` to create one)''"
| "display_cli_error dbg (Io context source) = context @ lit '': '' @ io_text source"
| "display_cli_error dbg (Trust e) = display_trust_error e"
| "display_cli_error dbg (JsonParse what p source) =
     lit ''failed to parse '' @ what @ lit '' JSON from '' @ display_path p @ lit '': '' @ source"
| "display_cli_error dbg (JsonSerialize what source) = lit ''failed to serialize '' @ what @ lit '' to JSON: '' @ source"
| "display_cli_error dbg VerificationFailed =
     lit ''attestation verification failed: malformed or non-canonical artifact, payload mismatch, or invalid signature''"
| "display_cli_error dbg CertificateVerificationFailed =
     lit ''certificate verification failed: invalid signature or outside validity window''"
| "display_cli_error dbg (PemParse p reason) =
     lit ''failed to parse PEM certificate from '' @ display_path p @ lit '': '' @ reason"
| "display_cli_error dbg (ClaimsJsonParse p source) =
     lit ''failed to parse capability claims JSON from '' @ display_path p @ lit '': '' @ source"
| "display_cli_error dbg InvalidIssuerPublicKey =
     lit ''invalid issuer public key: expected exactly 64 hexadecimal characters (a 32-byte Ed25519 key)''"
| "display_cli_error dbg InvalidRecipientPublicKey =
     lit ''invalid recipient public key: expected exactly 64 hexadecimal characters (a 32-byte X25519 key)''"
| "display_cli_error dbg InvalidSenderPublicKey =
     lit ''invalid sender public key: expected exactly 64 hexadecimal characters (a 32-byte Ed25519 key)''"
| "display_cli_error dbg OpenFailed =
     lit ''sealed envelope open failed: invalid attestation or undecryptable envelope''"
| "display_cli_error dbg (LogDirMissing p) =
     lit ''log directory not initialized: '' @ display_path p @ lit '' (run `lys log init --dir '' @ display_path p @
     lit '' --origin <origin>` first)''"
| "display_cli_error dbg (LogDirInvalid p reason) =
     lit ''log directory invalid: '' @ display_path p @ lit '': '' @ reason"
| "display_cli_error dbg LogInclusionVerificationFailed =
     lit ''inclusion proof verification failed: invalid artifact, checkpoint, or leaf''"
| "display_cli_error dbg LogConsistencyVerificationFailed =
     lit ''consistency proof verification failed: invalid artifact or checkpoints''"
| "display_cli_error dbg (InvalidTimestamp value source) =
     lit ''invalid timestamp '' @ dbg value @ lit '': expected RFC 3339, e.g. 2026-07-10T12:00:00Z ('' @ source @ lit '')''"

declare display_cli_error.simps [simp del]

section \<open>files.rs\<close>

definition read_file :: "path \<Rightarrow> str \<Rightarrow> bytes cli_result prog" where
  "read_file p what = perr (\<lambda>source. Io (lit ''failed to read '' @ what @ lit '' '' @ display_path p) source) (fs_read p)"

definition write_file :: "path \<Rightarrow> bytes \<Rightarrow> str \<Rightarrow> unit cli_result prog" where
  "write_file p contents what =
     perr (\<lambda>source. Io (lit ''failed to write '' @ what @ lit '' '' @ display_path p) source) (fs_write p contents)"

text \<open>The Unix variant.\<close>

definition write_file_private :: "path \<Rightarrow> bytes \<Rightarrow> str \<Rightarrow> unit cli_result prog" where
  "write_file_private p contents what =
     rbind
       (perr (\<lambda>source. Io (lit ''failed to create '' @ what @ lit '' '' @ display_path p) source) (fs_open False 384 p))
       (\<lambda>file.
     perr (\<lambda>source. Io (lit ''failed to write '' @ what @ lit '' '' @ display_path p) source)
       (fs_unit (Write_all file contents)))"

section \<open>Output\<close>

text \<open>A sequence of \<^verbatim>\<open>println!\<close> calls.\<close>

fun print_lines :: "str list \<Rightarrow> unit cli_result prog" where
  "print_lines [] = Ret (Ok ())"
| "print_lines (s # ss) = rbind (println s) (\<lambda>_. print_lines ss)"

section \<open>key.rs\<close>

definition load_identity :: "ed25519 \<Rightarrow> path \<Rightarrow> identity cli_result prog" where
  "load_identity ed key =
     pbind (fs_bool (Exists key)) (\<lambda>b.
     if \<not> b then Ret (Err (KeyFileMissing key)) else perr Trust (load ed key))"

definition key_generate :: "ed25519 \<Rightarrow> u32 \<Rightarrow> bytes \<Rightarrow> path \<Rightarrow> unit cli_result prog" where
  "key_generate ed pid seed out =
     pbind (fs_bool (Exists out)) (\<lambda>existed.
     rbind (perr Trust (load_or_generate ed pid seed out)) (\<lambda>identity.
     print_lines
       [(if existed then lit ''loaded existing identity key: '' else lit ''generated new identity key: '') @ display_path out,
        lit ''public key (ed25519): '' @ cli_hex_lower (public_key_bytes identity)]))"

section \<open>Lemmas\<close>

lemma run_print_lines:
  "calm w \<Longrightarrow> run (print_lines ss) w = (Ok (), w\<lparr>stdout := stdout w @ ss\<rparr>)"
proof (induction ss arbitrary: w)
  case (Cons s ss)
  have "calm (w\<lparr>stdout := stdout w @ [s]\<rparr>)" using Cons.prems by (simp add: calm_def)
  from Cons.IH [OF this] Cons.prems show ?case
    by (simp add: run_rbind println_def exec_calm)
qed simp

end
