(* ===== verification/Store_Model.thy ===== *)
theory Store_Model
  imports Cli_Base Checkpoint_Body Merkle_Model
begin

text \<open>
  The log directory of \<^verbatim>\<open>lys log\<close>: \<^verbatim>\<open>commands/log/store.rs\<close>, as programs over system
  calls. The JSON crate is a parameter at the two types it is used for.
\<close>

section \<open>The environment\<close>

text \<open>\<open>to_pretty\<close> is \<^verbatim>\<open>serde_json::to_string_pretty\<close> and \<open>from_json\<close> is
  \<^verbatim>\<open>serde_json::from_slice\<close> at a type, with displayed errors.\<close>

record 'a json =
  to_pretty :: "'a \<Rightarrow> str + str"
  from_json :: "bytes \<Rightarrow> str + 'a"

text \<open>The crate's documented behaviour at a plain struct: printing succeeds, and reading the text with
  trailing whitespace gives the value back.\<close>

definition json_ok :: "'a json \<Rightarrow> bool" where
  "json_ok j \<longleftrightarrow> (\<forall>x. \<exists>s. to_pretty j x = Inr s \<and> from_json j (utf8_encode (s @ [NL])) = Inr x)"

record log_config =
  lc_format :: str
  lc_origin :: str

record log_state =
  ls_tree_size :: u64
  ls_root_hash :: str

text \<open>\<open>env_overflow_checks\<close> is the build's treatment of arithmetic overflow: a panic, or wrap-around.\<close>

record 't store_env =
  env_b64 :: base64
  env_sha :: sha256
  env_ct :: "'t ct_merkle"
  env_config :: "log_config json"
  env_state :: "log_state json"
  env_dbg :: "str \<Rightarrow> str"
  env_overflow_checks :: bool

section \<open>store.rs\<close>

definition LOG_DIR_FORMAT :: str where
  "LOG_DIR_FORMAT = lit ''lys/log-dir/v1''"

definition LEAF_NAME_WIDTH :: nat where
  "LEAF_NAME_WIDTH = 20"

record 't log_store =
  st_dir :: path
  st_origin :: str
  st_leaves :: "bytes list"
  st_tree :: "'t append_only_tree"

abbreviation sub :: "path \<Rightarrow> string \<Rightarrow> path" where
  "sub dir name \<equiv> path_join dir (Uni (lit name))"

text \<open>\<^verbatim>\<open>{index:020}\<close>.\<close>

definition leaf_name :: "u64 \<Rightarrow> str" where
  "leaf_name idx = (let s = dec64 idx in replicate (LEAF_NAME_WIDTH - length s) 48 @ s)"

definition leaf_path :: "path \<Rightarrow> u64 \<Rightarrow> path" where
  "leaf_path dir idx = path_join (sub dir ''leaves'') (Uni (leaf_name idx))"

definition state_json_bytes :: "'a json \<Rightarrow> 'a \<Rightarrow> str \<Rightarrow> bytes cli_result" where
  "state_json_bytes j value what =
     res_bind (map_err (\<lambda>source. JsonSerialize what source) (of_sum (to_pretty j value))) (\<lambda>json.
     Ok (utf8_encode (json @ [NL])))"

definition parse_state_file :: "'a json \<Rightarrow> path \<Rightarrow> path \<Rightarrow> str \<Rightarrow> 'a cli_result prog" where
  "parse_state_file j dir p what =
     rbind (read_file p what) (\<lambda>bytes.
     Ret (map_err (\<lambda>e. LogDirInvalid dir (what @ lit '' is malformed: '' @ e)) (of_sum (from_json j bytes))))"

definition decode_pinned_root :: "base64 \<Rightarrow> path \<Rightarrow> str \<Rightarrow> bytes cli_result" where
  "decode_pinned_root b64 dir root_b64 =
     ok_or (LogDirInvalid dir (lit ''state.json root_hash is not standard base64 of exactly 32 bytes''))
       (Option.bind (result_ok (of_sum (b64_decode b64 root_b64))) (try_into_array 32))"

definition write_state :: "'t store_env \<Rightarrow> path \<Rightarrow> root_hash \<Rightarrow> unit cli_result prog" where
  "write_state env dir root =
     (case to_parts root of (root_hash, tree_size) \<Rightarrow>
      let state = \<lparr>ls_tree_size = tree_size, ls_root_hash = b64_encode (env_b64 env) root_hash\<rparr>;
          tmp_path = sub dir ''state.json.tmp'' in
      rbind (Ret (state_json_bytes (env_state env) state (lit ''log state''))) (\<lambda>bytes.
      rbind (write_file tmp_path bytes (lit ''log state file'')) (\<lambda>_.
      let state_path = sub dir ''state.json'' in
      perr (\<lambda>source. Io (lit ''failed to atomically replace log state file '' @ display_path state_path) source)
        (fs_unit (Rename tmp_path state_path)))))"

definition invalid_leaf_entry :: "(str \<Rightarrow> str) \<Rightarrow> path \<Rightarrow> str \<Rightarrow> cli_error" where
  "invalid_leaf_entry dbg dir name =
     LogDirInvalid dir (lit ''unexpected entry '' @ dbg name @ lit '' in leaves/: leaf names are exactly '' @
       dec LEAF_NAME_WIDTH @ lit '' decimal digits'')"

text \<open>The loop over the directory entries; \<open>indices\<close> are those found so far.\<close>

fun read_entries ::
  "(str \<Rightarrow> str) \<Rightarrow> path \<Rightarrow> (io_error + os_str) list \<Rightarrow> u64 list \<Rightarrow> u64 list cli_result prog" where
  "read_entries dbg dir [] indices = Ret (Ok indices)"
| "read_entries dbg dir (Inl source # ents) indices =
     Ret (Err (Io (lit ''failed to read leaves directory '' @ display_path (sub dir ''leaves'')) source))"
| "read_entries dbg dir (Inr (Non_utf8 b lossy) # ents) indices = Ret (Err (invalid_leaf_entry dbg dir lossy))"
| "read_entries dbg dir (Inr (Uni name) # ents) indices =
     (if strip_prefix (lit ''.'') name \<noteq> None then read_entries dbg dir ents indices
      else if str_len name \<noteq> LEAF_NAME_WIDTH \<or> \<not> list_all is_ascii_digit name
      then Ret (Err (invalid_leaf_entry dbg dir name))
      else case parse_u64 name of
        Inl _ \<Rightarrow> Ret (Err (invalid_leaf_entry dbg dir name))
      | Inr idx \<Rightarrow>
          pbind (fs_bool (Is_file (path_join (sub dir ''leaves'') (Uni name)))) (\<lambda>b.
          if \<not> b then Ret (Err (invalid_leaf_entry dbg dir name))
          else read_entries dbg dir ents (indices @ [idx])))"

fun check_contiguous :: "path \<Rightarrow> u64 \<Rightarrow> u64 list \<Rightarrow> unit cli_result" where
  "check_contiguous dir expected [] = Ok ()"
| "check_contiguous dir expected (idx # indices) =
     (if idx \<noteq> expected
      then Err (LogDirInvalid dir (lit ''leaves are not contiguous: expected leaf index '' @ dec64 expected @
        lit '', found '' @ dec64 idx))
      else check_contiguous dir (expected + 1) indices)"

fun read_leaf_files :: "path \<Rightarrow> u64 list \<Rightarrow> bytes list cli_result prog" where
  "read_leaf_files dir [] = Ret (Ok [])"
| "read_leaf_files dir (idx # indices) =
     rbind (read_file (leaf_path dir idx) (lit ''leaf file'')) (\<lambda>leaf.
     rbind (read_leaf_files dir indices) (\<lambda>leaves. Ret (Ok (leaf # leaves))))"

definition read_leaves :: "(str \<Rightarrow> str) \<Rightarrow> path \<Rightarrow> bytes list cli_result prog" where
  "read_leaves dbg dir =
     (let leaves_dir = sub dir ''leaves'' in
      rbind
        (perr (\<lambda>source. Io (lit ''failed to read leaves directory '' @ display_path leaves_dir) source)
          (fs_read_dir leaves_dir)) (\<lambda>ents.
      rbind (read_entries dbg dir ents []) (\<lambda>indices.
      let indices = sort indices in
      rbind (Ret (check_contiguous dir 0 indices)) (\<lambda>_.
      read_leaf_files dir indices))))"

definition store_init :: "'t store_env \<Rightarrow> path \<Rightarrow> str \<Rightarrow> unit cli_result prog" where
  "store_init env dir origin =
     (let empty_root = tree_root (env_ct env) (tree_new (env_ct env));
          config_path = sub dir ''log.json'' in
      rbind (Ret (map_err Trust (from_root origin empty_root))) (\<lambda>_.
      pbind (fs_bool (Exists config_path)) (\<lambda>b.
      if b then Ret (Err (LogDirInvalid dir (lit ''already initialized (log.json exists); the origin is pinned at init '' @
        lit ''and a log directory is never re-initialized'')))
      else
        rbind (perr (\<lambda>source. Io (lit ''failed to create log directory '' @ display_path dir) source)
          (fs_unit (Create_dir_all (sub dir ''leaves'')))) (\<lambda>_.
        let config = \<lparr>lc_format = LOG_DIR_FORMAT, lc_origin = origin\<rparr> in
        rbind (Ret (state_json_bytes (env_config env) config (lit ''log config''))) (\<lambda>bytes.
        rbind (write_file config_path bytes (lit ''log config file'')) (\<lambda>_.
        write_state env dir empty_root))))))"

definition prefix_tree :: "'t store_env \<Rightarrow> 't log_store \<Rightarrow> u64 \<Rightarrow> 't append_only_tree cli_result" where
  "prefix_tree env store old_size =
     res_bind
       (ok_or (LogDirInvalid (st_dir store) (lit ''prefix of size '' @ dec64 old_size @
           lit '' requested but the log has '' @ dec (length (st_leaves store)) @ lit '' leaves''))
         (case usize_try_from old_size of
            Some n \<Rightarrow> if n \<le> length (st_leaves store) then Some n else None | None \<Rightarrow> None)) (\<lambda>count.
     res_bind (slice_to count (st_leaves store)) (\<lambda>pre.
     map_err Trust (reconstruct_from_raw_leaves (env_ct env) pre)))"

text \<open>\<^verbatim>\<open>x + 1\<close> on \<^verbatim>\<open>u64\<close>.\<close>

definition succ_u64 :: "bool \<Rightarrow> u64 \<Rightarrow> ('e, u64) result" where
  "succ_u64 overflow_checks x = (if overflow_checks \<and> x = - 1 then Panic else Ok (x + 1))"

definition check_against_state :: "'t store_env \<Rightarrow> 't log_store \<Rightarrow> u64 \<Rightarrow> bytes \<Rightarrow> unit cli_result prog" where
  "check_against_state env store pinned_size pinned_root =
     (case to_parts (tree_root (env_ct env) (st_tree store)) of (rebuilt_root, rebuilt_size) \<Rightarrow>
      let mismatch = Ret (Err (LogDirInvalid (st_dir store)
            (lit ''leaves rebuild to tree size '' @ dec64 rebuilt_size @ lit '' with root '' @
             b64_encode (env_b64 env) rebuilt_root @ lit '', but state.json pins tree size '' @ dec64 pinned_size @
             lit '' with root '' @ b64_encode (env_b64 env) pinned_root))) in
      if rebuilt_size = pinned_size \<and> rebuilt_root = pinned_root then Ret (Ok ())
      else
        rbind (Ret (succ_u64 (env_overflow_checks env) pinned_size)) (\<lambda>next_size.
        if rebuilt_size = next_size then
          rbind (Ret (prefix_tree env store pinned_size)) (\<lambda>pre.
          case to_parts (tree_root (env_ct env) pre) of (prefix_root, _) \<Rightarrow>
          if prefix_root = pinned_root then
            rbind (write_state env (st_dir store) (tree_root (env_ct env) (st_tree store))) (\<lambda>_.
            eprintln (lit ''recovered interrupted append: state advanced to '' @ dec64 rebuilt_size))
          else mismatch)
        else mismatch))"

definition store_open :: "'t store_env \<Rightarrow> path \<Rightarrow> 't log_store cli_result prog" where
  "store_open env dir =
     (let config_path = sub dir ''log.json'' in
      pbind (fs_bool (Exists config_path)) (\<lambda>b.
      if \<not> b then Ret (Err (LogDirMissing dir))
      else
        rbind (parse_state_file (env_config env) dir config_path (lit ''log.json'')) (\<lambda>config.
        if lc_format config \<noteq> LOG_DIR_FORMAT
        then Ret (Err (LogDirInvalid dir (lit ''log.json format is '' @ env_dbg env (lc_format config) @
          lit '', expected '' @ env_dbg env LOG_DIR_FORMAT)))
        else
          let state_path = sub dir ''state.json'' in
          rbind (parse_state_file (env_state env) dir state_path (lit ''state.json'')) (\<lambda>state.
          rbind (Ret (decode_pinned_root (env_b64 env) dir (ls_root_hash state))) (\<lambda>pinned_root.
          rbind (read_leaves (env_dbg env) dir) (\<lambda>leaves.
          rbind (Ret (map_err Trust (reconstruct_from_raw_leaves (env_ct env) leaves))) (\<lambda>tree.
          let store = \<lparr>st_dir = dir, st_origin = lc_origin config, st_leaves = leaves, st_tree = tree\<rparr> in
          rbind (check_against_state env store (ls_tree_size state) pinned_root) (\<lambda>_.
          Ret (Ok store)))))))))"

text \<open>The updated store comes back with the value; after an error the caller drops the store.\<close>

definition store_append ::
  "'t store_env \<Rightarrow> 't log_store \<Rightarrow> bytes \<Rightarrow> ('t log_store \<times> u64 \<times> bytes) cli_result prog" where
  "store_append env store leaf_bytes =
     (let idx = tree_len (env_ct env) (st_tree store);
          p = leaf_path (st_dir store) idx in
      rbind (perr (\<lambda>source. Io (lit ''failed to create leaf file '' @ display_path p) source) (fs_open True 438 p)) (\<lambda>file.
      rbind (perr (\<lambda>source. Io (lit ''failed to write leaf file '' @ display_path p) source)
        (fs_unit (Write_all file leaf_bytes))) (\<lambda>_.
      rbind (Ret (map_err Trust (append_raw (env_ct env) (st_tree store) leaf_bytes))) (\<lambda>(tree, _).
      let store = store\<lparr>st_tree := tree, st_leaves := st_leaves store @ [leaf_bytes]\<rparr> in
      rbind (write_state env (st_dir store) (tree_root (env_ct env) (st_tree store))) (\<lambda>_.
      Ret (Ok (store, idx, raw_leaf_hash (env_sha env) leaf_bytes)))))))"

definition store_leaf_bytes :: "'t log_store \<Rightarrow> u64 \<Rightarrow> bytes option" where
  "store_leaf_bytes store idx =
     (case usize_try_from idx of
        Some i \<Rightarrow> if i < length (st_leaves store) then Some (st_leaves store ! i) else None
      | None \<Rightarrow> None)"

end
