(* ===== verification/File_View.thy ===== *)
theory File_View
  imports Os_Model
begin

text \<open>
  The file system seen as a map from paths to contents. In a well-formed world without hard
  links, the calls of the standard library act on that map as one expects; a failing call
  either leaves it alone or stops half-way, as stated.
\<close>

definition wf_fs :: "world \<Rightarrow> bool" where
  "wf_fs w \<longleftrightarrow>
     distinct (map fst (entries w)) \<and>
     (\<forall>p i. lookup w p = Some (File i) \<longrightarrow> i < next_inode w) \<and>
     (\<forall>p q i. lookup w p = Some (File i) \<longrightarrow> lookup w q = Some (File i) \<longrightarrow> p = q)"

text \<open>Same files and directories, whatever else.\<close>

definition same_view :: "world \<Rightarrow> world \<Rightarrow> bool" where
  "same_view w w' \<longleftrightarrow> content w' = content w \<and> is_dir w' = is_dir w \<and> (wf_fs w \<longrightarrow> wf_fs w')"

lemma same_view_refl [simp]: "same_view w w"
  by (simp add: same_view_def)

lemma content_Some: "content w p = Some b \<longleftrightarrow> (\<exists>i. lookup w p = Some (File i) \<and> data (inodes w i) = b)"
  by (auto simp: content_def split: option.splits entry.splits)

lemma content_not_dir: "content w p = Some b \<Longrightarrow> p = d @ [Normal n] \<Longrightarrow> \<not> is_dir w p"
  by (auto simp: content_Some is_dir_def)

lemma lookup_None_iff:
  "lookup w (d @ [Normal n]) = None \<longleftrightarrow> content w (d @ [Normal n]) = None \<and> \<not> is_dir w (d @ [Normal n])"
  by (auto simp: content_def is_dir_def split: option.splits entry.splits)

lemma same_view_fields:
  "entries w' = entries w \<Longrightarrow> inodes w' = inodes w \<Longrightarrow> next_inode w' = next_inode w \<Longrightarrow> same_view w w'"
  by (simp add: same_view_def content_def [abs_def] is_dir_def [abs_def] wf_fs_def cong: option.case_cong entry.case_cong)

lemma same_view_pop [simp]: "same_view w (pop_fault w)"
  by (rule same_view_fields) simp_all

lemma view_pop [simp]: "content (pop_fault w) = content w" "is_dir (pop_fault w) = is_dir w" "wf_fs (pop_fault w) = wf_fs w"
  using same_view_pop [of w] by (auto simp: same_view_def wf_fs_def)

lemma view_out [simp]:
  "content (w\<lparr>stdout := x\<rparr>) = content w" "is_dir (w\<lparr>stdout := x\<rparr>) = is_dir w" "wf_fs (w\<lparr>stdout := x\<rparr>) = wf_fs w"
  "content (w\<lparr>stderr := x\<rparr>) = content w" "is_dir (w\<lparr>stderr := x\<rparr>) = is_dir w" "wf_fs (w\<lparr>stderr := x\<rparr>) = wf_fs w"
  "content (w\<lparr>faults := g\<rparr>) = content w" "is_dir (w\<lparr>faults := g\<rparr>) = is_dir w" "wf_fs (w\<lparr>faults := g\<rparr>) = wf_fs w"
  by (simp_all add: content_def [abs_def] is_dir_def [abs_def] wf_fs_def cong: option.case_cong entry.case_cong)

lemma wf_fsD:
  assumes "wf_fs w"
  shows "distinct (map fst (entries w))" and "lookup w p = Some (File i) \<Longrightarrow> i < next_inode w"
    and "lookup w p = Some (File i) \<Longrightarrow> lookup w q = Some (File i) \<Longrightarrow> p = q"
  using assms unfolding wf_fs_def by blast+

section \<open>Listing a directory\<close>

lemma map_filter_set: "y \<in> set (List.map_filter f xs) \<longleftrightarrow> (\<exists>x \<in> set xs. f x = Some y)"
  by (induction xs) (auto simp: List.map_filter_simps split: option.splits)

lemma names_in_set:
  "set (names_in w d) = {n. content w (d @ [Normal n]) \<noteq> None \<or> is_dir w (d @ [Normal n])}"
proof -
  have "n \<in> set (names_in w d) \<longleftrightarrow> lookup w (d @ [Normal n]) \<noteq> None" for n
  proof -
    let ?f = "\<lambda>(p, _). case file_name p of Some n \<Rightarrow> if p = path_join d n then Some n else None | None \<Rightarrow> None"
    have f: "?f x = Some n \<longleftrightarrow> fst x = d @ [Normal n]" for x :: "path \<times> entry"
      by (cases x) (auto simp: path_join_def file_name_Some split: option.splits if_splits)
    have "n \<in> set (names_in w d) \<longleftrightarrow> (\<exists>x \<in> set (entries w). ?f x = Some n)"
      unfolding names_in_def by (rule map_filter_set)
    then have "n \<in> set (names_in w d) \<longleftrightarrow> d @ [Normal n] \<in> fst ` set (entries w)"
      unfolding f image_iff by metis
    then show ?thesis by (simp add: map_of_eq_None_iff)
  qed
  then show ?thesis
    by (intro set_eqI) (simp only: mem_Collect_eq lookup_None_iff de_Morgan_conj not_not)
qed

lemma distinct_map_filter:
  "distinct xs \<Longrightarrow> (\<And>x y z. f x = Some z \<Longrightarrow> f y = Some z \<Longrightarrow> x \<in> set xs \<Longrightarrow> y \<in> set xs \<Longrightarrow> x = y) \<Longrightarrow> distinct (List.map_filter f xs)"
proof (induction xs)
  case (Cons a xs)
  then have "distinct (List.map_filter f xs)" by (metis distinct.simps(2) list.set_intros(2))
  moreover have "z \<notin> set (List.map_filter f xs)" if "f a = Some z" for z
    using Cons.prems that by (fastforce simp: List.map_filter_def)
  ultimately show ?case by (auto simp: List.map_filter_simps split: option.splits)
qed (simp add: List.map_filter_simps)

lemma names_in_distinct: "wf_fs w \<Longrightarrow> distinct (names_in w d)"
  unfolding names_in_def
proof (rule distinct_map_filter)
  assume w: "wf_fs w"
  then show "distinct (entries w)" by (auto simp: wf_fs_def distinct_map)
  have inj: "inj_on fst (set (entries w))" using w by (auto simp: wf_fs_def distinct_map)
  let ?f = "\<lambda>(p, _). case file_name p of Some n \<Rightarrow> if p = path_join d n then Some n else None | None \<Rightarrow> None"
  show "x = y" if "?f x = Some n" "?f y = Some n" "x \<in> set (entries w)" "y \<in> set (entries w)" for x y n
  proof -
    have "fst x = fst y"
      using that(1,2) by (auto split: prod.splits option.splits if_splits)
    with inj that(3,4) show ?thesis by (auto dest: inj_onD)
  qed
qed

section \<open>Effects on the map\<close>

lemma fun_upd_content:
  assumes "\<And>q. q \<noteq> p \<Longrightarrow> lookup w' q = lookup w q"
    and "\<And>q i. q \<noteq> p \<Longrightarrow> lookup w q = Some (File i) \<Longrightarrow> data (inodes w' i) = data (inodes w i)"
  shows "content w' = (content w)(p := content w' p)"
proof
  fix q
  show "content w' q = ((content w)(p := content w' p)) q"
    using assms(1) [of q] assms(2) [of q] by (auto simp: content_def split: option.splits entry.splits)
qed

lemma is_dir_upd:
  assumes "\<And>q. q \<noteq> p \<Longrightarrow> lookup w' q = lookup w q" and "\<And>m. lookup w p \<noteq> Some (Dir m)" and "\<And>m. lookup w' p \<noteq> Some (Dir m)"
  shows "is_dir w' = is_dir w"
proof
  fix q
  show "is_dir w' q = is_dir w q"
    using assms(1) [of q] assms(2,3) by (cases "q = p") (auto simp: is_dir_def split: option.splits entry.splits)
qed

lemma wf_fs_fresh:
  assumes "wf_fs w" and "distinct (map fst (entries w'))" and "lookup w' = (lookup w)(p \<mapsto> File (next_inode w))"
    and "next_inode w' = Suc (next_inode w)"
  shows "wf_fs w'"
proof -
  have less: "lookup w q = Some (File i) \<Longrightarrow> i < next_inode w" for q i
    using assms(1) by (auto simp: wf_fs_def)
  show ?thesis
    unfolding wf_fs_def assms(3,4)
    using assms(2) less wf_fsD(3) [OF assms(1)] by (auto simp: less_Suc_eq simp del: map_of_eq_Some_iff split: if_splits)
qed

text \<open>Creating or truncating a regular file below an existing directory.\<close>

lemma open_write_view:
  assumes "wf_fs w" and "is_dir w d" and "\<not> is_dir w (d @ [Normal n])" and "new \<longrightarrow> content w (d @ [Normal n]) = None"
  obtains i w' where "open_write new m (d @ [Normal n]) w = (R_handle i, w')"
    and "lookup w' (d @ [Normal n]) = Some (File i)" and "content w' = (content w)(d @ [Normal n] \<mapsto> [])"
    and "is_dir w' = is_dir w" and "wf_fs w'" and "faults w' = faults w"
proof -
  let ?p = "d @ [Normal n]"
  show thesis
  proof (cases "lookup w ?p")
    case None
    let ?w = "(set_entry ?p (File (next_inode w)) (set_inode (next_inode w) \<lparr>data = [], mode = m AND NOT (umask w)\<rparr> w))
                \<lparr>next_inode := Suc (next_inode w)\<rparr>"
    have o: "open_write new m ?p w = (R_handle (next_inode w), ?w)"
      using None assms(2,3) by (simp add: open_write_def)
    have l: "lookup ?w = (lookup w)(?p \<mapsto> File (next_inode w))"
      by (simp add: set_entry_def update_conv')
    have "content ?w = (content w)(?p := content ?w ?p)"
      using wf_fsD(2) [OF assms(1)] by (intro fun_upd_content) (auto simp: l)
    moreover have "content ?w ?p = Some []"
      by (simp add: content_Some l)
    moreover have "is_dir ?w = is_dir w"
      by (rule is_dir_upd [of ?p]) (use None in \<open>auto simp: l\<close>)
    moreover have "wf_fs ?w"
      by (rule wf_fs_fresh [OF assms(1) _ l]) (use assms(1) in \<open>simp_all add: wf_fs_def set_entry_def distinct_update\<close>)
    ultimately show thesis
      by (intro that [OF o]) (simp_all add: l)
  next
    case (Some e)
    then obtain i where i: "lookup w ?p = Some (File i)"
      using assms(3) by (cases e) (auto simp: is_dir_def)
    then have nn: "\<not> new"
      using assms(4) by (auto simp: content_def)
    let ?w = "set_inode i ((inodes w i)\<lparr>data := []\<rparr>) w"
    have o: "open_write new m ?p w = (R_handle i, ?w)"
      using i nn by (simp add: open_write_def)
    have "content ?w = (content w)(?p := content ?w ?p)"
      using wf_fsD(3) [OF assms(1) i] by (intro fun_upd_content) auto
    moreover have "content ?w ?p = Some []"
      using i by (simp add: content_Some)
    moreover have "is_dir ?w = is_dir w" "wf_fs ?w"
      using assms(1) by (auto simp: is_dir_def [abs_def] wf_fs_def)
    ultimately show thesis
      by (intro that [OF o]) (simp_all add: i)
  qed
qed

text \<open>A write through the handle of a file.\<close>

lemma write_data_view:
  assumes "wf_fs w" and "lookup w p = Some (File i)" and "content w p = Some []"
  shows "content (write_data i b w) = (content w)(p \<mapsto> b)" and "is_dir (write_data i b w) = is_dir w"
    and "wf_fs (write_data i b w)"
proof -
  have "content (write_data i b w) = (content w)(p := content (write_data i b w) p)"
    using wf_fsD(3) [OF assms(1,2)] by (intro fun_upd_content) (auto simp: write_data_def)
  moreover have "content (write_data i b w) p = Some b"
    using assms(2,3) by (auto simp: content_Some write_data_def)
  ultimately show "content (write_data i b w) = (content w)(p \<mapsto> b)" by simp
  show "is_dir (write_data i b w) = is_dir w" "wf_fs (write_data i b w)"
    using assms(1) by (auto simp: is_dir_def [abs_def] wf_fs_def)
qed

lemma rename_view:
  assumes "wf_fs w" and "content w a = Some x" and "is_dir w d" and "\<not> is_dir w (d @ [Normal n])" and "a \<noteq> d @ [Normal n]"
  obtains w' where "perform (Rename a (d @ [Normal n])) w = (R_unit, w')"
    and "content w' = (content w)(a := None, d @ [Normal n] \<mapsto> x)" and "is_dir w' = is_dir w" and "wf_fs w'"
    and "faults w' = faults w"
proof -
  let ?b = "d @ [Normal n]"
  from assms(2) obtain i where i: "lookup w a = Some (File i)" "data (inodes w i) = x" by (auto simp: content_Some)
  let ?w = "set_entry ?b (File i) (del_entry a w)"
  have o: "perform (Rename a ?b) w = (R_unit, ?w)"
    using i assms(3-5) by simp
  have c: "content ?w = (content w)(a := None, ?b \<mapsto> x)"
  proof
    fix q
    show "content ?w q = ((content w)(a := None, ?b \<mapsto> x)) q"
      using i by (auto simp: content_def split: option.splits entry.splits)
  qed
  have nb: "lookup w ?b \<noteq> Some (Dir m)" for m
    using assms(4) by (auto simp: is_dir_def)
  have "is_dir ?w = is_dir w"
  proof
    fix q
    show "is_dir ?w q = is_dir w q"
      using i nb by (auto simp: is_dir_def split: option.splits entry.splits)
  qed
  moreover have "distinct (map fst (entries ?w))"
    using wf_fsD(1) [OF assms(1)] by (simp add: set_entry_def del_entry_def distinct_update distinct_delete)
  moreover have l: "lookup ?w q = (if q = ?b then Some (File i) else if q = a then None else lookup w q)" for q
    by simp
  have "j < next_inode ?w" if "lookup ?w q = Some (File j)" for q j
    using that wf_fsD(2) [OF assms(1)] i(1) unfolding l by (auto split: if_splits)
  moreover have "q = r" if "lookup ?w q = Some (File j)" "lookup ?w r = Some (File j)" for q r j
    using that wf_fsD(3) [OF assms(1) i(1), of q] wf_fsD(3) [OF assms(1) i(1), of r] wf_fsD(3) [OF assms(1), of q j r]
    unfolding l by (metis entry.inject(2) option.distinct(1) option.inject)
  ultimately have "wf_fs ?w"
    unfolding wf_fs_def by blast
  with \<open>is_dir ?w = is_dir w\<close> show thesis
    by (intro that [OF o c]) simp_all
qed

text \<open>Creating directories leaves the files alone.\<close>

lemma make_dirs_distinct: "distinct (map fst (entries w)) \<Longrightarrow> distinct (map fst (entries (snd (make_dirs ps w))))"
  by (induction ps w rule: make_dirs.induct) (auto simp: set_entry_def distinct_update split: option.splits)

lemma make_dirs_view:
  assumes "wf_fs w"
  shows "content (snd (make_dirs ps w)) = content w" and "wf_fs (snd (make_dirs ps w))"
proof -
  let ?v = "snd (make_dirs ps w)"
  have f: "lookup ?v p = Some (File i) \<longleftrightarrow> lookup w p = Some (File i)" for p i
    using make_dirs_lookup [of ps w p] by auto
  show "content ?v = content w"
  proof (rule ext)
    fix p
    have "content ?v p = Some b \<longleftrightarrow> content w p = Some b" for b
      by (simp add: content_Some f make_dirs_fields)
    then show "content ?v p = content w p" by (metis not_None_eq)
  qed
  show "wf_fs ?v"
    unfolding wf_fs_def f make_dirs_fields using make_dirs_distinct [of w ps] wf_fsD [OF assms] by blast
qed

section \<open>Outcomes of calls, with and without failures\<close>

text \<open>\<open>sees w C D\<close>: the world is well-formed, holds the files \<open>C\<close> and has the directories \<open>D\<close>.\<close>

definition sees :: "world \<Rightarrow> (path \<Rightarrow> bytes option) \<Rightarrow> (path \<Rightarrow> bool) \<Rightarrow> bool" where
  "sees w C D \<longleftrightarrow> wf_fs w \<and> content w = C \<and> is_dir w = D"

lemma sees_pop [simp]: "sees (pop_fault w) C D = sees w C D"
  by (simp add: sees_def)

lemma calm_fault [simp]: "calm w \<Longrightarrow> faults w m = Run"
  by (simp add: calm_def)

lemma calm_same_faults: "calm w \<Longrightarrow> faults w' = faults w \<Longrightarrow> calm w'"
  by (simp add: calm_def)

lemma faults_pop_calm: "calm w \<Longrightarrow> faults (pop_fault w) = faults w"
  by (simp add: pop_fault_def calm_def)

lemma exec_open_sees:
  assumes "sees w C D" and "D d" and "\<not> D (d @ [Normal n])" and "new \<longrightarrow> C (d @ [Normal n]) = None"
    and "exec (Open_write new m (d @ [Normal n])) w = (r, w')"
  shows "(\<exists>i. r = R_handle i \<and> lookup w' (d @ [Normal n]) = Some (File i) \<and> sees w' (C(d @ [Normal n] \<mapsto> [])) D \<and> (calm w \<longrightarrow> calm w'))
    \<or> (\<exists>e. r = R_err e \<and> sees w' C D \<and> \<not> calm w)"
proof (cases "faults w 0")
  case Run
  have "wf_fs (pop_fault w)" "is_dir (pop_fault w) d" "\<not> is_dir (pop_fault w) (d @ [Normal n])"
    "new \<longrightarrow> content (pop_fault w) (d @ [Normal n]) = None"
    using assms(1-4) by (auto simp: sees_def)
  from open_write_view [OF this, of m] obtain i v where
    "open_write new m (d @ [Normal n]) (pop_fault w) = (R_handle i, v)" "lookup v (d @ [Normal n]) = Some (File i)"
    "content v = (content (pop_fault w))(d @ [Normal n] \<mapsto> [])" "is_dir v = is_dir (pop_fault w)" "wf_fs v"
    "faults v = faults (pop_fault w)" by metis
  then show ?thesis
    using Run assms(1,5) by (auto simp: exec_def sees_def calm_def faults_pop_calm pop_fault_def)
next
  case (Fail e k)
  then show ?thesis
    using assms(1,5) by (auto simp: exec_def dest: calm_fault [of w 0])
qed

lemma exec_write_sees:
  assumes "sees w C D" and "lookup w p = Some (File i)" and "C p = Some []" and "exec (Write_all i b) w = (r, w')"
  shows "(r = R_unit \<and> sees w' (C(p \<mapsto> b)) D \<and> (calm w \<longrightarrow> calm w'))
    \<or> (\<exists>e j. r = R_err e \<and> sees w' (C(p \<mapsto> take j b)) D \<and> \<not> calm w)"
proof -
  have v: "sees (write_data i x (pop_fault w)) (C(p \<mapsto> x)) D" for x
    using write_data_view [of "pop_fault w" p i x] assms(1-3) by (auto simp: sees_def)
  show ?thesis
  proof (cases "faults w 0")
    case Run
    then show ?thesis
      using assms(4) v by (auto simp: exec_def calm_def pop_fault_def)
  next
    case (Fail e k)
    then show ?thesis
      using assms(4) v by (auto simp: exec_def dest: calm_fault [of w 0])
  qed
qed

lemma exec_rename_sees:
  assumes "sees w C D" and "C a = Some x" and "D d" and "\<not> D (d @ [Normal n])" and "a \<noteq> d @ [Normal n]"
    and "exec (Rename a (d @ [Normal n])) w = (r, w')"
  shows "(r = R_unit \<and> sees w' (C(a := None, d @ [Normal n] \<mapsto> x)) D \<and> (calm w \<longrightarrow> calm w'))
    \<or> (\<exists>e. r = R_err e \<and> sees w' C D \<and> \<not> calm w)"
proof (cases "faults w 0")
  case Run
  have "wf_fs (pop_fault w)" "content (pop_fault w) a = Some x" "is_dir (pop_fault w) d" "\<not> is_dir (pop_fault w) (d @ [Normal n])"
    using assms(1-4) by (auto simp: sees_def)
  from rename_view [OF this assms(5)] obtain v where
    "perform (Rename a (d @ [Normal n])) (pop_fault w) = (R_unit, v)"
    "content v = (content (pop_fault w))(a := None, d @ [Normal n] \<mapsto> x)" "is_dir v = is_dir (pop_fault w)" "wf_fs v"
    "faults v = faults (pop_fault w)" by metis
  then show ?thesis
    using Run assms(1,6) by (auto simp: exec_def sees_def calm_def pop_fault_def)
next
  case (Fail e k)
  then show ?thesis
    using assms(1,6) by (auto simp: exec_def dest: calm_fault [of w 0])
qed

section \<open>What holds at every point of a run\<close>

primrec always :: "(world \<Rightarrow> bool) \<Rightarrow> 'a prog \<Rightarrow> world \<Rightarrow> bool" where
  "always I (Ret x) w = I w"
| "always I (Call c k) w = (I w \<and> always I (k (fst (exec c w))) (snd (exec c w)))"

lemma always_here: "always I p w \<Longrightarrow> I w"
  by (cases p) auto

lemma always_mono: "always I p w \<Longrightarrow> (\<And>v. I v \<Longrightarrow> J v) \<Longrightarrow> always J p w"
  by (induction p arbitrary: w) simp_all

lemma always_reaches: "reaches p w p' v \<Longrightarrow> always I p w \<Longrightarrow> I v"
  by (induction rule: reaches.induct) (auto dest: always_here)

lemma always_pbind:
  "always I (pbind p f) w \<longleftrightarrow> always I p w \<and> always I (f (fst (run p w))) (snd (run p w))"
  by (induction p arbitrary: w) (auto dest: always_here)

lemma always_rbind:
  "always I (rbind p f) w \<longleftrightarrow> always I p w \<and> (\<forall>x. fst (run p w) = Ok x \<longrightarrow> always I (f x) (snd (run p w)))"
proof -
  have "always I p w \<Longrightarrow> I (snd (run p w))"
    by (induction p arbitrary: w) auto
  then show ?thesis
    unfolding rbind_def always_pbind by (cases "fst (run p w)") auto
qed

lemma always_perr: "always I (perr g p) w \<longleftrightarrow> always I p w"
proof -
  have "always I p w \<Longrightarrow> I (snd (run p w))"
    by (induction p arbitrary: w) auto
  then show ?thesis unfolding perr_def always_pbind by auto
qed

section \<open>Programs\<close>

lemma run_fs_read: "calm w \<Longrightarrow> content w p = Some b \<Longrightarrow> run (fs_read p) w = (Ok b, w)"
  by (auto simp: fs_read_def exec_calm content_Some)

lemma run_exists: "calm w \<Longrightarrow> content w p = Some b \<Longrightarrow> run (fs_bool (Exists p)) w = (True, w)"
  by (auto simp: fs_bool_def exec_calm content_Some)

lemma run_is_file: "calm w \<Longrightarrow> content w p = Some b \<Longrightarrow> run (fs_bool (Is_file p)) w = (True, w)"
  by (auto simp: fs_bool_def exec_calm content_Some)

lemma run_read_dir: "calm w \<Longrightarrow> is_dir w d \<Longrightarrow> run (fs_read_dir d) w = (Ok (map Inr (names_in w d)), w)"
  by (simp add: fs_read_dir_def exec_calm)

text \<open>Writing a file: all of it, or an error after some prefix; in between, some prefix.\<close>

lemma fs_write_sees:
  assumes "sees w C D" and "D d" and "\<not> D (d @ [Normal n])"
  defines "p \<equiv> d @ [Normal n]"
  shows "always (\<lambda>v. sees v C D \<or> (\<exists>j. sees v (C(p \<mapsto> take j b)) D)) (fs_write p b) w \<and>
    (case run (fs_write p b) w of
       (Ok _, v) \<Rightarrow> sees v (C(p \<mapsto> b)) D \<and> (calm w \<longrightarrow> calm v)
     | (Err e, v) \<Rightarrow> (sees v C D \<or> (\<exists>j. sees v (C(p \<mapsto> take j b)) D)) \<and> \<not> calm w
     | (Panic, v) \<Rightarrow> False)"
proof -
  let ?I = "\<lambda>v. sees v C D \<or> (\<exists>j. sees v (C(p \<mapsto> take j b)) D)"
  obtain r v where o: "exec (Open_write False 438 p) w = (r, v)" by (cases "exec (Open_write False 438 p) w")
  have I0: "sees v (C(p \<mapsto> [])) D \<Longrightarrow> ?I v" for v
    by (metis take0)
  have I1: "sees v (C(p \<mapsto> b)) D \<Longrightarrow> ?I v" for v
    by (metis order_refl take_all)
  from exec_open_sees [OF assms(1-3) _ o [unfolded p_def]]
  consider i where "r = R_handle i" "lookup v p = Some (File i)" "sees v (C(p \<mapsto> [])) D" "calm w \<longrightarrow> calm v"
    | e where "r = R_err e" "sees v C D" "\<not> calm w"
    unfolding p_def by auto
  then show ?thesis
  proof cases
    case 1
    obtain s u where w: "exec (Write_all i b) v = (s, u)" by (cases "exec (Write_all i b) v")
    have "(s = R_unit \<and> sees u (C(p \<mapsto> b)) D \<and> (calm v \<longrightarrow> calm u))
      \<or> (\<exists>e j. s = R_err e \<and> sees u (C(p \<mapsto> take j b)) D \<and> \<not> calm v)"
      using exec_write_sees [OF 1(3,2) _ w] by simp
    then show ?thesis
      using 1 o w assms(1) I0 I1
      by (auto simp: fs_write_def always_rbind run_rbind fs_open_def fs_unit_def)
  next
    case 2
    then show ?thesis
      using o assms(1) by (auto simp: fs_write_def always_rbind run_rbind fs_open_def fs_unit_def)
  qed
qed

end
