(* ===== verification/Store_Facts.thy ===== *)
theory Store_Facts
  imports Store_Model File_View
begin

text \<open>
  The log directory as a representation of a list of leaves: what a directory must hold, that
  opening one gives its leaves, and what each file operation of the store does to it.
\<close>

section \<open>Leaf names\<close>

lemma dec_length_le: "n < 10 ^ Suc k \<Longrightarrow> length (dec n) \<le> Suc k"
proof (induction k arbitrary: n)
  case (Suc k)
  show ?case
  proof (cases "n < 10")
    case True
    then show ?thesis by (subst dec.simps) simp
  next
    case False
    have "n div 10 < 10 ^ Suc k"
      using Suc.prems by (simp add: div_less_iff_less_mult mult.commute)
    from Suc.IH [OF this] False show ?thesis by (subst dec.simps) simp
  qed
qed (subst dec.simps, simp)

lemma dec64_length: "length (dec64 x) \<le> 20"
proof -
  have "unat x < 2 ^ 64" using unsigned_less [of x, where ?'a = nat] by simp
  also have "(2 :: nat) ^ 64 < 10 ^ Suc 19" by simp
  finally show ?thesis using dec_length_le [of "unat x" 19] by simp
qed

lemma leaf_name_length: "length (leaf_name i) = 20"
  using dec64_length [of i] by (simp add: leaf_name_def LEAF_NAME_WIDTH_def Let_def)

lemma leaf_name_digits: "list_all is_ascii_digit (leaf_name i)"
  using dec_digits [of _ "unat i"] by (auto simp: leaf_name_def Let_def list_all_iff is_ascii_digit_def)

lemma leaf_name_ascii: "list_all (\<lambda>c. c < 128) (leaf_name i)"
  using leaf_name_digits [of i] by (auto simp: list_all_iff is_ascii_digit_def)

lemma parse_digits_zeros: "0 < lim \<Longrightarrow> parse_digits lim 10 0 (replicate k 48 @ s) = parse_digits lim 10 0 s"
  by (induction k) (simp_all add: to_digit_def is_ascii_digit_def)

lemma parse_leaf_name: "parse_u64 (leaf_name i) = Inr i"
proof -
  have lt: "unat i < 2 ^ 64"
    using unsigned_less [of i, where ?'a = nat] by simp
  have "parse_digits (2 ^ 64) 10 0 (leaf_name i) = Inr (unat i)"
    unfolding leaf_name_def Let_def using parse_digits_dec [OF lt] by (simp add: parse_digits_zeros)
  moreover obtain c cs where "leaf_name i = c # cs"
    using leaf_name_length [of i] by (cases "leaf_name i") auto
  moreover from this have "c \<noteq> PLUS"
    using leaf_name_digits [of i] by (auto simp: is_ascii_digit_def)
  ultimately show ?thesis
    by (simp add: parse_u64_def from_str_radix_def)
qed

lemma leaf_name_inj: "leaf_name i = leaf_name j \<longleftrightarrow> i = j"
  by (metis parse_leaf_name sum.inject(2))

lemma leaf_name_no_dot [simp]: "strip_prefix [46] (leaf_name i) = None"
proof -
  obtain c cs where "leaf_name i = c # cs"
    using leaf_name_length [of i] by (cases "leaf_name i") auto
  moreover from this have "c \<noteq> 46"
    using leaf_name_digits [of i] by (auto simp: is_ascii_digit_def)
  ultimately show ?thesis by (simp add: strip_prefix_def)
qed

section \<open>The representation\<close>

definition json_bytes :: "'a json \<Rightarrow> 'a \<Rightarrow> bytes" where
  "json_bytes j x = (case to_pretty j x of Inr s \<Rightarrow> utf8_encode (s @ [NL]) | Inl _ \<Rightarrow> [])"

lemma json_bytes:
  assumes "json_ok j"
  shows "state_json_bytes j x what = Ok (json_bytes j x)" and "from_json j (json_bytes j x) = Inr x"
proof -
  obtain s where "to_pretty j x = Inr s" "from_json j (utf8_encode (s @ [NL])) = Inr x"
    using assms unfolding json_ok_def by blast
  then show "state_json_bytes j x what = Ok (json_bytes j x)" and "from_json j (json_bytes j x) = Inr x"
    by (simp_all add: state_json_bytes_def json_bytes_def)
qed

text \<open>The crates behave as documented.\<close>

definition env_ok :: "'t store_env \<Rightarrow> bool" where
  "env_ok env \<longleftrightarrow> base64_standard (env_b64 env) \<and> sha256_size (env_sha env) \<and> ct_trees_ok (env_sha env) (env_ct env) \<and>
     json_ok (env_config env) \<and> json_ok (env_state env)"

definition state_of :: "'t store_env \<Rightarrow> bytes list \<Rightarrow> log_state" where
  "state_of env ps = \<lparr>ls_tree_size = of_nat (length ps), ls_root_hash = b64_encode (env_b64 env) (mth (env_sha env) ps)\<rparr>"

definition dot_name :: "os_str \<Rightarrow> bool" where
  "dot_name n \<longleftrightarrow> (case n of Uni s \<Rightarrow> strip_prefix (lit ''.'') s \<noteq> None | Non_utf8 b s \<Rightarrow> False)"

text \<open>\<open>log_at env dir origin ls ps C D\<close>: the files \<open>C\<close> and directories \<open>D\<close> hold under \<open>dir\<close> the log of \<open>origin\<close>
  with the leaf files \<open>ls\<close> and a state file that pins the leaves \<open>ps\<close>.\<close>

definition log_at ::
  "'t store_env \<Rightarrow> path \<Rightarrow> str \<Rightarrow> bytes list \<Rightarrow> bytes list \<Rightarrow> (path \<Rightarrow> bytes option) \<Rightarrow> (path \<Rightarrow> bool) \<Rightarrow> bool" where
  "log_at env dir origin ls ps C D \<longleftrightarrow>
     D dir \<and> D (sub dir ''leaves'') \<and> \<not> D (sub dir ''state.json'') \<and> \<not> D (sub dir ''state.json.tmp'') \<and>
     C (sub dir ''log.json'') =
       Some (json_bytes (env_config env) \<lparr>lc_format = LOG_DIR_FORMAT, lc_origin = origin\<rparr>) \<and>
     C (sub dir ''state.json'') = Some (json_bytes (env_state env) (state_of env ps)) \<and>
     (\<forall>n. C (path_join (sub dir ''leaves'') n) \<noteq> None \<or> D (path_join (sub dir ''leaves'') n) \<longrightarrow>
        dot_name n \<or> (\<exists>i < length ls. n = Uni (leaf_name (of_nat i)))) \<and>
     (\<forall>i < length ls. C (leaf_path dir (of_nat i)) = Some (ls ! i)) \<and>
     length ls \<le> ct_max_leaves"

lemma log_atD:
  assumes "log_at env dir origin ls ps C D"
  shows "D dir" and "D (sub dir ''leaves'')" and "\<not> D (sub dir ''state.json'')" and "\<not> D (sub dir ''state.json.tmp'')"
    and "C (sub dir ''log.json'') = Some (json_bytes (env_config env) \<lparr>lc_format = LOG_DIR_FORMAT, lc_origin = origin\<rparr>)"
    and "C (sub dir ''state.json'') = Some (json_bytes (env_state env) (state_of env ps))"
    and "C (path_join (sub dir ''leaves'') n) \<noteq> None \<or> D (path_join (sub dir ''leaves'') n) \<Longrightarrow>
        dot_name n \<or> (\<exists>i < length ls. n = Uni (leaf_name (of_nat i)))"
    and "i < length ls \<Longrightarrow> C (leaf_path dir (of_nat i)) = Some (ls ! i)" and "length ls \<le> ct_max_leaves"
  using assms unfolding log_at_def by blast+

lemma unat_small: "m \<le> ct_max_leaves \<Longrightarrow> unat (of_nat m :: u64) = m"
  by (simp add: unat_of_nat ct_max_leaves_def)

lemma of_nat_inj64: "m \<le> ct_max_leaves \<Longrightarrow> n \<le> ct_max_leaves \<Longrightarrow> (of_nat m :: u64) = of_nat n \<longleftrightarrow> m = n"
  by (metis unat_small)

section \<open>Reading the leaves\<close>

definition leaf_indices :: "os_str list \<Rightarrow> u64 list" where
  "leaf_indices ns = List.map_filter
     (\<lambda>n. case n of Uni s \<Rightarrow> if dot_name n then None else (case parse_u64 s of Inr i \<Rightarrow> Some i | Inl _ \<Rightarrow> None)
       | Non_utf8 b s \<Rightarrow> None) ns"

lemma leaf_indices_simps [simp]:
  "leaf_indices [] = []"
  "dot_name n \<Longrightarrow> leaf_indices (n # ns) = leaf_indices ns"
  "leaf_indices (Uni (leaf_name i) # ns) = i # leaf_indices ns"
  by (auto simp: leaf_indices_def List.map_filter_simps dot_name_def parse_leaf_name leaf_name_no_dot split: os_str.splits)

text \<open>The listing of a log directory: dot files, and leaf names that are files.\<close>

lemma read_entries_run:
  assumes "calm w"
    and "\<And>n. n \<in> set ns \<Longrightarrow> dot_name n \<or> (\<exists>i b. n = Uni (leaf_name i) \<and> content w (leaf_path dir i) = Some b)"
  shows "run (read_entries dbg dir (map Inr ns) acc) w = (Ok (acc @ leaf_indices ns), w)"
  using assms(2)
proof (induction ns arbitrary: acc)
  case (Cons n ns)
  show ?case
  proof (cases "dot_name n")
    case True
    then obtain s where "n = Uni s" "strip_prefix (lit ''.'') s \<noteq> None"
      by (auto simp: dot_name_def split: os_str.splits)
    with True Cons show ?thesis by simp
  next
    case False
    with Cons.prems [of n] obtain i b where i: "n = Uni (leaf_name i)" "content w (leaf_path dir i) = Some b" by auto
    have "str_len (leaf_name i) = LEAF_NAME_WIDTH"
      by (simp add: str_len_ascii [OF leaf_name_ascii] leaf_name_length LEAF_NAME_WIDTH_def)
    with i Cons run_is_file [OF assms(1) i(2)] show ?thesis
      by (simp add: leaf_name_no_dot leaf_name_digits parse_leaf_name run_pbind leaf_path_def)
  qed
qed simp

lemma check_contiguous_upto: "check_contiguous dir (of_nat k) (map of_nat [k ..< n]) = Ok ()"
proof (induction "n - k" arbitrary: k)
  case (Suc m)
  then have "k < n" and "m = n - Suc k" by auto
  with Suc.hyps(1) [of "Suc k"] show ?case
    by (simp add: upt_conv_Cons add.commute)
qed simp

lemma read_leaf_files_run:
  "calm w \<Longrightarrow> list_all2 (\<lambda>i l. content w (leaf_path dir i) = Some l) is ls \<Longrightarrow> run (read_leaf_files dir is) w = (Ok ls, w)"
proof (induction "is" arbitrary: ls)
  case (Cons i "is")
  then obtain l ls' where "ls = l # ls'" "content w (leaf_path dir i) = Some l"
    "list_all2 (\<lambda>i l. content w (leaf_path dir i) = Some l) is ls'"
    by (auto simp: list_all2_Cons1)
  with Cons show ?case by (simp add: run_rbind run_perr read_file_def run_fs_read)
qed simp

lemma sort_unique: "distinct xs \<Longrightarrow> distinct ys \<Longrightarrow> sorted ys \<Longrightarrow> set xs = set ys \<Longrightarrow> sort xs = ys"
  by (rule sorted_distinct_set_unique) auto

lemma sorted_of_nat64: "n \<le> ct_max_leaves \<Longrightarrow> sorted (map of_nat [0 ..< n] :: u64 list) \<and> distinct (map of_nat [0 ..< n] :: u64 list)"
  by (auto simp: sorted_iff_nth_mono distinct_conv_nth word_le_nat_alt unat_small of_nat_inj64)

lemma leaf_indices_log:
  assumes "wf_fs w" and "log_at env dir origin ls ps (content w) (is_dir w)"
  shows "sort (leaf_indices (names_in w (sub dir ''leaves''))) = map of_nat [0 ..< length ls]"
proof -
  let ?ns = "names_in w (sub dir ''leaves'')"
  note L = log_atD [OF assms(2)]
  have ns: "n \<in> set ?ns \<Longrightarrow> dot_name n \<or> (\<exists>i < length ls. n = Uni (leaf_name (of_nat i)))" for n
    using L(7) unfolding names_in_set [folded path_join_def] by blast
  have mem: "i < length ls \<Longrightarrow> Uni (leaf_name (of_nat i)) \<in> set ?ns" for i
    using L(8) unfolding names_in_set [folded path_join_def] leaf_path_def by blast
  let ?f = "\<lambda>n. case n of Uni s \<Rightarrow> if dot_name n then None else (case parse_u64 s of Inr i \<Rightarrow> Some i | Inl _ \<Rightarrow> None)
       | Non_utf8 b s \<Rightarrow> None"
  have leaf: "n \<in> set ?ns \<Longrightarrow> ?f n = Some i \<longleftrightarrow> n = Uni (leaf_name i)" for n i
    using ns [of n] by (auto simp: dot_name_def leaf_name_no_dot parse_leaf_name leaf_name_inj split: os_str.splits)
  have "set (leaf_indices ?ns) = of_nat ` {..<length ls}"
  proof (intro set_eqI)
    fix i
    have "i \<in> set (leaf_indices ?ns) \<longleftrightarrow> Uni (leaf_name i) \<in> set ?ns"
      unfolding leaf_indices_def map_filter_set by (simp add: leaf cong: bex_cong del: lit_simps)
    also have "\<dots> \<longleftrightarrow> i \<in> of_nat ` {..<length ls}"
      using ns [of "Uni (leaf_name i)"] mem by (auto simp: dot_name_def leaf_name_no_dot leaf_name_inj)
    finally show "i \<in> set (leaf_indices ?ns) \<longleftrightarrow> i \<in> of_nat ` {..<length ls}" .
  qed
  moreover have "distinct (leaf_indices ?ns)"
    unfolding leaf_indices_def
    by (rule distinct_map_filter [OF names_in_distinct [OF assms(1)]]) (use leaf in metis)
  ultimately show ?thesis
    using sorted_of_nat64 [OF L(9)] by (intro sort_unique) (auto simp: atLeast0LessThan)
qed

lemma read_leaves_run:
  assumes "calm w" and "sees w C D" and "log_at env dir origin ls ps C D"
  shows "run (read_leaves dbg dir) w = (Ok ls, w)"
proof -
  have l: "wf_fs w" "log_at env dir origin ls ps (content w) (is_dir w)"
    using assms(2,3) by (auto simp: sees_def)
  let ?ns = "names_in w (sub dir ''leaves'')"
  have "dot_name n \<or> (\<exists>i b. n = Uni (leaf_name i) \<and> content w (leaf_path dir i) = Some b)" if "n \<in> set ?ns" for n
  proof -
    have "dot_name n \<or> (\<exists>i < length ls. n = Uni (leaf_name (of_nat i)))"
      using that log_atD(7) [OF l(2)] unfolding names_in_set [folded path_join_def] by blast
    then show ?thesis using log_atD(8) [OF l(2)] by blast
  qed
  from read_entries_run [OF assms(1) this, of ?ns dbg "[]"]
  have e: "run (read_entries dbg dir (map Inr ?ns) []) w = (Ok (leaf_indices ?ns), w)" by simp
  have "list_all2 (\<lambda>i b. content w (leaf_path dir i) = Some b) (map of_nat [0 ..< length ls]) ls"
    using log_atD(8) [OF l(2)] by (auto simp: list_all2_conv_all_nth)
  from read_leaf_files_run [OF assms(1) this] e leaf_indices_log [OF l] check_contiguous_upto [of dir 0 "length ls"]
    run_read_dir [OF assms(1) log_atD(2) [OF l(2)]]
  show ?thesis
    by (simp add: read_leaves_def run_rbind run_perr Let_def del: lit_simps)
qed

section \<open>Writing the state\<close>

text \<open>A store that is open on a log.\<close>

definition store_of :: "'t store_env \<Rightarrow> path \<Rightarrow> str \<Rightarrow> bytes list \<Rightarrow> 't log_store \<Rightarrow> bool" where
  "store_of env dir origin ls store \<longleftrightarrow>
     st_dir store = dir \<and> st_origin store = origin \<and> st_leaves store = ls \<and> tree_holds (env_ct env) ls (st_tree store)"

lemma env_okD:
  assumes "env_ok env"
  shows "base64_standard (env_b64 env)" and "sha256_size (env_sha env)" and "ct_trees_ok (env_sha env) (env_ct env)"
    and "json_ok (env_config env)" and "json_ok (env_state env)"
  using assms by (auto simp: env_ok_def)

lemma path_join_inj: "path_join p a = path_join q b \<longleftrightarrow> p = q \<and> a = b"
  by (auto simp: path_join_def)

text \<open>The paths of a log directory are distinct.\<close>

lemma store_paths:
  "sub dir ''state.json'' \<noteq> sub dir ''log.json''" "sub dir ''state.json.tmp'' \<noteq> sub dir ''log.json''"
  "sub dir ''state.json.tmp'' \<noteq> sub dir ''state.json''" "sub dir ''state.json'' \<noteq> sub dir ''state.json.tmp''"
  "leaf_path dir i \<noteq> sub dir x" "path_join (sub dir ''leaves'') n \<noteq> sub dir x"
  "sub dir x \<noteq> leaf_path dir i" "sub dir x \<noteq> path_join (sub dir ''leaves'') n"
  by (auto simp: path_join_def leaf_path_def)

lemma log_at_tmp: "log_at env dir origin ls ps C D \<Longrightarrow> log_at env dir origin ls ps (C(sub dir ''state.json.tmp'' := x)) D"
  unfolding log_at_def fun_upd_apply using store_paths [of dir] by (simp del: lit_simps)

lemma log_at_state:
  "log_at env dir origin ls ps C D \<Longrightarrow>
   log_at env dir origin ls qs (C(sub dir ''state.json'' \<mapsto> json_bytes (env_state env) (state_of env qs))) D"
  unfolding log_at_def fun_upd_apply using store_paths [of dir] by (simp del: lit_simps)

lemma log_at_leaf:
  assumes "log_at env dir origin ls ps C D" and "length ls < ct_max_leaves"
  shows "log_at env dir origin (ls @ [l]) ps (C(leaf_path dir (of_nat (length ls)) \<mapsto> l)) D"
proof -
  note L = log_atD [OF assms(1)]
  let ?p = "leaf_path dir (of_nat (length ls))"
  let ?C = "C(?p \<mapsto> l)"
  have "dot_name n \<or> (\<exists>i < length (ls @ [l]). n = Uni (leaf_name (of_nat i)))"
    if "?C (path_join (sub dir ''leaves'') n) \<noteq> None \<or> D (path_join (sub dir ''leaves'') n)" for n
  proof (cases "path_join (sub dir ''leaves'') n = ?p")
    case True
    then have "n = Uni (leaf_name (of_nat (length ls)))" by (simp add: leaf_path_def path_join_inj)
    then show ?thesis by auto
  next
    case False
    from that have "C (path_join (sub dir ''leaves'') n) \<noteq> None \<or> D (path_join (sub dir ''leaves'') n)"
      unfolding fun_upd_other [OF False] .
    from L(7) [OF this] show ?thesis by (metis length_append_singleton less_SucI)
  qed
  moreover have "?C (leaf_path dir (of_nat i)) = Some ((ls @ [l]) ! i)" if "i < length (ls @ [l])" for i
  proof (cases "i = length ls")
    case False
    with that have i: "i < length ls" by simp
    then have "(of_nat i :: u64) \<noteq> of_nat (length ls)"
      using of_nat_inj64 [of i "length ls"] assms(2) by simp
    with i L(8) show ?thesis by (simp add: leaf_path_def path_join_inj leaf_name_inj nth_append)
  qed simp
  ultimately show ?thesis
    unfolding log_at_def using L(1-6) assms(2) store_paths(7) [of dir] by (simp del: lit_simps)
qed

lemma write_state_unfold:
  assumes "env_ok env" and "tree_holds (env_ct env) ls t"
  shows "write_state env dir (tree_root (env_ct env) t) =
    rbind (write_file (sub dir ''state.json.tmp'') (json_bytes (env_state env) (state_of env ls)) (lit ''log state file'')) (\<lambda>_.
      perr (\<lambda>source. Io (lit ''failed to atomically replace log state file '' @ display_path (sub dir ''state.json'')) source)
        (fs_unit (Rename (sub dir ''state.json.tmp'') (sub dir ''state.json''))))"
  using json_bytes(1) [OF env_okD(5) [OF assms(1)]] tree_holds_root [OF env_okD(3) [OF assms(1)] assms(2)]
  by (simp add: write_state_def to_parts_def from_parts_def root_from_inner_def rbind_def state_of_def Let_def del: lit_simps)

text \<open>The points a rewrite of the state file passes through: nothing done, part of the temporary
  file, or the new state.\<close>

lemma write_state_sees:
  assumes "env_ok env" and "tree_holds (env_ct env) ls t" and "sees w C D" and "log_at env dir origin ls ps C D"
  shows "always (\<lambda>v. \<exists>C'. sees v C' D \<and> (log_at env dir origin ls ps C' D \<or> log_at env dir origin ls ls C' D))
      (write_state env dir (tree_root (env_ct env) t)) w \<and>
    (case run (write_state env dir (tree_root (env_ct env) t)) w of
       (Ok _, v) \<Rightarrow> (\<exists>C'. sees v C' D \<and> log_at env dir origin ls ls C' D) \<and> (calm w \<longrightarrow> calm v)
     | (Err e, v) \<Rightarrow> \<not> calm w
     | (Panic, v) \<Rightarrow> False)"
proof -
  note L = log_atD [OF assms(4)]
  let ?tmp = "sub dir ''state.json.tmp''" and ?b = "json_bytes (env_state env) (state_of env ls)"
  let ?J = "\<lambda>v. \<exists>C'. sees v C' D \<and> (log_at env dir origin ls ps C' D \<or> log_at env dir origin ls ls C' D)"
  let ?I = "\<lambda>v. sees v C D \<or> (\<exists>j. sees v (C(?tmp \<mapsto> take j ?b)) D)"
  have IJ: "?I v \<Longrightarrow> ?J v" for v
    using assms(4) log_at_tmp [OF assms(4)] by blast
  have mono: "always ?I p v \<Longrightarrow> always ?J p v" for p :: "unit io_result prog" and v
    by (erule always_mono) (rule IJ)
  obtain r v where r: "run (fs_write ?tmp ?b) w = (r, v)" by (cases "run (fs_write ?tmp ?b) w")
  have W: "always ?I (fs_write ?tmp ?b) w" "case (r, v) of
       (Ok _, v) \<Rightarrow> sees v (C(?tmp \<mapsto> ?b)) D \<and> (calm w \<longrightarrow> calm v)
     | (Err e, v) \<Rightarrow> ?I v \<and> \<not> calm w | (Panic, v) \<Rightarrow> False"
    using fs_write_sees [OF assms(3) L(1), of "Uni (lit ''state.json.tmp'')" ?b] L(4) r
    unfolding path_join_def by simp_all
  show ?thesis
  proof (cases r)
    case (Ok x)
    with W(2) have v: "sees v (C(?tmp \<mapsto> ?b)) D" "calm w \<longrightarrow> calm v" by auto
    obtain s u where s: "exec (Rename ?tmp (sub dir ''state.json'')) v = (s, u)" by (cases "exec (Rename ?tmp (sub dir ''state.json'')) v")
    from exec_rename_sees [OF v(1) _ L(1), of ?tmp ?b "Uni (lit ''state.json'')"] s L(3) store_paths(3) [of dir]
    have u: "(s = R_unit \<and> sees u (C(?tmp := None, sub dir ''state.json'' \<mapsto> ?b)) D \<and> (calm v \<longrightarrow> calm u))
        \<or> (\<exists>e. s = R_err e \<and> sees u (C(?tmp \<mapsto> ?b)) D \<and> \<not> calm v)"
      unfolding path_join_def by simp
    have new: "log_at env dir origin ls ls (C(?tmp := None, sub dir ''state.json'' \<mapsto> ?b)) D"
      by (rule log_at_state [OF log_at_tmp [OF assms(4)]])
    have old: "log_at env dir origin ls ps (C(?tmp \<mapsto> ?b)) D"
      by (rule log_at_tmp [OF assms(4)])
    show ?thesis
      using r Ok s u v mono [OF W(1)] new old
      unfolding write_state_unfold [OF assms(1,2)] write_file_def
      by (auto simp: always_rbind always_perr run_rbind run_perr fs_unit_def simp del: lit_simps)
  next
    case (Err e)
    then show ?thesis
      using r W mono [OF W(1)] unfolding write_state_unfold [OF assms(1,2)] write_file_def
      by (auto simp: always_rbind always_perr run_rbind run_perr fs_unit_def simp del: lit_simps)
  qed (use W(2) in simp)
qed

section \<open>Opening\<close>

lemma run_parse_state_file:
  assumes "calm w" and "content w p = Some (json_bytes j x)" and "json_ok j"
  shows "run (parse_state_file j dir p what) w = (Ok x, w)"
  using run_fs_read [OF assms(1,2)] json_bytes(2) [OF assms(3)]
  by (simp add: parse_state_file_def read_file_def run_rbind run_perr)

lemma decode_pinned_root_of:
  "env_ok env \<Longrightarrow> decode_pinned_root (env_b64 env) dir (ls_root_hash (state_of env ps)) = Ok (mth (env_sha env) ps)"
  using length_mth [of "env_sha env" ps] env_okD(1,2) [of env]
  by (simp add: decode_pinned_root_def state_of_def try_into_array_def)

lemma prefix_tree_run:
  assumes "env_ok env" and "st_leaves store = ps @ qs" and "length (ps @ qs) \<le> ct_max_leaves"
  obtains t where "prefix_tree env store (of_nat (length ps)) = Ok t" and "tree_holds (env_ct env) ps t"
proof -
  obtain t where t: "reconstruct_from_raw_leaves (env_ct env) ps = Ok t" "tree_holds (env_ct env) ps t"
    using reconstruct_raw_holds [OF env_okD(3) [OF assms(1)], of ps] assms(3) by auto
  have "unat (of_nat (length ps) :: u64) = length ps"
    using assms(3) by (intro unat_small) simp
  with t(1) have "prefix_tree env store (of_nat (length ps)) = Ok t"
    by (simp add: prefix_tree_def assms(2) slice_to_def)
  with t(2) show thesis by (rule that [rotated])
qed

lemma succ_small:
  assumes "Suc n \<le> ct_max_leaves"
  shows "succ_u64 b (of_nat n) = Ok (of_nat (Suc n))"
proof -
  have "(of_nat n :: u64) \<noteq> - 1"
  proof
    assume "(of_nat n :: u64) = - 1"
    then have "(of_nat (Suc n) :: u64) = 0" by simp
    with unat_small [OF assms] show False by simp
  qed
  then show ?thesis by (simp add: succ_u64_def add.commute)
qed

lemma check_same:
  assumes "env_ok env" and "tree_holds (env_ct env) ls (st_tree store)"
  shows "check_against_state env store (of_nat (length ls)) (mth (env_sha env) ls) = Ret (Ok ())"
  using tree_holds_root [OF env_okD(3) [OF assms(1)] assms(2)]
  by (simp add: check_against_state_def Let_def to_parts_def from_parts_def root_from_inner_def)

lemma check_recovers:
  assumes "env_ok env" and "store_of env dir origin (ps @ [l]) store" and "length (ps @ [l]) \<le> ct_max_leaves"
  shows "check_against_state env store (of_nat (length ps)) (mth (env_sha env) ps) =
    rbind (write_state env dir (tree_root (env_ct env) (st_tree store))) (\<lambda>_.
      eprintln (lit ''recovered interrupted append: state advanced to '' @ dec64 (of_nat (length (ps @ [l])))))"
proof -
  have h: "tree_holds (env_ct env) (ps @ [l]) (st_tree store)" "st_leaves store = ps @ [l]" "st_dir store = dir"
    using assms(2) by (auto simp: store_of_def)
  obtain t where t: "prefix_tree env store (of_nat (length ps)) = Ok t" "tree_holds (env_ct env) ps t"
    by (rule prefix_tree_run [OF assms(1) h(2) assms(3)])
  have "(of_nat (length ps) :: u64) \<noteq> of_nat (length (ps @ [l]))"
    using assms(3) of_nat_inj64 [of "length ps" "length (ps @ [l])"] by simp
  moreover have "succ_u64 (env_overflow_checks env) (of_nat (length ps)) = (Ok (of_nat (length (ps @ [l]))) :: u64 cli_result)"
    using succ_small [of "length ps"] assms(3) by simp
  ultimately show ?thesis
    using tree_holds_root [OF env_okD(3) [OF assms(1)] h(1)] tree_holds_root [OF env_okD(3) [OF assms(1)] t(2)] t(1) h(3)
    by (simp add: check_against_state_def Let_def to_parts_def from_parts_def root_from_inner_def rbind_def
        del: lit_simps of_nat_Suc)
qed

lemma open_log_run:
  assumes "env_ok env" and "calm w" and "sees w C D" and "log_at env dir origin ls ps C D"
    and "reconstruct_from_raw_leaves (env_ct env) ls = Ok t"
  defines "store \<equiv> \<lparr>st_dir = dir, st_origin = origin, st_leaves = ls, st_tree = t\<rparr>"
  shows "run (store_open env dir) w =
    run (rbind (check_against_state env store (of_nat (length ps)) (mth (env_sha env) ps)) (\<lambda>_. Ret (Ok store))) w"
proof -
  note L = log_atD [OF assms(4)]
  have c: "content w = C" using assms(3) by (simp add: sees_def)
  show ?thesis
    unfolding store_def
    using run_exists [OF assms(2), of "sub dir ''log.json''"] L(5,6) c assms(5)
      run_parse_state_file [OF assms(2) _ env_okD(4) [OF assms(1)], of "sub dir ''log.json''"]
      run_parse_state_file [OF assms(2) _ env_okD(5) [OF assms(1)], of "sub dir ''state.json''"]
      read_leaves_run [OF assms(2-4)] decode_pinned_root_of [OF assms(1)]
    by (simp add: store_open_def run_pbind run_rbind Let_def state_of_def del: lit_simps)
qed

theorem open_log:
  assumes "env_ok env" and "calm w" and "sees w C D" and "log_at env dir origin ls ps C D"
    and "ps = ls \<or> (\<exists>l. ls = ps @ [l])"
  shows "\<exists>store w' C'. run (store_open env dir) w = (Ok store, w') \<and> store_of env dir origin ls store \<and>
    sees w' C' D \<and> log_at env dir origin ls ls C' D \<and> calm w'"
proof -
  note L = log_atD [OF assms(4)]
  obtain t where t: "reconstruct_from_raw_leaves (env_ct env) ls = Ok t" "tree_holds (env_ct env) ls t"
    using reconstruct_raw_holds [OF env_okD(3) [OF assms(1)] L(9)] by auto
  let ?store = "\<lparr>st_dir = dir, st_origin = origin, st_leaves = ls, st_tree = t\<rparr>"
  have s: "store_of env dir origin ls ?store" using t(2) by (simp add: store_of_def)
  note open_run = open_log_run [OF assms(1-4) t(1)]
  show ?thesis
  proof (cases "ps = ls")
    case True
    then show ?thesis
      using open_run check_same [OF assms(1), of ls ?store] t(2) s assms(2-4)
      by (auto simp: rbind_def)
  next
    case False
    then obtain l where l: "ls = ps @ [l]" using assms(5) by blast
    obtain r v where r: "run (write_state env dir (tree_root (env_ct env) t)) w = (r, v)"
      by (cases "run (write_state env dir (tree_root (env_ct env) t)) w")
    from write_state_sees [OF assms(1) t(2) assms(3,4)] r assms(2) obtain C' where
      "r = Ok ()" "sees v C' D" "log_at env dir origin ls ls C' D" "calm v"
      by (cases r) auto
    moreover from this have "sees (v\<lparr>stderr := x\<rparr>) C' D" "calm (v\<lparr>stderr := x\<rparr>)" for x
      by (simp_all add: sees_def calm_def)
    ultimately show ?thesis
      using open_run check_recovers [OF assms(1) s [unfolded l] L(9) [unfolded l]] r s
      unfolding l by (auto simp: run_rbind eprintln_def exec_calm simp del: lit_simps)
  qed
qed

end
