(* ===== verification/Store_Append.thy ===== *)
theory Store_Append
  imports Store_Facts
begin

text \<open>
  Appending to a log directory and creating one: the effect of a whole run, and what the
  directory holds at every point where the process may stop.
\<close>

section \<open>Appending\<close>

lemma next_leaf_free:
  assumes "log_at env dir origin ls ps C D" and "length ls < ct_max_leaves"
  shows "C (leaf_path dir (of_nat (length ls))) = None" and "\<not> D (leaf_path dir (of_nat (length ls)))"
proof -
  let ?n = "Uni (leaf_name (of_nat (length ls)))"
  have "\<not> (dot_name ?n \<or> (\<exists>i < length ls. ?n = Uni (leaf_name (of_nat i))))"
    using of_nat_inj64 [OF less_imp_le [OF assms(2)]] assms(2) by (auto simp: dot_name_def leaf_name_inj)
  with log_atD(7) [OF assms(1), of ?n]
  show "C (leaf_path dir (of_nat (length ls))) = None" and "\<not> D (leaf_path dir (of_nat (length ls)))"
    unfolding leaf_path_def by blast+
qed

text \<open>The logs that a directory can hold after an append of \<open>l\<close> to \<open>ls\<close> that was stopped somewhere: the old
  one, the old one with an unpinned leaf file of some prefix of \<open>l\<close>, or the new one.\<close>

definition append_states :: "bytes list \<Rightarrow> bytes \<Rightarrow> (bytes list \<times> bytes list) set" where
  "append_states ls l = {(ls, ls), (ls @ [l], ls @ [l])} \<union> (\<lambda>j. (ls @ [take j l], ls)) ` UNIV"

abbreviation append_point ::
  "'t store_env \<Rightarrow> path \<Rightarrow> str \<Rightarrow> (path \<Rightarrow> bool) \<Rightarrow> bytes list \<Rightarrow> bytes \<Rightarrow> world \<Rightarrow> bool" where
  "append_point env dir origin D ls l v \<equiv>
     \<exists>C' ms ps. sees v C' D \<and> log_at env dir origin ms ps C' D \<and> (ms, ps) \<in> append_states ls l"

lemma append_pointI:
  "sees v C D \<Longrightarrow> log_at env dir origin ls ls C D \<Longrightarrow> append_point env dir origin D ls l v"
  "sees v C D \<Longrightarrow> log_at env dir origin (ls @ [take j l]) ls C D \<Longrightarrow> append_point env dir origin D ls l v"
  "sees v C D \<Longrightarrow> log_at env dir origin (ls @ [l]) ls C D \<Longrightarrow> append_point env dir origin D ls l v"
  "sees v C D \<Longrightarrow> log_at env dir origin (ls @ [l]) (ls @ [l]) C D \<Longrightarrow> append_point env dir origin D ls l v"
  unfolding append_states_def by (blast | metis (no_types, lifting) UnI2 image_eqI UNIV_I order_refl take_all)+

text \<open>What a finished append leaves behind.\<close>

definition append_done ::
  "'t store_env \<Rightarrow> path \<Rightarrow> str \<Rightarrow> (path \<Rightarrow> bool) \<Rightarrow> bytes list \<Rightarrow> bytes \<Rightarrow> world
     \<Rightarrow> ('t log_store \<times> u64 \<times> bytes) cli_result \<times> world \<Rightarrow> bool" where
  "append_done env dir origin D ls l w rv \<longleftrightarrow> (case rv of
     (Ok (store, i, h), v) \<Rightarrow>
       store_of env dir origin (ls @ [l]) store \<and> i = of_nat (length ls) \<and> h = raw_leaf_hash (env_sha env) l \<and>
       (\<exists>C'. sees v C' D \<and> log_at env dir origin (ls @ [l]) (ls @ [l]) C' D) \<and> (calm w \<longrightarrow> calm v)
   | (Err e, v) \<Rightarrow> \<not> calm w
   | (Panic, v) \<Rightarrow> False)"

lemma append_tree:
  assumes "env_ok env" and "tree_holds (env_ct env) ls t" and "length ls < ct_max_leaves"
  obtains t' m where "append_raw (env_ct env) t l = Ok (t', m)" and "tree_holds (env_ct env) (ls @ [l]) t'"
  using raw_log.append_Ok [OF assms(2), of "env_sha env" l l] env_okD(3) [OF assms(1)] assms(3)
  by (auto simp: tree_room_def from_raw_bytes_def)

lemma store_append_unfold:
  assumes "env_ok env" and "store_of env dir origin ls store" and "length ls < ct_max_leaves"
  obtains t' where "tree_holds (env_ct env) (ls @ [l]) t'"
    and "store_append env store l =
      (let p = leaf_path dir (of_nat (length ls)) in
       rbind (perr (\<lambda>source. Io (lit ''failed to create leaf file '' @ display_path p) source) (fs_open True 438 p)) (\<lambda>file.
       rbind (perr (\<lambda>source. Io (lit ''failed to write leaf file '' @ display_path p) source) (fs_unit (Write_all file l))) (\<lambda>_.
       rbind (write_state env dir (tree_root (env_ct env) t')) (\<lambda>_.
       Ret (Ok (store\<lparr>st_tree := t', st_leaves := ls @ [l]\<rparr>, of_nat (length ls), raw_leaf_hash (env_sha env) l))))))"
proof -
  have s: "tree_holds (env_ct env) ls (st_tree store)" "st_dir store = dir" "st_leaves store = ls"
    using assms(2) by (auto simp: store_of_def)
  obtain t' m where t: "append_raw (env_ct env) (st_tree store) l = Ok (t', m)" "tree_holds (env_ct env) (ls @ [l]) t'"
    by (rule append_tree [OF assms(1) s(1) assms(3)])
  have "tree_len (env_ct env) (st_tree store) = of_nat (length ls)"
    by (rule tree_holds_len [OF env_okD(3) [OF assms(1)] s(1)])
  with t s show thesis
    by (intro that [OF t(2)]) (simp add: store_append_def Let_def rbind_def del: lit_simps)
qed

lemma append_sees:
  assumes "env_ok env" and "store_of env dir origin ls store" and "length ls < ct_max_leaves"
    and "sees w C D" and "log_at env dir origin ls ls C D"
  shows "always (append_point env dir origin D ls l) (store_append env store l) w \<and>
    append_done env dir origin D ls l w (run (store_append env store l) w)"
proof -
  note L = log_atD [OF assms(5)]
  let ?p = "leaf_path dir (of_nat (length ls))" and ?I = "append_point env dir origin D ls l"
  obtain t' where t: "tree_holds (env_ct env) (ls @ [l]) t'" and u: "store_append env store l =
      (let p = ?p in
       rbind (perr (\<lambda>source. Io (lit ''failed to create leaf file '' @ display_path p) source) (fs_open True 438 p)) (\<lambda>file.
       rbind (perr (\<lambda>source. Io (lit ''failed to write leaf file '' @ display_path p) source) (fs_unit (Write_all file l))) (\<lambda>_.
       rbind (write_state env dir (tree_root (env_ct env) t')) (\<lambda>_.
       Ret (Ok (store\<lparr>st_tree := t', st_leaves := ls @ [l]\<rparr>, of_nat (length ls), raw_leaf_hash (env_sha env) l))))))"
    by (rule store_append_unfold [OF assms(1-3)])
  have s': "store_of env dir origin (ls @ [l]) (store\<lparr>st_tree := t', st_leaves := ls @ [l]\<rparr>)"
    using assms(2) t by (simp add: store_of_def)
  have leaf: "log_at env dir origin (ls @ [x]) ls (C(?p \<mapsto> x)) D" for x
    by (rule log_at_leaf [OF assms(5,3)])
  note free = next_leaf_free [OF assms(5,3)]
  obtain r v where o: "exec (Open_write True 438 ?p) w = (r, v)" by (cases "exec (Open_write True 438 ?p) w")
  have "(\<exists>i. r = R_handle i \<and> lookup v ?p = Some (File i) \<and> sees v (C(?p \<mapsto> [])) D \<and> (calm w \<longrightarrow> calm v))
      \<or> (\<exists>e. r = R_err e \<and> sees v C D \<and> \<not> calm w)"
    using exec_open_sees [OF assms(4) L(2), of "Uni (leaf_name (of_nat (length ls)))" True 438 r v] o free
    unfolding leaf_path_def path_join_def [of "sub dir ''leaves''"] by auto
  then consider e where "r = R_err e" "sees v C D" "\<not> calm w"
    | i where "r = R_handle i" "lookup v ?p = Some (File i)" "sees v (C(?p \<mapsto> [])) D" "calm w \<longrightarrow> calm v"
    by blast
  then show ?thesis
  proof cases
    case 1
    then show ?thesis
      using o append_pointI(1) [OF assms(4,5)] append_pointI(1) [OF 1(2) assms(5)]
      unfolding u Let_def append_done_def
      by (auto simp: always_rbind always_perr run_rbind run_perr fs_open_def simp del: lit_simps)
  next
    case 2
    have I2: "?I v" using append_pointI(2) [OF 2(3), of env dir origin ls 0 l] leaf [of "[]"] by simp
    obtain s x where w: "exec (Write_all i l) v = (s, x)" by (cases "exec (Write_all i l) v")
    have "(s = R_unit \<and> sees x (C(?p \<mapsto> l)) D \<and> (calm v \<longrightarrow> calm x))
      \<or> (\<exists>e j. s = R_err e \<and> sees x (C(?p \<mapsto> take j l)) D \<and> \<not> calm v)"
      using exec_write_sees [OF 2(3,2) _ w] by simp
    then consider e j where "s = R_err e" "sees x (C(?p \<mapsto> take j l)) D" "\<not> calm v"
      | "s = R_unit" "sees x (C(?p \<mapsto> l)) D" "calm v \<longrightarrow> calm x" by blast
    then show ?thesis
    proof cases
      case 1
      then show ?thesis
        using o w 2 append_pointI(1) [OF assms(4,5)] I2 append_pointI(2) [OF 1(2) leaf]
        unfolding u Let_def append_done_def
        by (auto simp: always_rbind always_perr run_rbind run_perr fs_open_def fs_unit_def simp del: lit_simps)
    next
      case w2: 2
      obtain q y where q: "run (write_state env dir (tree_root (env_ct env) t')) x = (q, y)"
        by (cases "run (write_state env dir (tree_root (env_ct env) t')) x")
      note W = write_state_sees [OF assms(1) t w2(2) leaf]
      have "always ?I (write_state env dir (tree_root (env_ct env) t')) x"
      proof (rule always_mono)
        show "always (\<lambda>v. \<exists>C'. sees v C' D \<and> (log_at env dir origin (ls @ [l]) ls C' D \<or> log_at env dir origin (ls @ [l]) (ls @ [l]) C' D))
          (write_state env dir (tree_root (env_ct env) t')) x"
          using W by blast
      qed (use append_pointI(3,4) [where ls = ls and l = l] in blast)
      moreover from W q have "case (q, y) of (Ok _, v) \<Rightarrow> (\<exists>C'. sees v C' D \<and> log_at env dir origin (ls @ [l]) (ls @ [l]) C' D) \<and> (calm x \<longrightarrow> calm v)
         | (Err e, v) \<Rightarrow> \<not> calm x | (Panic, v) \<Rightarrow> False" by simp
      ultimately show ?thesis
        using o w 2 w2 q append_pointI(1) [OF assms(4,5)] I2 append_pointI(3) [OF w2(2) leaf] s' append_pointI(4)
        unfolding u Let_def append_done_def
        by (cases q) (auto simp: always_rbind always_perr run_rbind run_perr fs_open_def fs_unit_def simp del: lit_simps)
    qed
  qed
qed

section \<open>Creating a log directory\<close>

text \<open>A place where a log directory can be made: no file in the way, nothing below it.\<close>

definition vacant :: "world \<Rightarrow> path \<Rightarrow> bool" where
  "vacant w dir \<longleftrightarrow> (\<forall>p e. (p, e) \<in> set (entries w) \<longrightarrow>
     take (length dir) p \<noteq> dir \<and> (p = take (length p) dir \<longrightarrow> (\<exists>m. e = Dir m)))"

lemma vacantD:
  assumes "vacant w dir"
  shows "lookup w (dir @ q) = None" and "p \<in> set (ancestors (dir @ q)) \<Longrightarrow> lookup w p \<noteq> Some (File i)"
proof -
  show n: "lookup w (dir @ q) = None" for q
  proof (cases "lookup w (dir @ q)")
    case (Some e)
    then show ?thesis using assms map_of_SomeD [OF Some] unfolding vacant_def by fastforce
  qed
  assume "p \<in> set (ancestors (dir @ q))"
  then obtain k where k: "p = take k (dir @ q)" by (auto simp: ancestors_def)
  show "lookup w p \<noteq> Some (File i)"
  proof
    assume l: "lookup w p = Some (File i)"
    show False
    proof (cases "k < length dir")
      case True
      with k have "p = take (length p) dir" by simp
      then show False using assms map_of_SomeD [OF l] unfolding vacant_def by blast
    next
      case False
      with k have "p = dir @ take (k - length dir) q" by simp
      with n l show False by simp
    qed
  qed
qed

lemma write_file_calm:
  assumes "calm w" and "sees w C D" and "D d" and "\<not> D (path_join d n)"
  shows "\<exists>w'. run (write_file (path_join d n) b what) w = (Ok (), w') \<and> sees w' (C(path_join d n \<mapsto> b)) D \<and> calm w'"
proof -
  obtain r v where r: "run (fs_write (path_join d n) b) w = (r, v)" by (cases "run (fs_write (path_join d n) b) w")
  with fs_write_sees [OF assms(2,3), of n b] assms(1,4) show ?thesis
    unfolding path_join_def write_file_def by (cases r) (auto simp: run_perr)
qed

lemma write_state_calm:
  assumes "env_ok env" and "tree_holds (env_ct env) ls t" and "calm w" and "sees w C D" and "D dir"
    and "\<not> D (sub dir ''state.json'')" and "\<not> D (sub dir ''state.json.tmp'')"
  shows "\<exists>w'. run (write_state env dir (tree_root (env_ct env) t)) w = (Ok (), w') \<and> calm w' \<and>
    sees w' (C(sub dir ''state.json.tmp'' := None, sub dir ''state.json'' \<mapsto> json_bytes (env_state env) (state_of env ls))) D"
proof -
  let ?tmp = "sub dir ''state.json.tmp''" and ?st = "sub dir ''state.json''" and ?b = "json_bytes (env_state env) (state_of env ls)"
  obtain v where v: "run (write_file ?tmp ?b (lit ''log state file'')) w = (Ok (), v)" "sees v (C(?tmp \<mapsto> ?b)) D" "calm v"
    using write_file_calm [OF assms(3-5,7)] by blast
  obtain s u where s: "exec (Rename ?tmp ?st) v = (s, u)" by (cases "exec (Rename ?tmp ?st) v")
  from exec_rename_sees [OF v(2) _ assms(5), of ?tmp ?b "Uni (lit ''state.json'')"] s assms(6) store_paths(3) [of dir] v(3)
  have "s = R_unit \<and> sees u (C(?tmp := None, ?st \<mapsto> ?b)) D \<and> calm u"
    unfolding path_join_def by simp
  with s v(1) show ?thesis
    unfolding write_state_unfold [OF assms(1,2)]
    by (simp add: run_rbind run_perr fs_unit_def del: lit_simps)
qed

text \<open>The directories that \<^verbatim>\<open>create_dir_all\<close> makes for a log.\<close>

lemma init_dirs:
  assumes "vacant w dir"
  defines "v \<equiv> snd (make_dirs (ancestors (sub dir ''leaves'')) w)"
  shows "fst (make_dirs (ancestors (sub dir ''leaves'')) w) = R_unit" and "is_dir v dir" and "is_dir v (sub dir ''leaves'')"
    and "dir @ Normal x # q \<noteq> sub dir ''leaves'' \<Longrightarrow> \<not> is_dir v (dir @ Normal x # q)"
proof -
  let ?q = "sub dir ''leaves''"
  have "fst (make_dirs (ancestors ?q) w) = R_unit \<and> (\<forall>p \<in> set (ancestors ?q). is_dir v p)"
    unfolding v_def by (rule make_dirs_ok) (use vacantD(2) [OF assms(1)] in \<open>auto simp: path_join_def\<close>)
  then show r: "fst (make_dirs (ancestors ?q) w) = R_unit" and "is_dir v ?q"
    using ancestors_self [of ?q] by (simp_all add: path_join_def)
  show "is_dir v dir"
  proof (cases "dir = []")
    case False
    then have "dir \<in> set (ancestors ?q)"
      by (cases dir) (auto simp: ancestors_def path_join_def image_def intro!: bexI [of _ "length dir"])
    with \<open>_ \<and> _\<close> show ?thesis by blast
  qed (simp add: is_dir_def)
  assume n: "dir @ Normal x # q \<noteq> ?q"
  have "dir @ Normal x # q \<notin> set (ancestors ?q)"
  proof
    assume "dir @ Normal x # q \<in> set (ancestors ?q)"
    then obtain k where k: "dir @ Normal x # q = take k ?q" by (auto simp: ancestors_def)
    show False
    proof (cases "length dir < k")
      case True
      with k n show False by (simp add: path_join_def)
    next
      case False
      with arg_cong [OF k, of length] show False by simp
    qed
  qed
  moreover have "dir @ Normal x # q \<notin> {[], [RootDir], [CurDir]}" by (cases dir) auto
  ultimately show "\<not> is_dir v (dir @ Normal x # q)"
    using make_dirs_lookup [of "ancestors ?q" w "dir @ Normal x # q"] vacantD(1) [OF assms(1)]
    unfolding is_dir_def v_def by auto
qed

theorem init_sees:
  assumes "env_ok env" and "from_root origin (tree_root (env_ct env) (tree_new (env_ct env))) = Ok body"
    and "calm w" and "wf_fs w" and "vacant w dir"
  shows "\<exists>w' C D. run (store_init env dir origin) w = (Ok (), w') \<and> sees w' C D \<and> log_at env dir origin [] [] C D \<and> calm w'"
proof -
  let ?q = "sub dir ''leaves''" and ?p = "sub dir ''log.json''" and ?tmp = "sub dir ''state.json.tmp''" and ?st = "sub dir ''state.json''"
  let ?v = "snd (make_dirs (ancestors ?q) w)" and ?b = "json_bytes (env_config env) \<lparr>lc_format = LOG_DIR_FORMAT, lc_origin = origin\<rparr>"
  let ?C = "content w" and ?D = "is_dir ?v" and ?s = "json_bytes (env_state env) (state_of env [])"
  note D = init_dirs [OF assms(5)]
  have names: "?p \<noteq> ?q" "?st \<noteq> ?q" "?tmp \<noteq> ?q" by (simp_all add: path_join_def)
  have nd: "\<not> ?D ?p" "\<not> ?D ?st" "\<not> ?D ?tmp" "\<not> ?D (path_join ?q n)" for n
    using D(4) names unfolding path_join_def by (force simp del: lit_simps)+
  have none: "?C (path_join dir n) = None" "?C (path_join ?q n) = None" for n
    using vacantD(1) [OF assms(5)] by (simp_all add: content_def path_join_def)
  have "run (fs_bool (Exists ?p)) w = (False, w)"
    using vacantD(1) [OF assms(5), of "[Normal (Uni (lit ''log.json''))]"] assms(3)
    by (cases dir) (auto simp: fs_bool_def exec_calm is_dir_def path_join_def simp del: lit_simps)
  moreover have "run (fs_unit (Create_dir_all ?q)) w = (Ok (), ?v)"
    using D(1) assms(3) by (simp add: fs_unit_def exec_calm del: lit_simps)
  moreover have "sees ?v ?C ?D" "calm ?v"
    using make_dirs_view [OF assms(4)] assms(3) by (simp_all add: sees_def calm_def make_dirs_fields del: lit_simps)
  then obtain x where x: "run (write_file ?p ?b (lit ''log config file'')) ?v = (Ok (), x)" "sees x (?C(?p \<mapsto> ?b)) ?D" "calm x"
    using write_file_calm [OF _ _ D(2) nd(1)] by blast
  obtain y where y: "run (write_state env dir (tree_root (env_ct env) (tree_new (env_ct env)))) x = (Ok (), y)" "calm y"
    "sees y (?C(?p \<mapsto> ?b, ?tmp := None, ?st \<mapsto> ?s)) ?D"
    using write_state_calm [OF assms(1) tree_holds_new x(3,2) D(2) nd(2,3)] by blast
  ultimately have "run (store_init env dir origin) w = (Ok (), y)"
    using x y assms(2) json_bytes(1) [OF env_okD(4) [OF assms(1)]]
    by (simp add: store_init_def run_rbind run_pbind run_perr Let_def del: lit_simps)
  moreover have "log_at env dir origin [] [] (?C(?p \<mapsto> ?b, ?tmp := None, ?st \<mapsto> ?s)) ?D"
    unfolding log_at_def fun_upd_apply using D(2,3) nd none store_paths [of dir] by (simp del: lit_simps)
  ultimately show ?thesis using y by blast
qed

end
