(* ===== verification/Log_Commands.thy ===== *)
theory Log_Commands
  imports Store_Model Tlog_Model
begin

text \<open>
  The \<^verbatim>\<open>lys log\<close> commands: \<^verbatim>\<open>commands/log/init.rs\<close>, \<^verbatim>\<open>append.rs\<close>, \<^verbatim>\<open>checkpoint.rs\<close>,
  \<^verbatim>\<open>prove.rs\<close> and \<^verbatim>\<open>verify.rs\<close>.
\<close>

section \<open>init.rs and append.rs\<close>

definition log_init :: "'t store_env \<Rightarrow> path \<Rightarrow> str \<Rightarrow> unit cli_result prog" where
  "log_init env dir origin =
     rbind (store_init env dir origin) (\<lambda>_.
     case to_parts (tree_root (env_ct env) (tree_new (env_ct env))) of (empty_root, tree_size) \<Rightarrow>
     print_lines
       [lit ''initialized log directory: '' @ display_path dir,
        lit ''origin: '' @ origin,
        lit ''tree size: '' @ dec64 tree_size,
        lit ''root hash (sha256): '' @ cli_hex_lower empty_root])"

definition log_append :: "'t store_env \<Rightarrow> path \<Rightarrow> path \<Rightarrow> unit cli_result prog" where
  "log_append env dir leaf =
     rbind (store_open env dir) (\<lambda>store.
     rbind (read_file leaf (lit ''leaf file'')) (\<lambda>leaf_bytes.
     rbind (store_append env store leaf_bytes) (\<lambda>(store, idx, leaf_hash).
     case to_parts (tree_root (env_ct env) (st_tree store)) of (root, tree_size) \<Rightarrow>
     print_lines
       [lit ''leaf index: '' @ dec64 idx,
        lit ''leaf hash (sha256, rfc6962): '' @ cli_hex_lower leaf_hash,
        lit ''tree size: '' @ dec64 tree_size,
        lit ''root hash (sha256): '' @ cli_hex_lower root])))"

section \<open>checkpoint.rs\<close>

definition log_checkpoint :: "'t store_env \<Rightarrow> ed25519 \<Rightarrow> path \<Rightarrow> path \<Rightarrow> path \<Rightarrow> unit cli_result prog" where
  "log_checkpoint env ed dir key out =
     rbind (store_open env dir) (\<lambda>store.
     rbind (load_identity ed key) (\<lambda>identity.
     rbind (Ret (map_err Trust (from_root (st_origin store) (tree_root (env_ct env) (st_tree store))))) (\<lambda>body.
     rbind (Ret (map_err Trust
       (sign_note (env_sha env) (env_b64 env) ed (encode_body (env_b64 env) body) (st_origin store) identity))) (\<lambda>signed.
     rbind (write_file out (utf8_encode signed) (lit ''checkpoint note file'')) (\<lambda>_.
     rbind (Ret (map_err Trust (verifier_key_new (env_sha env) (st_origin store) (public_key_bytes identity)))) (\<lambda>verifier.
     print_lines
       [lit ''origin: '' @ cb_origin body,
        lit ''tree size: '' @ dec64 (cb_tree_size body),
        lit ''root hash (sha256): '' @ cli_hex_lower (cb_root_hash body),
        lit ''checkpoint written: '' @ display_path out,
        lit ''verifier key (signed-note): '' @ to_spec (env_b64 env) verifier]))))))"

section \<open>prove.rs\<close>

text \<open>The JSON crate at the artifact's type is an argument.\<close>

definition write_artifact :: "'a json \<Rightarrow> path \<Rightarrow> 'a \<Rightarrow> str \<Rightarrow> unit cli_result prog" where
  "write_artifact j out artifact what =
     rbind (Ret (map_err (\<lambda>source. JsonSerialize what source) (of_sum (to_pretty j artifact)))) (\<lambda>json.
     write_file out (utf8_encode (json @ [NL])) what)"

definition prove_inclusion_cmd ::
  "'t store_env \<Rightarrow> ed25519 \<Rightarrow> inclusion_artifact json \<Rightarrow> path \<Rightarrow> path \<Rightarrow> u64 \<Rightarrow> path \<Rightarrow> unit cli_result prog" where
  "prove_inclusion_cmd env ed j dir key leaf_index out =
     rbind (store_open env dir) (\<lambda>store.
     rbind (load_identity ed key) (\<lambda>identity.
     rbind (Ret (ok_or (Trust (MerkleTree (lit ''inclusion proof requested for leaf index '' @ dec64 leaf_index @
         lit '' but tree has '' @ dec64 (tree_len (env_ct env) (st_tree store)) @ lit '' leaves'')))
       (store_leaf_bytes store leaf_index))) (\<lambda>leaf_bytes.
     rbind (Ret (map_err Trust (build_inclusion_artifact (env_ct env) (env_sha env) (env_b64 env) ed (st_tree store)
       leaf_bytes (st_origin store) identity leaf_index))) (\<lambda>artifact.
     rbind (write_artifact j out artifact (lit ''inclusion proof artifact'')) (\<lambda>_.
     case to_parts (tree_root (env_ct env) (st_tree store)) of (root, tree_size) \<Rightarrow>
     print_lines
       [lit ''leaf index: '' @ dec64 leaf_index,
        lit ''tree size: '' @ dec64 tree_size,
        lit ''root hash (sha256): '' @ cli_hex_lower root,
        lit ''artifact written: '' @ display_path out])))))"

definition prove_consistency_cmd ::
  "'t store_env \<Rightarrow> ed25519 \<Rightarrow> consistency_artifact json \<Rightarrow> path \<Rightarrow> path \<Rightarrow> u64 \<Rightarrow> path \<Rightarrow> unit cli_result prog" where
  "prove_consistency_cmd env ed j dir key old_size out =
     rbind (store_open env dir) (\<lambda>store.
     rbind (load_identity ed key) (\<lambda>identity.
     let new_size = tree_len (env_ct env) (st_tree store) in
     if old_size \<ge> new_size
     then Ret (Err (Trust (LogArtifactEncoding
       (lit ''consistency artifact requires old size strictly below the current tree size: old='' @ dec64 old_size @
        lit '', current='' @ dec64 new_size))))
     else
       rbind (Ret (prefix_tree env store old_size)) (\<lambda>old_tree.
       rbind (Ret (map_err Trust (build_consistency_artifact (env_ct env) (env_sha env) (env_b64 env) ed old_tree
         (st_tree store) (st_origin store) identity))) (\<lambda>artifact.
       rbind (write_artifact j out artifact (lit ''consistency proof artifact'')) (\<lambda>_.
       case to_parts (tree_root (env_ct env) old_tree) of (old_root, _) \<Rightarrow>
       case to_parts (tree_root (env_ct env) (st_tree store)) of (new_root, _) \<Rightarrow>
       print_lines
         [lit ''old tree size: '' @ dec64 old_size,
          lit ''new tree size: '' @ dec64 new_size,
          lit ''old root hash (sha256): '' @ cli_hex_lower old_root,
          lit ''new root hash (sha256): '' @ cli_hex_lower new_root,
          lit ''artifact written: '' @ display_path out])))))"

section \<open>verify.rs\<close>

definition MAX_ARTIFACT_BYTES :: nat where
  "MAX_ARTIFACT_BYTES = 16 * 1024 * 1024"

definition read_artifact_file :: "path \<Rightarrow> bytes cli_result prog" where
  "read_artifact_file p =
     rbind (perr (\<lambda>source. Io (lit ''failed to read artifact file '' @ display_path p) source) (fs_metadata p)) (\<lambda>(_, len).
     if len > MAX_ARTIFACT_BYTES
     then Ret (Err (Io (lit ''refusing to read artifact file '' @ display_path p)
       \<lparr>io_kind = InvalidData, io_text = lit ''file is '' @ dec len @ lit '' bytes, above the '' @ dec MAX_ARTIFACT_BYTES @
          lit ''-byte artifact cap''\<rparr>))
     else read_file p (lit ''artifact file''))"

definition verify_inclusion_cmd ::
  "'t store_env \<Rightarrow> ed25519 \<Rightarrow> inclusion_artifact json \<Rightarrow> path \<Rightarrow> path \<Rightarrow> str \<Rightarrow> unit cli_result prog" where
  "verify_inclusion_cmd env ed j artifact_path leaf verifier_key =
     rbind (read_artifact_file artifact_path) (\<lambda>artifact_bytes.
     rbind (Ret (map_err (\<lambda>source. JsonParse (lit ''inclusion proof artifact'') artifact_path source)
       (of_sum (from_json j artifact_bytes)))) (\<lambda>artifact.
     rbind (read_file leaf (lit ''leaf file'')) (\<lambda>leaf_bytes.
     rbind (Ret (map_err Trust (from_spec (env_sha env) (env_b64 env) verifier_key))) (\<lambda>verifier.
     rbind (Ret (map_err (\<lambda>_. LogInclusionVerificationFailed)
       (verify_inclusion_artifact (env_ct env) (env_b64 env) ed artifact leaf_bytes verifier))) (\<lambda>body.
     print_lines
       [lit ''inclusion verified'',
        lit ''origin: '' @ cb_origin body,
        lit ''tree size: '' @ dec64 (cb_tree_size body),
        lit ''leaf index: '' @ dec64 (ia_leaf_index artifact),
        lit ''root hash (sha256): '' @ cli_hex_lower (cb_root_hash body)])))))"

definition verify_consistency_cmd ::
  "'t store_env \<Rightarrow> ed25519 \<Rightarrow> consistency_artifact json \<Rightarrow> path \<Rightarrow> str \<Rightarrow> unit cli_result prog" where
  "verify_consistency_cmd env ed j artifact_path verifier_key =
     rbind (read_artifact_file artifact_path) (\<lambda>artifact_bytes.
     rbind (Ret (map_err (\<lambda>source. JsonParse (lit ''consistency proof artifact'') artifact_path source)
       (of_sum (from_json j artifact_bytes)))) (\<lambda>artifact.
     rbind (Ret (map_err Trust (from_spec (env_sha env) (env_b64 env) verifier_key))) (\<lambda>verifier.
     rbind (Ret (map_err (\<lambda>_. LogConsistencyVerificationFailed)
       (verify_consistency_artifact (env_ct env) (env_b64 env) ed artifact verifier))) (\<lambda>(body_1, body_2).
     print_lines
       [lit ''consistency verified'',
        lit ''origin: '' @ cb_origin body_2,
        lit ''old tree size: '' @ dec64 (cb_tree_size body_1),
        lit ''new tree size: '' @ dec64 (cb_tree_size body_2),
        lit ''old root hash (sha256): '' @ cli_hex_lower (cb_root_hash body_1),
        lit ''new root hash (sha256): '' @ cli_hex_lower (cb_root_hash body_2)]))))"

end
