(* ===== verification/Store_Sessions.thy ===== *)
theory Store_Sessions
  imports Store_Append Log_Commands
begin

text \<open>
  Runs of the log commands under any failures: what a successful open returned, and which logs
  the directory can hold wherever a command is stopped.
\<close>

section \<open>Programs that only read\<close>

fun is_read :: "syscall \<Rightarrow> bool" where
  "is_read (Exists p) = True"
| "is_read (Is_file p) = True"
| "is_read (Stat p) = True"
| "is_read (Read_file p) = True"
| "is_read (Read_dir p) = True"
| "is_read (Println s) = True"
| "is_read (Eprintln s) = True"
| "is_read _ = False"

primrec read_only :: "'a prog \<Rightarrow> bool" where
  "read_only (Ret x) = True"
| "read_only (Call c k) = (is_read c \<and> (\<forall>r. read_only (k r)))"

lemma exec_read_sees: "is_read c \<Longrightarrow> sees w C D \<Longrightarrow> sees (snd (exec c w)) C D"
  by (cases c) (auto simp: exec_def sees_def split: choice.splits)

lemma read_only_always: "read_only p \<Longrightarrow> sees w C D \<Longrightarrow> always (\<lambda>v. sees v C D) p w"
  by (induction p arbitrary: w) (auto simp: exec_read_sees)

lemma always_end: "always I p w \<Longrightarrow> I (snd (run p w))"
  by (induction p arbitrary: w) auto

lemma read_only_run: "read_only p \<Longrightarrow> sees w C D \<Longrightarrow> run p w = (x, v) \<Longrightarrow> sees v C D"
  using always_end [OF read_only_always [of p w C D]] by simp

lemma read_only_pbind [intro!]: "read_only p \<Longrightarrow> (\<And>x. read_only (f x)) \<Longrightarrow> read_only (pbind p f)"
  by (induction p) auto

lemma read_only_rbind [intro!]: "read_only p \<Longrightarrow> (\<And>x. read_only (f x)) \<Longrightarrow> read_only (rbind p f)"
  unfolding rbind_def by (rule read_only_pbind) (auto split: result.splits)

lemma read_only_perr [intro!]: "read_only p \<Longrightarrow> read_only (perr g p)"
  unfolding perr_def by (rule read_only_pbind) auto

lemma read_only_calls [simp]:
  "read_only (fs_read p)" "read_only (fs_bool (Exists p))" "read_only (fs_bool (Is_file p))" "read_only (fs_read_dir p)"
  "read_only (fs_metadata p)" "read_only (println s)" "read_only (eprintln s)" "read_only (read_file p what)"
  by (auto simp: fs_defs read_file_def)

lemma read_only_print_lines [simp]: "read_only (print_lines ss)"
  by (induction ss) auto

lemma read_only_read_entries [simp]: "read_only (read_entries dbg dir ents is)"
  by (induction dbg dir ents "is" rule: read_entries.induct) (auto split: sum.splits)

lemma read_only_read_leaf_files [simp]: "read_only (read_leaf_files dir is)"
  by (induction "is") auto

lemma read_only_read_leaves [simp]: "read_only (read_leaves dbg dir)"
  by (auto simp: read_leaves_def Let_def)

lemma read_only_parse_state_file [simp]: "read_only (parse_state_file j dir p what)"
  by (auto simp: parse_state_file_def)

section \<open>What a successful read returned\<close>

lemma run_rbind_Ok:
  "run (rbind p f) w = (Ok x, v) \<longleftrightarrow> (\<exists>y u. run p w = (Ok y, u) \<and> run (f y) u = (Ok x, v))"
  by (auto simp: run_rbind split: prod.splits result.splits)

lemma run_perr_Ok: "run (perr g p) w = (Ok x, v) \<longleftrightarrow> run p w = (Ok x, v)"
  by (cases "run p w"; cases "fst (run p w)") (auto simp: run_perr)

lemma fs_read_Ok: "run (fs_read p) w = (Ok b, v) \<Longrightarrow> content w p = Some b"
  by (auto simp: fs_read_def exec_def content_def errno split: choice.splits option.splits entry.splits if_splits)

lemma read_file_Ok: "run (read_file p what) w = (Ok b, v) \<Longrightarrow> content w p = Some b"
  by (simp add: read_file_def run_perr_Ok fs_read_Ok)

lemma parse_state_file_Ok:
  "run (parse_state_file j dir p what) w = (Ok x, v) \<Longrightarrow> \<exists>b. content w p = Some b \<and> from_json j b = Inr x"
  by (auto simp: parse_state_file_def run_rbind_Ok dest!: read_file_Ok) (auto simp: of_sum_def split: sum.splits)

lemma fs_read_dir_Ok:
  "run (fs_read_dir d) w = (Ok ents, v) \<Longrightarrow> ents = map Inr (names_in w d) \<or> (\<exists>e. Inl e \<in> set ents)"
  by (auto simp: fs_read_dir_def exec_def errno names_in_def split: choice.splits if_splits)

lemma read_entries_Inl: "Inl e \<in> set ents \<Longrightarrow> run (read_entries dbg dir ents acc) w \<noteq> (Ok is, v)"
proof (induction dbg dir ents acc arbitrary: w rule: read_entries.induct)
  case (4 dbg dir name ents indices)
  then show ?case
    by (auto simp: run_pbind split: sum.splits prod.splits if_splits)
qed auto

lemma read_entries_Ok:
  assumes "run (read_entries dbg dir (map Inr ns) acc) w = (Ok is, v)"
    and "\<And>n. n \<in> set ns \<Longrightarrow> dot_name n \<or> (\<exists>i. n = Uni (leaf_name i))"
  shows "is = acc @ leaf_indices ns"
  using assms
proof (induction ns arbitrary: acc w)
  case (Cons n ns)
  show ?case
  proof (cases "dot_name n")
    case True
    then obtain s where "n = Uni s" "strip_prefix (lit ''.'') s \<noteq> None"
      by (auto simp: dot_name_def split: os_str.splits)
    with True Cons show ?thesis by simp
  next
    case False
    with Cons.prems(2) [of n] obtain i where i: "n = Uni (leaf_name i)" by auto
    have "str_len (leaf_name i) = LEAF_NAME_WIDTH"
      by (simp add: str_len_ascii [OF leaf_name_ascii] leaf_name_length LEAF_NAME_WIDTH_def)
    with i Cons.prems(1) obtain u where "run (read_entries dbg dir (map Inr ns) (acc @ [i])) u = (Ok is, v)"
      by (auto simp: leaf_name_no_dot leaf_name_digits parse_leaf_name run_pbind split: prod.splits if_splits)
    from Cons.IH [OF this] Cons.prems(2) i show ?thesis by simp
  qed
qed simp

lemma read_leaf_files_Ok:
  "run (read_leaf_files dir is) w = (Ok ls, v) \<Longrightarrow> sees w C D \<Longrightarrow> list_all2 (\<lambda>i l. C (leaf_path dir i) = Some l) is ls"
proof (induction "is" arbitrary: ls w)
  case (Cons i "is")
  then obtain l u ls' where l: "run (read_file (leaf_path dir i) (lit ''leaf file'')) w = (Ok l, u)"
    "run (read_leaf_files dir is) u = (Ok ls', v)" "ls = l # ls'"
    by (auto simp: run_rbind_Ok)
  moreover have "sees u C D" by (rule read_only_run [OF _ Cons.prems(2) l(1)]) simp
  ultimately show ?case
    using Cons.IH [OF l(2)] Cons.prems(2) read_file_Ok [OF l(1)] by (auto simp: sees_def)
qed simp

lemma read_leaves_Ok:
  assumes "run (read_leaves dbg dir) w = (Ok ms, v)" and "sees w C D" and "log_at env dir origin ls ps C D"
  shows "ms = ls"
proof -
  let ?ns = "names_in w (sub dir ''leaves'')"
  have l: "wf_fs w" "log_at env dir origin ls ps (content w) (is_dir w)"
    using assms(2,3) by (auto simp: sees_def)
  obtain ents u "is" x y where r: "run (fs_read_dir (sub dir ''leaves'')) w = (Ok ents, u)"
    "run (read_entries dbg dir ents []) u = (Ok is, x)" "run (read_leaf_files dir (sort is)) y = (Ok ms, v)" "y = x"
    using assms(1) by (auto simp: read_leaves_def Let_def run_rbind_Ok run_perr_Ok simp del: lit_simps)
  have s: "sees u C D" by (rule read_only_run [OF _ assms(2) r(1)]) simp
  have sx: "sees x C D" by (rule read_only_run [OF _ s r(2)]) simp
  have e: "ents = map Inr ?ns"
    using fs_read_dir_Ok [OF r(1)] read_entries_Inl r(2) by blast
  have "is = leaf_indices ?ns"
    using read_entries_Ok [of dbg dir ?ns "[]" u "is" x] r(2) log_atD(7) [OF l(2)]
    unfolding e names_in_set [folded path_join_def] by (simp, blast)
  with leaf_indices_log [OF l] have "sort is = map of_nat [0 ..< length ls]" by simp
  with read_leaf_files_Ok [OF r(3) sx [folded r(4)]]
  have "list_all2 (\<lambda>i l. C (leaf_path dir i) = Some l) (map of_nat [0 ..< length ls]) ms" by simp
  then have "length ms = length ls" and "i < length ls \<Longrightarrow> C (leaf_path dir (of_nat i)) = Some (ms ! i)" for i
    by (auto simp: list_all2_conv_all_nth)
  with log_atD(8) [OF assms(3)] show ?thesis
    by (intro nth_equalityI) simp_all
qed

section \<open>Opening, whatever fails\<close>

lemma always_read_pbind:
  assumes "read_only p" and "sees w C D" and "\<And>v. sees v C D \<Longrightarrow> I v"
    and "\<And>x v. run p w = (x, v) \<Longrightarrow> sees v C D \<Longrightarrow> always I (f x) v"
  shows "always I (pbind p f) w"
proof -
  obtain x v where x: "run p w = (x, v)" by (cases "run p w")
  have "always I p w" by (rule always_mono [OF read_only_always [OF assms(1,2)] assms(3)])
  then show ?thesis
    unfolding always_pbind x using assms(4) [OF x read_only_run [OF assms(1,2) x]] by simp
qed

lemma always_read_rbind:
  assumes "read_only p" and "sees w C D" and "\<And>v. sees v C D \<Longrightarrow> I v"
    and "\<And>x v. run p w = (Ok x, v) \<Longrightarrow> sees v C D \<Longrightarrow> always I (f x) v"
  shows "always I (rbind p f) w"
  unfolding rbind_def
  by (rule always_read_pbind [OF assms(1,2,3)]) (auto simp: assms split: result.splits)

lemma open_steps:
  assumes "sees w C D" and "run (store_open env dir) w = (Ok store, w')"
  obtains config state b b' root u v where
    "C (sub dir ''log.json'') = Some b" "from_json (env_config env) b = Inr config" "lc_format config = LOG_DIR_FORMAT"
    "C (sub dir ''state.json'') = Some b'" "from_json (env_state env) b' = Inr state"
    "decode_pinned_root (env_b64 env) dir (ls_root_hash state) = Ok root"
    "run (read_leaves (env_dbg env) dir) u = (Ok (st_leaves store), v)" "sees u C D" "sees v C D"
    "reconstruct_from_raw_leaves (env_ct env) (st_leaves store) = Ok (st_tree store)"
    "st_dir store = dir" "st_origin store = lc_origin config"
    "run (check_against_state env store (ls_tree_size state) root) v = (Ok (), w')"
proof -
  obtain e u0 where e: "run (fs_bool (Exists (sub dir ''log.json''))) w = (e, u0)" by (cases "run (fs_bool (Exists (sub dir ''log.json''))) w")
  have s0: "sees u0 C D" by (rule read_only_run [OF _ assms(1) e]) simp
  from assms(2) e obtain config u1 where 1: "run (parse_state_file (env_config env) dir (sub dir ''log.json'') (lit ''log.json'')) u0 = (Ok config, u1)"
    "lc_format config = LOG_DIR_FORMAT" and "run
          (rbind (parse_state_file (env_state env) dir (sub dir ''state.json'') (lit ''state.json'')) (\<lambda>state.
          rbind (Ret (decode_pinned_root (env_b64 env) dir (ls_root_hash state))) (\<lambda>pinned_root.
          rbind (read_leaves (env_dbg env) dir) (\<lambda>leaves.
          rbind (Ret (map_err Trust (reconstruct_from_raw_leaves (env_ct env) leaves))) (\<lambda>tree.
          rbind (check_against_state env \<lparr>st_dir = dir, st_origin = lc_origin config, st_leaves = leaves, st_tree = tree\<rparr>
            (ls_tree_size state) pinned_root) (\<lambda>_.
          Ret (Ok \<lparr>st_dir = dir, st_origin = lc_origin config, st_leaves = leaves, st_tree = tree\<rparr>))))))) u1 = (Ok store, w')"
    by (auto simp: store_open_def run_pbind run_rbind_Ok Let_def simp del: lit_simps split: if_splits)
  then obtain state u2 root leaves u3 tree where
    2: "run (parse_state_file (env_state env) dir (sub dir ''state.json'') (lit ''state.json'')) u1 = (Ok state, u2)"
    "decode_pinned_root (env_b64 env) dir (ls_root_hash state) = Ok root"
    "run (read_leaves (env_dbg env) dir) u2 = (Ok leaves, u3)"
    "reconstruct_from_raw_leaves (env_ct env) leaves = Ok tree"
    "run (check_against_state env \<lparr>st_dir = dir, st_origin = lc_origin config, st_leaves = leaves, st_tree = tree\<rparr>
            (ls_tree_size state) root) u3 = (Ok (), w')"
    "store = \<lparr>st_dir = dir, st_origin = lc_origin config, st_leaves = leaves, st_tree = tree\<rparr>"
    by (auto simp: run_rbind_Ok outcome simp del: lit_simps)
  have s1: "sees u1 C D" by (rule read_only_run [OF _ s0 1(1)]) simp
  have s2: "sees u2 C D" by (rule read_only_run [OF _ s1 2(1)]) simp
  have s3: "sees u3 C D" by (rule read_only_run [OF _ s2 2(3)]) simp
  obtain b b' where "C (sub dir ''log.json'') = Some b" "from_json (env_config env) b = Inr config"
    "C (sub dir ''state.json'') = Some b'" "from_json (env_state env) b' = Inr state"
    using parse_state_file_Ok [OF 1(1)] parse_state_file_Ok [OF 2(1)] s0 s1 by (auto simp: sees_def)
  then show thesis
    using 1(2) 2 s2 s3 by (intro that [of b config b' state root u2 u3]) simp_all
qed

abbreviation open_point ::
  "'t store_env \<Rightarrow> path \<Rightarrow> str \<Rightarrow> (path \<Rightarrow> bool) \<Rightarrow> bytes list \<Rightarrow> bytes list \<Rightarrow> world \<Rightarrow> bool" where
  "open_point env dir origin D ls ps v \<equiv>
     \<exists>C'. sees v C' D \<and> (log_at env dir origin ls ps C' D \<or> log_at env dir origin ls ls C' D)"

lemma check_sees:
  assumes "env_ok env" and "store_of env dir origin ls store" and "sees w C D" and "log_at env dir origin ls ps C D"
    and "ps = ls \<or> (\<exists>l. ls = ps @ [l])"
  shows "always (open_point env dir origin D ls ps) (check_against_state env store (of_nat (length ps)) (mth (env_sha env) ps)) w"
    and "run (check_against_state env store (of_nat (length ps)) (mth (env_sha env) ps)) w = (Ok (), v) \<Longrightarrow>
      \<exists>C'. sees v C' D \<and> log_at env dir origin ls ls C' D"
proof -
  let ?p = "check_against_state env store (of_nat (length ps)) (mth (env_sha env) ps)" and ?I = "open_point env dir origin D ls ps"
  have h: "tree_holds (env_ct env) ls (st_tree store)" using assms(2) by (simp add: store_of_def)
  have "always ?I ?p w \<and> (run ?p w = (Ok (), v) \<longrightarrow> (\<exists>C'. sees v C' D \<and> log_at env dir origin ls ls C' D))"
  proof (cases "ps = ls")
    case True
    with check_same [OF assms(1) h] assms(3,4) show ?thesis by auto
  next
    case False
    then obtain l where l: "ls = ps @ [l]" using assms(5) by blast
    let ?m = "lit ''recovered interrupted append: state advanced to '' @ dec64 (of_nat (length ls))"
    have p: "?p = rbind (write_state env dir (tree_root (env_ct env) (st_tree store))) (\<lambda>_. eprintln ?m)"
      using check_recovers [OF assms(1) assms(2) [unfolded l] log_atD(9) [OF assms(4), unfolded l]] l by simp
    note W = write_state_sees [OF assms(1) h assms(3,4)]
    obtain r x where r: "run (write_state env dir (tree_root (env_ct env) (st_tree store))) w = (r, x)"
      by (cases "run (write_state env dir (tree_root (env_ct env) (st_tree store))) w")
    show ?thesis
    proof (cases r)
      case (Ok u)
      with W r obtain C' where C': "sees x C' D" "log_at env dir origin ls ls C' D" by auto
      have "always ?I (eprintln ?m) x"
        by (rule always_mono [OF read_only_always [OF read_only_calls(7) C'(1)]]) (use C'(2) in blast)
      moreover have "run (eprintln ?m) x = (y, v) \<Longrightarrow> sees v C' D" for y :: "unit cli_result"
        by (rule read_only_run [OF read_only_calls(7) C'(1)])
      ultimately show ?thesis
        using W C' Ok r unfolding p always_rbind by (auto simp: run_rbind simp del: lit_simps)
    next
      case (Err e)
      with W r show ?thesis unfolding p always_rbind by (auto simp: run_rbind simp del: lit_simps)
    next
      case Panic
      with W r show ?thesis by simp
    qed
  qed
  then show "always ?I ?p w" and "run ?p w = (Ok (), v) \<Longrightarrow> \<exists>C'. sees v C' D \<and> log_at env dir origin ls ls C' D" by blast+
qed

theorem open_sees:
  assumes "env_ok env" and "sees w C D" and "log_at env dir origin ls ps C D" and "ps = ls \<or> (\<exists>l. ls = ps @ [l])"
  shows "always (open_point env dir origin D ls ps) (store_open env dir) w"
    and "run (store_open env dir) w = (Ok store, v) \<Longrightarrow>
      store_of env dir origin ls store \<and> (\<exists>C'. sees v C' D \<and> log_at env dir origin ls ls C' D)"
proof -
  note L = log_atD [OF assms(3)] and J = json_bytes(2) [OF env_okD(4) [OF assms(1)]] json_bytes(2) [OF env_okD(5) [OF assms(1)]]
  have I: "sees v C D \<Longrightarrow> open_point env dir origin D ls ps v" for v using assms(3) by blast
  have config: "config = \<lparr>lc_format = LOG_DIR_FORMAT, lc_origin = origin\<rparr>"
    if "run (parse_state_file (env_config env) dir (sub dir ''log.json'') (lit ''log.json'')) u = (Ok config, u')" "sees u C D" for config u u'
    using parse_state_file_Ok [OF that(1)] that(2) L(5) J(1) by (auto simp: sees_def)
  have state: "state = state_of env ps"
    if "run (parse_state_file (env_state env) dir (sub dir ''state.json'') (lit ''state.json'')) u = (Ok state, u')" "sees u C D" for state u u'
    using parse_state_file_Ok [OF that(1)] that(2) L(6) J(2) by (auto simp: sees_def)
  have store: "store_of env dir origin ls \<lparr>st_dir = dir, st_origin = origin, st_leaves = ms, st_tree = t\<rparr>"
    if "run (read_leaves (env_dbg env) dir) u = (Ok ms, u')" "sees u C D" "reconstruct_from_raw_leaves (env_ct env) ms = Ok t" for ms u u' t
    using read_leaves_Ok [OF that(1,2) assms(3)] reconstruct_raw_Ok [OF that(3)] by (simp add: store_of_def)
  have size: "ls_tree_size (state_of env ps) = of_nat (length ps)" by (simp add: state_of_def)
  let ?I = "open_point env dir origin D ls ps"
  let ?h = "\<lambda>config state pinned_root leaves.
          rbind (Ret (map_err Trust (reconstruct_from_raw_leaves (env_ct env) leaves))) (\<lambda>tree.
          rbind (check_against_state env \<lparr>st_dir = dir, st_origin = lc_origin config, st_leaves = leaves, st_tree = tree\<rparr>
            (ls_tree_size state) pinned_root) (\<lambda>_.
          Ret (Ok \<lparr>st_dir = dir, st_origin = lc_origin config, st_leaves = leaves, st_tree = tree\<rparr>)))"
  let ?g = "\<lambda>config state. rbind (Ret (decode_pinned_root (env_b64 env) dir (ls_root_hash state))) (\<lambda>pinned_root.
          rbind (read_leaves (env_dbg env) dir) (?h config state pinned_root))"
  let ?f = "\<lambda>config. if lc_format config \<noteq> LOG_DIR_FORMAT
        then Ret (Err (LogDirInvalid dir (lit ''log.json format is '' @ env_dbg env (lc_format config) @
          lit '', expected '' @ env_dbg env LOG_DIR_FORMAT)))
        else rbind (parse_state_file (env_state env) dir (sub dir ''state.json'') (lit ''state.json'')) (?g config)"
  show "always ?I (store_open env dir) w"
    unfolding store_open_def Let_def
  proof (rule always_read_pbind [OF _ assms(2) I], goal_cases)
    case (3 b u0)
    show ?case
    proof (cases b)
      case True
      have "always ?I (rbind (parse_state_file (env_config env) dir (sub dir ''log.json'') (lit ''log.json'')) ?f) u0"
      proof (rule always_read_rbind [OF _ 3(2) I], goal_cases)
        case c: (3 config u1)
        have "always ?I (rbind (parse_state_file (env_state env) dir (sub dir ''state.json'') (lit ''state.json'')) (?g config)) u1"
        proof (rule always_read_rbind [OF _ c(2) I], goal_cases)
          case s: (3 state u2)
          have "always ?I (rbind (read_leaves (env_dbg env) dir) (?h config state (mth (env_sha env) ps))) u2"
          proof (rule always_read_rbind [OF _ s(2) I], goal_cases)
            case l: (3 ms u3)
            show ?case
            proof (cases "reconstruct_from_raw_leaves (env_ct env) ms")
              case (Ok t)
              let ?s = "\<lparr>st_dir = dir, st_origin = origin, st_leaves = ms, st_tree = t\<rparr>"
              note K = check_sees [OF assms(1) store [OF l(1) s(2) Ok] l(2) assms(3,4)]
              show ?thesis
                using K Ok config [OF c(1) 3(2)] state [OF s(1) c(2)] size always_here [OF K(1)] always_end [OF K(1)]
                by (auto simp: rbind_def [of "Ret _"] always_rbind)
            qed (use I l(2) in \<open>auto simp: rbind_def [of "Ret _"]\<close>)
          qed auto
          then show ?case
            using state [OF s(1) c(2)] decode_pinned_root_of [OF assms(1), of dir ps] by (simp add: rbind_def [of "Ret _"])
        qed auto
        then show ?case using config [OF c(1) 3(2)] by simp
      qed auto
      with True show ?thesis by simp
    qed (use I 3 in auto)
  qed auto
  assume "run (store_open env dir) w = (Ok store, v)"
  then show "store_of env dir origin ls store \<and> (\<exists>C'. sees v C' D \<and> log_at env dir origin ls ls C' D)"
  proof (rule open_steps [OF assms(2)], goal_cases)
    case (1 config st b b' root x y)
    have c: "config = \<lparr>lc_format = LOG_DIR_FORMAT, lc_origin = origin\<rparr>" using 1 L(5) J(1) by auto
    have s: "st = state_of env ps" using 1 L(6) J(2) by auto
    have "root = mth (env_sha env) ps" using 1(6) decode_pinned_root_of [OF assms(1), of dir ps] s by simp
    moreover have o: "store_of env dir origin ls store"
      using read_leaves_Ok [OF 1(7,8) assms(3)] reconstruct_raw_Ok [OF 1(10)] 1(11,12) c by (simp add: store_of_def)
    ultimately show ?case
      using check_sees(2) [OF assms(1) o 1(9) assms(3,4), of v] 1(13) s size by simp
  qed
qed

end
