(* ===== verification/Reference_Json.thy ===== *)
theory Reference_Json
  imports Store_Model Tlog_Model Reference_Crates
begin

text \<open>
  A reader and a printer with the round trip that the program expects of its JSON crate, to
  instantiate the parameter: a list of texts, each a list of code points in unary.
\<close>

definition unary_char :: "nat \<Rightarrow> str" where
  "unary_char n = replicate n 49 @ [48]"

definition unary_text :: "str list \<Rightarrow> str" where
  "unary_text ts = concat (map (\<lambda>t. concat (map unary_char t) @ [50]) ts)"

text \<open>\<open>n\<close> counts the digits of the current code point, \<open>acc\<close> holds the current text.\<close>

fun unary_read :: "nat \<Rightarrow> str \<Rightarrow> bytes \<Rightarrow> str list option" where
  "unary_read n acc [] = None"
| "unary_read n acc (b # bs) =
     (if b = 49 then unary_read (Suc n) acc bs
      else if b = 48 then unary_read 0 (acc @ [n]) bs
      else if b = 50 then map_option ((#) acc) (unary_read 0 [] bs)
      else if b = 10 \<and> bs = [] \<and> n = 0 \<and> acc = [] then Some []
      else None)"

definition ref_json :: "('a \<Rightarrow> str list) \<Rightarrow> (str list \<Rightarrow> 'a option) \<Rightarrow> 'a json" where
  "ref_json pr rd = \<lparr>
     to_pretty = (\<lambda>x. Inr (unary_text (pr x))),
     from_json = (\<lambda>b. case Option.bind (unary_read 0 [] b) rd of Some x \<Rightarrow> Inr x | None \<Rightarrow> Inl (lit ''malformed''))\<rparr>"

lemma unary_read_digits: "unary_read n acc (replicate m 49 @ bs) = unary_read (n + m) acc bs"
  by (induction m arbitrary: n) simp_all

lemma unary_read_chars:
  "unary_read 0 acc (map byte_of (concat (map unary_char t)) @ bs) = unary_read 0 (acc @ t) bs"
  by (induction t arbitrary: acc) (simp_all add: unary_char_def unary_read_digits byte_of_def [of 48] byte_of_def [of 49])

lemma unary_read_text: "unary_read 0 [] (map byte_of (unary_text ts) @ [10]) = Some ts"
  by (induction ts) (simp_all add: unary_text_def unary_read_chars byte_of_def [of 50])

lemma unary_text_ascii: "list_all (\<lambda>c. c < 128) (unary_text ts)"
  by (auto simp: unary_text_def unary_char_def list_all_iff)

lemma ref_json_ok: "(\<And>x. rd (pr x) = Some x) \<Longrightarrow> json_ok (ref_json pr rd)"
  using unary_text_ascii unary_read_text
  by (simp add: json_ok_def ref_json_def utf8_encode_ascii utf8_char_def byte_of_def [of 10])

definition ref_config_json :: "log_config json" where
  "ref_config_json = ref_json (\<lambda>c. [lc_format c, lc_origin c])
     (\<lambda>ts. case ts of [f, g] \<Rightarrow> Some \<lparr>lc_format = f, lc_origin = g\<rparr> | _ \<Rightarrow> None)"

definition ref_state_json :: "log_state json" where
  "ref_state_json = ref_json (\<lambda>s. [[unat (ls_tree_size s)], ls_root_hash s])
     (\<lambda>ts. case ts of [[n], r] \<Rightarrow> Some \<lparr>ls_tree_size = of_nat n, ls_root_hash = r\<rparr> | _ \<Rightarrow> None)"

definition ref_inclusion_json :: "inclusion_artifact json" where
  "ref_inclusion_json = ref_json
     (\<lambda>a. [ia_format a, [unat (ia_tree_size a), unat (ia_leaf_index a)], ia_checkpoint a] @ ia_hashes a)
     (\<lambda>ts. case ts of f # [n, i] # c # hs \<Rightarrow> Some \<lparr>ia_format = f, ia_tree_size = of_nat n, ia_leaf_index = of_nat i,
        ia_hashes = hs, ia_checkpoint = c\<rparr> | _ \<Rightarrow> None)"

lemma ref_jsons_ok [simp]: "json_ok ref_config_json" "json_ok ref_state_json" "json_ok ref_inclusion_json"
  unfolding ref_config_json_def ref_state_json_def ref_inclusion_json_def by (rule ref_json_ok; simp)+

definition ref_env :: "bytes list store_env" where
  "ref_env = \<lparr>env_b64 = ref_b64, env_sha = ref_sha, env_ct = ref_ct ref_sha, env_config = ref_config_json,
     env_state = ref_state_json, env_dbg = id, env_overflow_checks = True\<rparr>"

end
