(* ===== verification/Store_Theorems.thy ===== *)
theory Store_Theorems
  imports Store_Sessions Key_Theorems Reference_Json "HOL-Library.Sublist"
begin

text \<open>
  Properties of the log directory: the commands implement an append-only list of leaves, a log
  survives being stopped anywhere, and an open accepts only what the pinned state allows.
\<close>

section \<open>Programs that print nothing on standard output\<close>

primrec silent :: "'a prog \<Rightarrow> bool" where
  "silent (Ret x) = True"
| "silent (Call c k) = ((\<forall>s. c \<noteq> Println s) \<and> (\<forall>r. silent (k r)))"

lemma make_dirs_stdout [simp]: "stdout (snd (make_dirs ps w)) = stdout w"
  by (subst make_dirs_frame) simp

lemma exec_stdout: "(\<And>s. c \<noteq> Println s) \<Longrightarrow> stdout (snd (exec c w)) = stdout w"
  by (cases c) (auto simp: exec_def open_write_def set_entry_def del_entry_def set_inode_def write_data_def pop_fault_def
    split: choice.splits option.splits entry.splits)

lemma silent_snd_run: "silent p \<Longrightarrow> stdout (snd (run p w)) = stdout w"
  by (induction p arbitrary: w) (auto simp: exec_stdout)

lemma silent_run: "silent p \<Longrightarrow> run p w = (x, v) \<Longrightarrow> stdout v = stdout w"
  using silent_snd_run [of p w] by simp

lemma silent_pbind [intro!]: "silent p \<Longrightarrow> (\<And>x. silent (f x)) \<Longrightarrow> silent (pbind p f)"
  by (induction p) auto

lemma silent_rbind [intro!]: "silent p \<Longrightarrow> (\<And>x. silent (f x)) \<Longrightarrow> silent (rbind p f)"
  unfolding rbind_def by (rule silent_pbind) (auto split: result.splits)

lemma silent_perr [intro!]: "silent p \<Longrightarrow> silent (perr g p)"
  unfolding perr_def by (rule silent_pbind) auto

lemma silent_calls [simp]:
  "silent (fs_unit (Rename p q))" "silent (fs_unit (Write_all i b))" "silent (fs_unit (Create_dir_all p))"
  "silent (fs_open n m p)" "silent (fs_bool (Exists p))"
  by (auto simp: fs_defs)

lemma silent_write_state [simp]: "silent (write_state env dir root)"
  by (auto simp: write_state_def write_file_def fs_write_def Let_def split: prod.splits)

lemma silent_store_init [simp]: "silent (store_init env dir origin)"
  by (auto simp: store_init_def write_file_def fs_write_def Let_def)

lemma silent_store_append [simp]: "silent (store_append env store l)"
  by (auto simp: store_append_def Let_def split: prod.splits)

section \<open>A log as an append-only list\<close>

definition log_in :: "'t store_env \<Rightarrow> path \<Rightarrow> str \<Rightarrow> bytes list \<Rightarrow> world \<Rightarrow> bool" where
  "log_in env dir origin ls w \<longleftrightarrow> (\<exists>C D. sees w C D \<and> log_at env dir origin ls ls C D)"

lemma open_pinned:
  assumes "env_ok env" and "calm w" and "log_in env dir origin ls w"
  obtains store where "run (store_open env dir) w = (Ok store, w)" and "store_of env dir origin ls store"
proof -
  obtain C D where cd: "sees w C D" "log_at env dir origin ls ls C D" using assms(3) by (auto simp: log_in_def)
  note L = log_atD [OF cd(2)]
  obtain t where t: "reconstruct_from_raw_leaves (env_ct env) ls = Ok t" "tree_holds (env_ct env) ls t"
    using reconstruct_raw_holds [OF env_okD(3) [OF assms(1)] L(9)] by auto
  let ?store = "\<lparr>st_dir = dir, st_origin = origin, st_leaves = ls, st_tree = t\<rparr>"
  have "run (store_open env dir) w = (Ok ?store, w)"
    using open_log_run [OF assms(1,2) cd t(1)] check_same [OF assms(1), of ls ?store] t(2) by (simp add: rbind_def)
  with t(2) that show thesis by (simp add: store_of_def)
qed

lemma store_root:
  assumes "env_ok env" and "store_of env dir origin ls store"
  shows "to_parts (tree_root (env_ct env) (st_tree store)) = (mth (env_sha env) ls, of_nat (length ls))"
  using tree_holds_root [OF env_okD(3) [OF assms(1)], of ls "st_tree store"] assms(2)
  by (simp add: store_of_def to_parts_def from_parts_def root_from_inner_def)

text \<open>The lines that the commands print about a log.\<close>

definition size_and_root :: "sha256 \<Rightarrow> bytes list \<Rightarrow> str list" where
  "size_and_root sha ls =
     [lit ''tree size: '' @ dec64 (of_nat (length ls)), lit ''root hash (sha256): '' @ cli_hex_lower (mth sha ls)]"

section \<open>Histories of appends that are stopped anywhere\<close>

definition append_session :: "'t store_env \<Rightarrow> path \<Rightarrow> bytes \<Rightarrow> ('t log_store \<times> u64 \<times> bytes) cli_result prog" where
  "append_session env dir l = rbind (store_open env dir) (\<lambda>store. store_append env store l)"

definition returned_ok :: "('e, 'a) result prog \<Rightarrow> bool" where
  "returned_ok p = (case p of Ret (Ok _) \<Rightarrow> True | _ \<Rightarrow> False)"

lemma returned_ok_iff: "returned_ok p \<longleftrightarrow> (\<exists>x. p = Ret (Ok x))"
  by (auto simp: returned_ok_def split: prog.splits result.splits)

text \<open>One session after another, each with failures of its own and stopped at any point; the flag
  says that the append returned its index.\<close>

inductive log_history :: "'t store_env \<Rightarrow> path \<Rightarrow> world \<Rightarrow> (bytes \<times> bool) list \<Rightarrow> world \<Rightarrow> bool"
  for env :: "'t store_env" and dir :: path and w :: world
where
  history_start: "log_history env dir w [] w"
| history_step: "log_history env dir w hs v \<Longrightarrow> reaches (append_session env dir l) (v\<lparr>faults := f\<rparr>) p u \<Longrightarrow>
    log_history env dir w (hs @ [(l, returned_ok p)]) u"

text \<open>The entries that a history may leave behind: all of a leaf whose append returned, nothing or a
  prefix of one whose append did not.\<close>

fun kept :: "(bytes \<times> bool) list \<Rightarrow> bytes list \<Rightarrow> bool" where
  "kept [] ks = (ks = [])"
| "kept ((l, True) # hs) ks = (\<exists>ks'. ks = l # ks' \<and> kept hs ks')"
| "kept ((l, False) # hs) ks = (kept hs ks \<or> (\<exists>k ks'. ks = k # ks' \<and> prefix k l \<and> kept hs ks'))"

lemma kept_snoc:
  "kept hs ks \<Longrightarrow> kept (hs @ [(l, True)]) (ks @ [l])"
  "kept hs ks \<Longrightarrow> kept (hs @ [(l, False)]) ks"
  "kept hs ks \<Longrightarrow> prefix k l \<Longrightarrow> kept (hs @ [(l, False)]) (ks @ [k])"
  by (induction hs ks rule: kept.induct) auto

lemma kept_length: "kept hs ks \<Longrightarrow> length ks \<le> length hs"
  by (induction hs ks rule: kept.induct) fastforce+

lemma reaches_Ret: "reaches p w (Ret x) v \<Longrightarrow> run p w = (x, v)"
  by (induction p w "Ret x" v rule: reaches.induct) auto

text \<open>The directory holds a log that the next open accepts.\<close>

definition resumable :: "'t store_env \<Rightarrow> path \<Rightarrow> str \<Rightarrow> bytes list \<Rightarrow> world \<Rightarrow> bool" where
  "resumable env dir origin ls w \<longleftrightarrow>
     (\<exists>C D ps. sees w C D \<and> log_at env dir origin ls ps C D \<and> (ps = ls \<or> (\<exists>l. ls = ps @ [l])))"

lemma resumable_faults [simp]: "resumable env dir origin ls (w\<lparr>faults := f\<rparr>) = resumable env dir origin ls w"
  by (simp add: resumable_def sees_def)

lemma log_in_resumable: "log_in env dir origin ls w \<Longrightarrow> resumable env dir origin ls w"
  unfolding log_in_def resumable_def by blast

lemma append_states_cases:
  assumes "(ms, ps) \<in> append_states ls l"
  shows "(ps = ms \<or> (\<exists>k. ms = ps @ [k])) \<and> (ms = ls \<or> (\<exists>k. prefix k l \<and> ms = ls @ [k]))"
proof -
  have "prefix (take j l) l" for j by (rule take_is_prefix)
  with assms show ?thesis by (auto simp: append_states_def)
qed

lemma session_step:
  assumes "env_ok env" and "resumable env dir origin ls w" and "length ls < ct_max_leaves"
    and "reaches (append_session env dir l) w p v"
  shows "resumable env dir origin ls v \<and> (\<forall>x. p \<noteq> Ret (Ok x)) \<or>
    (\<exists>k. prefix k l \<and> resumable env dir origin (ls @ [k]) v \<and> ((\<exists>x. p = Ret (Ok x)) \<longrightarrow> k = l))"
proof -
  obtain C D ps where cd: "sees w C D" "log_at env dir origin ls ps C D" "ps = ls \<or> (\<exists>k. ls = ps @ [k])"
    using assms(2) by (auto simp: resumable_def)
  let ?I = "\<lambda>v. \<exists>k. resumable env dir origin ls v \<or> (prefix k l \<and> resumable env dir origin (ls @ [k]) v)"
  note O = open_sees [OF assms(1) cd]
  have op: "open_point env dir origin D ls ps v \<Longrightarrow> resumable env dir origin ls v" for v
    using cd(3) unfolding resumable_def by blast
  have ap: "append_point env dir origin D ls l v \<Longrightarrow> ?I v" for v
  proof -
    assume "append_point env dir origin D ls l v"
    then obtain C' ms qs where "sees v C' D" "log_at env dir origin ms qs C' D" "(ms, qs) \<in> append_states ls l" by blast
    with append_states_cases [OF this(3)] show ?thesis unfolding resumable_def by blast
  qed
  have always: "always ?I (append_session env dir l) w"
    unfolding append_session_def always_rbind
  proof (intro conjI allI impI)
    show "always ?I (store_open env dir) w"
      by (rule always_mono [OF O(1)]) (use op in blast)
    fix store
    assume s: "fst (run (store_open env dir) w) = Ok store"
    from O(2) [of store "snd (run (store_open env dir) w)"] s obtain C' where
      "store_of env dir origin ls store" "sees (snd (run (store_open env dir) w)) C' D" "log_at env dir origin ls ls C' D"
      by (metis prod.collapse)
    note A = append_sees [OF assms(1) this(1) assms(3) this(2,3), of l]
    show "always ?I (store_append env store l) (snd (run (store_open env dir) w))"
      by (rule always_mono [OF conjunct1 [OF A] ap])
  qed
  show ?thesis
  proof (cases "\<exists>x. p = Ret (Ok x)")
    case False
    then show ?thesis using always_reaches [OF assms(4) always] by blast
  next
    case True
    then obtain x where x: "p = Ret (Ok x)" by blast
    from reaches_Ret [OF assms(4) [unfolded x]] obtain store u where s: "run (store_open env dir) w = (Ok store, u)" "run (store_append env store l) u = (Ok x, v)"
      by (auto simp: append_session_def run_rbind_Ok)
    from O(2) [OF s(1)] obtain C' where "store_of env dir origin ls store" "sees u C' D" "log_at env dir origin ls ls C' D" by blast
    from append_sees [OF assms(1) this(1) assms(3) this(2,3), of l] s(2)
    have "resumable env dir origin (ls @ [l]) v"
      by (auto simp: append_done_def resumable_def split: prod.splits)
    then show ?thesis by blast
  qed
qed

lemma history_resumable:
  assumes "env_ok env" and "resumable env dir origin ls w" and "log_history env dir w hs v" and "length ls + length hs \<le> ct_max_leaves"
  shows "\<exists>ks. kept hs ks \<and> resumable env dir origin (ls @ ks) v"
  using assms(3,4)
proof (induction rule: log_history.induct)
  case history_start
  then show ?case using assms(2) by simp
next
  case (history_step hs v l f p u)
  then obtain ks where ks: "kept hs ks" "resumable env dir origin (ls @ ks) v" by auto
  have n: "length (ls @ ks) < ct_max_leaves"
    using kept_length [OF ks(1)] history_step.prems by simp
  have "resumable env dir origin (ls @ ks) (v\<lparr>faults := f\<rparr>)" using ks(2) by simp
  from session_step [OF assms(1) this n history_step.hyps(2)]
  consider "resumable env dir origin (ls @ ks) u" "\<not> returned_ok p"
    | k where "prefix k l" "resumable env dir origin (ls @ ks @ [k]) u" "returned_ok p \<longrightarrow> k = l"
    unfolding returned_ok_iff append_assoc by blast
  then show ?case
  proof cases
    case 1
    then show ?thesis using kept_snoc(2) [OF ks(1), of l] by auto
  next
    case 2
    have "kept (hs @ [(l, returned_ok p)]) (ks @ [k])"
      using 2 kept_snoc(1,3) [OF ks(1)] by (cases "returned_ok p") simp_all
    with 2 show ?thesis by blast
  qed
qed

section \<open>What an accepted directory holds\<close>

lemma check_contiguous_Ok:
  "check_contiguous dir (of_nat k) is = Ok () \<Longrightarrow> is = map of_nat [k ..< k + length is]"
proof (induction "is" arbitrary: k)
  case (Cons i "is")
  then have i: "i = of_nat k" and "check_contiguous dir (of_nat (Suc k)) is = Ok ()"
    by (auto simp: add.commute split: if_splits)
  from Cons.IH [OF this(2)] have "is = map of_nat [Suc k ..< Suc k + length is]" .
  with i show ?case by (simp add: upt_conv_Cons del: upt_Suc)
qed simp

lemma read_leaves_files:
  assumes "run (read_leaves dbg dir) w = (Ok ms, v)" and "sees w C D" and "i < length ms"
  shows "C (leaf_path dir (of_nat i)) = Some (ms ! i)"
proof -
  obtain ents u "is" x where r: "run (fs_read_dir (sub dir ''leaves'')) w = (Ok ents, u)"
    "run (read_entries dbg dir ents []) u = (Ok is, x)" "check_contiguous dir 0 (sort is) = Ok ()"
    "run (read_leaf_files dir (sort is)) x = (Ok ms, v)"
    using assms(1) by (auto simp: read_leaves_def Let_def run_rbind_Ok run_perr_Ok simp del: lit_simps)
  have "sees u C D" by (rule read_only_run [OF _ assms(2) r(1)]) simp
  then have "sees x C D" by (rule read_only_run [OF _ _ r(2), rotated]) simp
  from read_leaf_files_Ok [OF r(4) this] check_contiguous_Ok [of dir 0 "sort is"] r(3)
  have "list_all2 (\<lambda>i l. C (leaf_path dir i) = Some l) (map of_nat [0 ..< length is]) ms" by simp
  with assms(3) show ?thesis by (auto simp: list_all2_conv_all_nth)
qed

lemma check_Ok:
  assumes "env_ok env" and "tree_holds (env_ct env) (st_leaves store) (st_tree store)" and "length ps \<le> ct_max_leaves"
    and "run (check_against_state env store (of_nat (length ps)) (mth (env_sha env) ps)) w = (Ok (), v)"
  shows "mth (env_sha env) (take (length ps) (st_leaves store)) = mth (env_sha env) ps \<and>
    (length (st_leaves store) = length ps \<or> length (st_leaves store) = Suc (length ps))"
proof -
  let ?ms = "st_leaves store" and ?sha = "env_sha env"
  note T = env_okD(3) [OF assms(1)]
  have root: "to_parts (tree_root (env_ct env) (st_tree store)) = (mth ?sha ?ms, of_nat (length ?ms))"
    using tree_holds_root [OF T assms(2)] by (simp add: to_parts_def from_parts_def root_from_inner_def)
  note len = tree_holds_length [OF T assms(2)]
  have pl: "unat (of_nat (length ps) :: u64) = length ps" by (rule unat_small [OF assms(3)])
  have sl: "unat (of_nat (Suc (length ps)) :: u64) = Suc (length ps)"
    using assms(3) by (subst unat_of_nat) (simp add: ct_max_leaves_def)
  show ?thesis
  proof (cases "of_nat (length ?ms) = (of_nat (length ps) :: u64) \<and> mth ?sha ?ms = mth ?sha ps")
    case True
    then have "length ?ms = length ps" using len(2) pl by metis
    with True show ?thesis by simp
  next
    case False
    then obtain n pre where n: "succ_u64 (env_overflow_checks env) (of_nat (length ps)) = (Ok n :: u64 cli_result)"
      "of_nat (length ?ms) = n" "prefix_tree env store (of_nat (length ps)) = Ok pre"
      "fst (to_parts (tree_root (env_ct env) pre)) = mth ?sha ps"
      using assms(4) root
      by (simp add: check_against_state_def Let_def run_rbind_Ok case_prod_beta del: lit_simps split: if_splits)
    have "n = of_nat (Suc (length ps))" using n(1) by (auto simp: succ_u64_def add.commute split: if_splits)
    with n(2) have l: "length ?ms = Suc (length ps)" using len(2) sl by metis
    from n(3) l pl have "reconstruct_from_raw_leaves (env_ct env) (take (length ps) ?ms) = Ok pre"
      by (auto simp: prefix_tree_def slice_to_def outcome usize_try_from_def split: if_splits)
    from tree_holds_root [OF T reconstruct_raw_Ok [OF this]] n(4) l show ?thesis
      by (simp add: to_parts_def from_parts_def root_from_inner_def)
  qed
qed

section \<open>A write that stops half-way\<close>

lemma exec_open_run:
  assumes "sees w C D" and "D d" and "\<not> D (path_join d n)" and "C (path_join d n) = None" and "faults w 0 = Run"
  shows "\<exists>i v. exec (Open_write True m (path_join d n)) w = (R_handle i, v) \<and> lookup v (path_join d n) = Some (File i) \<and>
    sees v (C(path_join d n \<mapsto> [])) D \<and> faults v = faults (pop_fault w)"
proof -
  have "wf_fs (pop_fault w)" "is_dir (pop_fault w) d" "\<not> is_dir (pop_fault w) (d @ [Normal n])"
    "True \<longrightarrow> content (pop_fault w) (d @ [Normal n]) = None"
    using assms(1-4) by (auto simp: sees_def path_join_def)
  from open_write_view [OF this, of m] obtain i v where
    "open_write True m (d @ [Normal n]) (pop_fault w) = (R_handle i, v)" "lookup v (d @ [Normal n]) = Some (File i)"
    "content v = (content (pop_fault w))(d @ [Normal n] \<mapsto> [])" "is_dir v = is_dir (pop_fault w)" "wf_fs v"
    "faults v = faults (pop_fault w)" by metis
  then show ?thesis
    using assms(1,5) by (auto simp: exec_def sees_def path_join_def)
qed

lemma torn_append:
  assumes "env_ok env" and "store_of env dir origin ls store" and "length ls < ct_max_leaves"
    and "sees w C D" and "log_at env dir origin ls ls C D"
  shows "\<exists>msg v. run (store_append env store l) (w\<lparr>faults := (\<lambda>_. Run)(1 := Fail e j)\<rparr>) = (Err (Io msg e), v) \<and>
    sees v (C(leaf_path dir (of_nat (length ls)) \<mapsto> take j l)) D"
proof -
  let ?w = "w\<lparr>faults := (\<lambda>_. Run)(1 := Fail e j)\<rparr>" and ?p = "leaf_path dir (of_nat (length ls))"
  have s: "sees ?w C D" using assms(4) by (simp add: sees_def)
  have d: "D (sub dir ''leaves'')" using log_atD(2) [OF assms(5)] .
  obtain i v where o: "exec (Open_write True 438 ?p) ?w = (R_handle i, v)" "lookup v ?p = Some (File i)"
    "sees v (C(?p \<mapsto> [])) D" "faults v = faults (pop_fault ?w)"
    using exec_open_run [OF s d next_leaf_free(2,1) [OF assms(5,3), unfolded leaf_path_def], of 438]
    unfolding leaf_path_def [symmetric] by auto
  have f: "faults v 0 = Fail e j" using o(4) by (simp add: pop_fault_def)
  have "sees (write_data i (take j l) (pop_fault v)) (C(?p \<mapsto> take j l)) D"
    using write_data_view [of "pop_fault v" ?p i "take j l"] o(2,3) by (auto simp: sees_def)
  moreover have "exec (Write_all i l) v = (R_err e, write_data i (take j l) (pop_fault v))"
    using f by (simp add: exec_def)
  moreover obtain t' where "store_append env store l =
      (let p = ?p in
       rbind (perr (\<lambda>source. Io (lit ''failed to create leaf file '' @ display_path p) source) (fs_open True 438 p)) (\<lambda>file.
       rbind (perr (\<lambda>source. Io (lit ''failed to write leaf file '' @ display_path p) source) (fs_unit (Write_all file l))) (\<lambda>_.
       rbind (write_state env dir (tree_root (env_ct env) t')) (\<lambda>_.
       Ret (Ok (store\<lparr>st_tree := t', st_leaves := ls @ [l]\<rparr>, of_nat (length ls), raw_leaf_hash (env_sha env) l))))))"
    by (rule store_append_unfold [OF assms(1-3)])
  ultimately show ?thesis
    using o(1) by (simp add: Let_def run_rbind run_perr fs_open_def fs_unit_def del: lit_simps fun_upd_apply)
qed

section \<open>Properties\<close>

text \<open>A log directory on an empty file system, to apply the properties to.\<close>

abbreviation w_dir :: path where
  "w_dir \<equiv> [Normal (Uni (lit ''log''))]"

lemma ref_env_ok [simp]: "env_ok ref_env"
  by (simp add: env_ok_def ref_env_def ref_b64_standard)

lemma w_world_facts: "calm w_world" "wf_fs w_world" "vacant w_world w_dir"
  by (auto simp: w_world_def calm_def wf_fs_def vacant_def)

lemma w_origin_ok: "is_ok (from_root w_origin (tree_root (env_ct ref_env) (tree_new (env_ct ref_env))))"
  by (simp add: from_root_def checkpoint_new_def split: prod.splits)

lemma w_log: obtains w where "calm w" and "log_in ref_env w_dir w_origin [] w"
  using init_sees [OF ref_env_ok _ w_world_facts(1,2,3)] w_origin_ok unfolding is_ok_iff log_in_def by metis

lemma append_log_in:
  assumes "env_ok env" and "calm w" and "log_in env dir origin ls w" and "length ls < ct_max_leaves"
  obtains v where "calm v" and "log_in env dir origin (ls @ [l]) v"
proof -
  obtain C D where cd: "sees w C D" "log_at env dir origin ls ls C D" using assms(3) by (auto simp: log_in_def)
  obtain store where "store_of env dir origin ls store" by (rule open_pinned [OF assms(1-3)])
  from append_sees [OF assms(1) this assms(4) cd, of l] assms(2) that show thesis
    by (cases "run (store_append env store l) w"; cases "fst (run (store_append env store l) w)") (auto simp: append_done_def log_in_def)
qed

lemma w_log1: obtains w where "calm w" and "log_in ref_env w_dir w_origin [[1]] w"
proof -
  obtain w where w: "calm w" "log_in ref_env w_dir w_origin [] w" by (rule w_log)
  have "length ([] :: bytes list) < ct_max_leaves" by (simp add: ct_max_leaves_def)
  from append_log_in [OF ref_env_ok w this, of "[1]"] that show thesis by auto
qed

text \<open>C27 (a log directory is an append-only list): in a world where no call fails, \<^verbatim>\<open>lys log init\<close> in a vacant
  place makes the empty log, and \<^verbatim>\<open>lys log append\<close> on the log \<open>ls\<close> makes the log \<open>ls @ [l]\<close> for the bytes \<open>l\<close> of the leaf
  file. Both report the size and the RFC 6962 root of the new list.\<close>

theorem log_refines_list:
  assumes "env_ok env" and "calm w"
  shows "(wf_fs w \<and> vacant w dir \<and> is_ok (from_root origin (tree_root (env_ct env) (tree_new (env_ct env)))) \<longrightarrow>
      (\<exists>w'. run (log_init env dir origin) w = (Ok (), w') \<and> calm w' \<and> log_in env dir origin [] w' \<and>
        stdout w' = stdout w @
          [lit ''initialized log directory: '' @ display_path dir, lit ''origin: '' @ origin] @ size_and_root (env_sha env) [])) \<and>
    (log_in env dir origin ls w \<and> length ls < ct_max_leaves \<and> content w leaf = Some l \<longrightarrow>
      (\<exists>w'. run (log_append env dir leaf) w = (Ok (), w') \<and> calm w' \<and> log_in env dir origin (ls @ [l]) w' \<and>
        stdout w' = stdout w @
          [lit ''leaf index: '' @ dec64 (of_nat (length ls)),
           lit ''leaf hash (sha256, rfc6962): '' @ cli_hex_lower (leaf_hash (env_sha env) l)] @
          size_and_root (env_sha env) (ls @ [l])))"
proof (intro conjI impI; elim conjE)
  assume a: "wf_fs w" "vacant w dir" "is_ok (from_root origin (tree_root (env_ct env) (tree_new (env_ct env))))"
  then obtain v C D where v: "run (store_init env dir origin) w = (Ok (), v)" "sees v C D" "log_at env dir origin [] [] C D" "calm v"
    using init_sees [OF assms(1) _ assms(2)] unfolding is_ok_iff by metis
  have "tree_root (env_ct env) (tree_new (env_ct env)) = from_parts (mth (env_sha env) []) 0"
    using tree_holds_root [OF env_okD(3) [OF assms(1)] tree_holds_new] by simp
  then show "\<exists>w'. run (log_init env dir origin) w = (Ok (), w') \<and> calm w' \<and> log_in env dir origin [] w' \<and>
        stdout w' = stdout w @
          [lit ''initialized log directory: '' @ display_path dir, lit ''origin: '' @ origin] @ size_and_root (env_sha env) []"
    using v silent_run [OF _ v(1)] run_print_lines [OF v(4)]
    by (auto simp: log_init_def run_rbind to_parts_def from_parts_def root_from_inner_def log_in_def sees_def calm_def size_and_root_def
        simp del: lit_simps print_lines.simps)
next
  assume a: "log_in env dir origin ls w" "length ls < ct_max_leaves" "content w leaf = Some l"
  obtain store where s: "run (store_open env dir) w = (Ok store, w)" "store_of env dir origin ls store"
    by (rule open_pinned [OF assms a(1)])
  obtain C D where cd: "sees w C D" "log_at env dir origin ls ls C D" using a(1) by (auto simp: log_in_def)
  obtain r v where r: "run (store_append env store l) w = (r, v)" by (cases "run (store_append env store l) w")
  with append_sees [OF assms(1) s(2) a(2) cd, of l] assms(2) obtain store' C' where
    p: "r = Ok (store', of_nat (length ls), raw_leaf_hash (env_sha env) l)" "store_of env dir origin (ls @ [l]) store'"
    "sees v C' D" "log_at env dir origin (ls @ [l]) (ls @ [l]) C' D" "calm v"
    by (cases r) (auto simp: append_done_def)
  from store_root [OF assms(1) p(2)] show "\<exists>w'. run (log_append env dir leaf) w = (Ok (), w') \<and> calm w' \<and> log_in env dir origin (ls @ [l]) w' \<and>
        stdout w' = stdout w @
          [lit ''leaf index: '' @ dec64 (of_nat (length ls)),
           lit ''leaf hash (sha256, rfc6962): '' @ cli_hex_lower (leaf_hash (env_sha env) l)] @
          size_and_root (env_sha env) (ls @ [l])"
    using s(1) r p run_fs_read [OF assms(2) a(3)] silent_run [OF _ r] run_print_lines [OF p(5)]
    by (auto simp: log_append_def run_rbind run_perr read_file_def log_in_def sees_def calm_def size_and_root_def raw_leaf_hash_def leaf_hash_def
        simp del: lit_simps of_nat_Suc print_lines.simps)
qed

theorem log_refines_list_witness:
  "\<exists>w' v v' l. run (log_init ref_env w_dir w_origin) w_world = (Ok (), w') \<and> log_in ref_env w_dir w_origin [] w' \<and>
     content v (sub w_dir ''log.json'') = Some l \<and>
     run (log_append ref_env w_dir (sub w_dir ''log.json'')) v = (Ok (), v') \<and> log_in ref_env w_dir w_origin [l] v'"
proof -
  obtain w' where "run (log_init ref_env w_dir w_origin) w_world = (Ok (), w')" "log_in ref_env w_dir w_origin [] w'"
    using log_refines_list [OF ref_env_ok w_world_facts(1), of w_dir w_origin] w_world_facts(2,3) w_origin_ok by blast
  moreover obtain v where v: "calm v" "log_in ref_env w_dir w_origin [] v" by (rule w_log)
  then obtain l where l: "content v (sub w_dir ''log.json'') = Some l"
    unfolding log_in_def sees_def by (metis log_atD(5))
  moreover obtain v' where "run (log_append ref_env w_dir (sub w_dir ''log.json'')) v = (Ok (), v')" "log_in ref_env w_dir w_origin [l] v'"
    using log_refines_list [OF ref_env_ok v(1), of w_dir w_origin "[]"] v(2) l by (auto simp: ct_max_leaves_def)
  ultimately show ?thesis by blast
qed

text \<open>C28 (a log survives being stopped): let any number of sessions, each an open followed by an append, run
  one after another on a log of \<open>ls\<close>, with any failures of system calls, each stopped at any point. Then the
  next open succeeds and finds \<open>ls\<close>, the whole leaf of every append that returned, and of the others
  nothing or a prefix, in order.\<close>

theorem log_survives_crashes:
  assumes "env_ok env" and "log_in env dir origin ls w" and "log_history env dir w hs v" and "length ls + length hs \<le> ct_max_leaves"
  shows "\<exists>ks store v'. kept hs ks \<and> run (store_open env dir) (v\<lparr>faults := \<lambda>_. Run\<rparr>) = (Ok store, v') \<and>
    store_of env dir origin (ls @ ks) store \<and> log_in env dir origin (ls @ ks) v'"
proof -
  obtain ks where ks: "kept hs ks" "resumable env dir origin (ls @ ks) (v\<lparr>faults := \<lambda>_. Run\<rparr>)"
    using history_resumable [OF assms(1) log_in_resumable [OF assms(2)] assms(3,4)] by auto
  then obtain C D ps where "sees (v\<lparr>faults := \<lambda>_. Run\<rparr>) C D" "log_at env dir origin (ls @ ks) ps C D"
    "ps = ls @ ks \<or> (\<exists>l. ls @ ks = ps @ [l])"
    unfolding resumable_def by blast
  moreover have "calm (v\<lparr>faults := \<lambda>_. Run\<rparr>)" by (simp add: calm_def)
  ultimately have "\<exists>store v' C'. run (store_open env dir) (v\<lparr>faults := \<lambda>_. Run\<rparr>) = (Ok store, v') \<and>
      store_of env dir origin (ls @ ks) store \<and> sees v' C' D \<and> log_at env dir origin (ls @ ks) (ls @ ks) C' D \<and> calm v'"
    by (intro open_log [OF assms(1)])
  then show ?thesis using ks(1) unfolding log_in_def by blast
qed

theorem log_survives_crashes_witness:
  "\<exists>w v ks store v'. log_in ref_env w_dir w_origin [] w \<and> log_history ref_env w_dir w [([1, 2], False)] v \<and>
     kept [([1, 2], False)] ks \<and> run (store_open ref_env w_dir) (v\<lparr>faults := \<lambda>_. Run\<rparr>) = (Ok store, v') \<and>
     store_of ref_env w_dir w_origin ks store"
proof -
  obtain w where w: "log_in ref_env w_dir w_origin [] w" by (rule w_log)
  obtain c k where p: "append_session ref_env w_dir [1, 2] = Call c k"
    by (auto simp: append_session_def store_open_def fs_bool_def rbind_def Let_def)
  from history_step [OF history_start reaches_refl, of ref_env w_dir w "[1, 2]"]
  have h: "log_history ref_env w_dir w [([1, 2], False)] (w\<lparr>faults := \<lambda>_. Run\<rparr>)"
    unfolding p returned_ok_def by simp
  have n: "length ([] :: bytes list) + length [([1, 2] :: bytes, False)] \<le> ct_max_leaves" by (simp add: ct_max_leaves_def)
  from log_survives_crashes [OF ref_env_ok w h n] w h show ?thesis unfolding append_Nil by blast
qed

text \<open>C29 (tamper evidence of a log directory): if the state file pins the leaves \<open>ps\<close>, then whatever else the
  directory holds and whatever calls fail, an open that succeeds returns the bytes of the leaf files,
  and these are \<open>ps\<close>, or \<open>ps\<close> and one more leaf, unless SHA-256 collides on the strings hashed.\<close>

theorem open_tamper_evident:
  assumes "env_ok env" and "wf_fs w" and "length ps \<le> ct_max_leaves"
    and "content w (sub dir ''state.json'') = Some (json_bytes (env_state env) (state_of env ps))"
    and "run (store_open env dir) w = (Ok store, v)"
    and "collision_free (env_sha env) (set (mth_inputs (env_sha env) (take (length ps) (st_leaves store))) \<union>
      set (mth_inputs (env_sha env) ps))"
  shows "(st_leaves store = ps \<or> (\<exists>l. st_leaves store = ps @ [l])) \<and>
    (\<forall>i < length (st_leaves store). content w (leaf_path dir (of_nat i)) = Some (st_leaves store ! i))"
proof -
  have s: "sees w (content w) (is_dir w)" using assms(2) by (simp add: sees_def)
  show ?thesis
  proof (rule open_steps [OF s assms(5)], goal_cases)
    case (1 config st b b' root x y)
    have st: "st = state_of env ps"
      using 1(4,5) assms(4) json_bytes(2) [OF env_okD(5) [OF assms(1)]] by simp
    have "root = mth (env_sha env) ps"
      using 1(6) decode_pinned_root_of [OF assms(1), of dir ps] st by simp
    with 1(13) st have "run (check_against_state env store (of_nat (length ps)) (mth (env_sha env) ps)) y = (Ok (), v)"
      by (simp add: state_of_def)
    note c = check_Ok [OF assms(1) reconstruct_raw_Ok [OF 1(10)] assms(3) this]
    have t: "take (length ps) (st_leaves store) = ps"
      by (rule mth_inj [OF env_okD(2) [OF assms(1)] _ _ assms(6)]) (use c in auto)
    have "st_leaves store = ps @ drop (length ps) (st_leaves store)"
      using append_take_drop_id [of "length ps" "st_leaves store"] t by simp
    moreover have "length (drop (length ps) (st_leaves store)) \<le> 1" using c by auto
    ultimately have "st_leaves store = ps \<or> (\<exists>l. st_leaves store = ps @ [l])"
      by (cases "drop (length ps) (st_leaves store)") auto
    with read_leaves_files [OF 1(7,8)] show ?case by blast
  qed
qed

theorem open_tamper_evident_witness:
  "\<exists>w store v. run (store_open ref_env w_dir) w = (Ok store, v) \<and>
     (st_leaves store = [[1]] \<or> (\<exists>l. st_leaves store = [[1]] @ [l]))"
proof -
  obtain w where w: "calm w" "log_in ref_env w_dir w_origin [[1]] w" by (rule w_log1)
  then obtain store where s: "run (store_open ref_env w_dir) w = (Ok store, w)" "store_of ref_env w_dir w_origin [[1]] store"
    by (rule open_pinned [OF ref_env_ok])
  from w(2) obtain C D where "sees w C D" "log_at ref_env w_dir w_origin [[1]] [[1]] C D" by (auto simp: log_in_def)
  then have "wf_fs w" "content w (sub w_dir ''state.json'') = Some (json_bytes (env_state ref_env) (state_of ref_env [[1]]))"
    using log_atD(6) by (auto simp: sees_def)
  moreover have "length [[1] :: bytes] \<le> ct_max_leaves" by (simp add: ct_max_leaves_def)
  moreover have "collision_free (env_sha ref_env) (set (mth_inputs (env_sha ref_env) (take (length [[1] :: bytes]) (st_leaves store))) \<union>
      set (mth_inputs (env_sha ref_env) [[1]]))"
    using s(2) by (simp add: store_of_def mth_inputs.simps)
  ultimately show ?thesis using open_tamper_evident [OF ref_env_ok _ _ _ s(1)] s(1) by blast
qed

text \<open>C30 (a torn leaf is adopted): when the write of a leaf file fails after \<open>j\<close> bytes, the append reports the
  error, and the next open completes the append with the truncated leaf.\<close>

theorem torn_leaf_adopted:
  assumes "env_ok env" and "log_in env dir origin ls w" and "length ls < ct_max_leaves" and "store_of env dir origin ls store"
  shows "\<exists>msg v store' v'. run (store_append env store l) (w\<lparr>faults := (\<lambda>_. Run)(1 := Fail e j)\<rparr>) = (Err (Io msg e), v) \<and>
    run (store_open env dir) (v\<lparr>faults := \<lambda>_. Run\<rparr>) = (Ok store', v') \<and> st_leaves store' = ls @ [take j l] \<and>
    log_in env dir origin (ls @ [take j l]) v'"
proof -
  obtain C D where cd: "sees w C D" "log_at env dir origin ls ls C D" using assms(2) by (auto simp: log_in_def)
  let ?C = "C(leaf_path dir (of_nat (length ls)) \<mapsto> take j l)"
  obtain msg v where v: "run (store_append env store l) (w\<lparr>faults := (\<lambda>_. Run)(1 := Fail e j)\<rparr>) = (Err (Io msg e), v)"
    "sees v ?C D"
    using torn_append [OF assms(1,4,3) cd] by blast
  have "sees (v\<lparr>faults := \<lambda>_. Run\<rparr>) ?C D" "calm (v\<lparr>faults := \<lambda>_. Run\<rparr>)" using v(2) by (simp_all add: sees_def calm_def)
  moreover have "log_at env dir origin (ls @ [take j l]) ls ?C D" by (rule log_at_leaf [OF cd(2) assms(3)])
  ultimately have "\<exists>store' v' C'. run (store_open env dir) (v\<lparr>faults := \<lambda>_. Run\<rparr>) = (Ok store', v') \<and>
      store_of env dir origin (ls @ [take j l]) store' \<and> sees v' C' D \<and>
      log_at env dir origin (ls @ [take j l]) (ls @ [take j l]) C' D \<and> calm v'"
    by (intro open_log [OF assms(1)]) auto
  then show ?thesis using v(1) unfolding log_in_def store_of_def by blast
qed

theorem torn_leaf_adopted_witness:
  "\<exists>w store msg v store' v'.
     run (store_append ref_env store [1, 2, 3]) (w\<lparr>faults := (\<lambda>_. Run)(1 := Fail \<lparr>io_kind = OtherKind, io_text = []\<rparr> 1)\<rparr>) =
       (Err (Io msg \<lparr>io_kind = OtherKind, io_text = []\<rparr>), v) \<and>
     run (store_open ref_env w_dir) (v\<lparr>faults := \<lambda>_. Run\<rparr>) = (Ok store', v') \<and> st_leaves store' = [[1]]"
proof -
  obtain w where w: "calm w" "log_in ref_env w_dir w_origin [] w" by (rule w_log)
  then obtain store where s: "store_of ref_env w_dir w_origin [] store" by (rule open_pinned [OF ref_env_ok])
  have n: "length ([] :: bytes list) < ct_max_leaves" by (simp add: ct_max_leaves_def)
  have t: "[] @ [take 1 [1, 2, 3 :: byte]] = [[1]]" by simp
  from torn_leaf_adopted [OF ref_env_ok w(2) n s, of "[1, 2, 3]" "\<lparr>io_kind = OtherKind, io_text = []\<rparr>" 1, unfolded t]
  show ?thesis by blast
qed

text \<open>A state file that pins the largest size: the check adds one to it.\<close>

lemma pinned_max_panics:
  assumes "env_overflow_checks env" and "snd (to_parts (tree_root (env_ct env) (st_tree store))) \<noteq> - 1"
  shows "check_against_state env store (- 1) pinned_root = Ret Panic"
  using assms by (simp add: check_against_state_def case_prod_beta succ_u64_def rbind_def Let_def del: lit_simps)

end
