(* ===== verification/Store_Race.thy ===== *)
theory Store_Race
  imports Store_Theorems Merkle_Theorems Interference
begin

text \<open>
  Several \<^verbatim>\<open>lys log append\<close> processes on one log directory, call by call: what the exclusive creation of
  leaf files guarantees under every interleaving and every failure, and what it does not.
\<close>

section \<open>The calls of an append\<close>

text \<open>The only paths that an append replaces.\<close>

definition state_paths :: "path \<Rightarrow> path set" where
  "state_paths dir = {sub dir ''state.json'', sub dir ''state.json.tmp''}"

text \<open>Calls that read, create a file exclusively, rewrite the temporary file or publish it, and write to no
  inode of \<open>F\<close>.\<close>

fun store_call :: "path \<Rightarrow> nat set \<Rightarrow> syscall \<Rightarrow> bool" where
  "store_call dir F (Open_write new m p) = (new \<or> p = sub dir ''state.json.tmp'')"
| "store_call dir F (Write_all h b) = (h \<notin> F)"
| "store_call dir F (Rename a b) = (a = sub dir ''state.json.tmp'' \<and> b = sub dir ''state.json'')"
| "store_call dir F c = is_read c"

text \<open>The file that a call has created, if any.\<close>

fun created :: "syscall \<Rightarrow> reply \<Rightarrow> path set" where
  "created (Open_write True m p) (R_handle h) = {p}"
| "created c r = {}"

text \<open>Programs of such calls; \<open>S\<close> collects the files that the program has created, \<open>P\<close> is what holds of the
  returned value and these.\<close>

primrec confined :: "('a \<Rightarrow> path set \<Rightarrow> bool) \<Rightarrow> path \<Rightarrow> nat set \<Rightarrow> path set \<Rightarrow> 'a prog \<Rightarrow> bool" where
  "confined P dir F S (Ret x) = P x S"
| "confined P dir F S (Call c k) = (store_call dir F c \<and>
     (\<forall>r. reply_ok c r \<and> (\<forall>h. r = R_handle h \<longrightarrow> h \<notin> F) \<longrightarrow> confined P dir F (S \<union> created c r) (k r)))"

lemma confined_pbind:
  "confined Q dir F S p \<Longrightarrow> (\<And>x S'. Q x S' \<Longrightarrow> confined P dir F S' (f x)) \<Longrightarrow> confined P dir F S (pbind p f)"
  by (induction p arbitrary: S) auto

lemma confined_mono: "confined Q dir F S p \<Longrightarrow> (\<And>x S'. Q x S' \<Longrightarrow> P x S') \<Longrightarrow> confined P dir F S p"
  by (induction p arbitrary: S) auto

lemma created_read [simp]: "is_read c \<Longrightarrow> created c r = {}"
  by (cases c) auto

lemma store_call_read: "is_read c \<Longrightarrow> store_call dir F c"
  by (cases c) auto

lemma confined_read: "read_only p \<Longrightarrow> confined (\<lambda>x S'. S' = S) dir F S p"
  by (induction p) (auto simp: store_call_read)

text \<open>An error may come with any files; a value needs the right ones.\<close>

definition oks :: "('a \<Rightarrow> path set \<Rightarrow> bool) \<Rightarrow> ('e, 'a) result \<Rightarrow> path set \<Rightarrow> bool" where
  "oks P r S \<longleftrightarrow> (\<forall>x. r = Ok x \<longrightarrow> P x S)"

lemma confined_rbind:
  "confined (oks Q) dir F S p \<Longrightarrow> (\<And>x S'. Q x S' \<Longrightarrow> confined (oks P) dir F S' (f x)) \<Longrightarrow> confined (oks P) dir F S (rbind p f)"
  unfolding rbind_def by (erule confined_pbind) (auto simp: oks_def split: result.splits)

lemma confined_perr: "confined (oks P) dir F S p \<Longrightarrow> confined (oks P) dir F S (perr g p)"
  unfolding perr_def by (erule confined_pbind) (auto simp: oks_def outcome)

lemma confined_reads: "read_only p \<Longrightarrow> confined (oks (\<lambda>x S'. S' = S)) dir F S p"
  by (erule confined_mono [OF confined_read]) (simp add: oks_def)

lemma confined_Ret [simp]:
  "confined (oks (\<lambda>x S'. S' = S)) dir F S (Ret r)" "confined (oks P) dir F S (Ret (Err e))" "confined (oks P) dir F S (Ret Panic)"
  by (simp_all add: oks_def)

lemma confined_seq:
  "confined (oks (\<lambda>x S'. S' = S)) dir F S p \<Longrightarrow> (\<And>x. confined (oks P) dir F S (f x)) \<Longrightarrow> confined (oks P) dir F S (rbind p f)"
  by (erule confined_rbind) simp

lemma confined_write_state: "confined (oks (\<lambda>x S'. S' = S)) dir F S (write_state env dir root)"
proof -
  have w: "confined (oks (\<lambda>x S'. S' = S)) dir F S (fs_write (sub dir ''state.json.tmp'') b)" for b
    unfolding fs_write_def
    by (rule confined_rbind [where Q = "\<lambda>h S'. h \<notin> F \<and> S' = S"])
      (auto simp: fs_open_def fs_unit_def oks_def split: reply.splits simp del: lit_simps)
  have r: "confined (oks (\<lambda>x S'. S' = S)) dir F S (fs_unit (Rename (sub dir ''state.json.tmp'') (sub dir ''state.json'')))"
    by (auto simp: fs_unit_def oks_def simp del: lit_simps)
  show ?thesis
    unfolding write_state_def case_prod_beta Let_def write_file_def
    by (intro confined_seq confined_perr w r confined_Ret)
qed

text \<open>The check at the end of an open: nothing, or the state file and a notice.\<close>

lemma confined_check:
  assumes "st_dir store = dir"
  shows "confined (oks (\<lambda>x S'. S' = S)) dir F S (check_against_state env store n root)"
proof -
  have "confined (oks (\<lambda>x S'. S' = S)) dir F S (rbind (write_state env dir t) (\<lambda>_. eprintln s))" for t s
    by (intro confined_seq confined_write_state confined_reads) simp
  then show ?thesis
    unfolding check_against_state_def case_prod_beta Let_def assms
    by (cases "succ_u64 (env_overflow_checks env) n :: u64 cli_result"; cases "prefix_tree env store n")
      (auto simp: rbind_def [of "Ret _"] simp del: lit_simps confined.simps(1))
qed

lemma confined_open: "confined (oks (\<lambda>store S'. st_dir store = dir \<and> S' = S)) dir F S (store_open env dir)"
proof -
  let ?Q = "\<lambda>store S'. st_dir store = dir \<and> S' = S"
  have c: "confined (oks ?Q) dir F S (rbind (check_against_state env store n root) (\<lambda>_. Ret (Ok store)))"
    if "st_dir store = dir" for store n root
    by (rule confined_seq [OF confined_check [OF that]]) (simp add: oks_def that)
  have p: "confined (oks P) dir F S (pbind (fs_bool (Exists q)) f)" if "\<And>x. confined (oks P) dir F S (f x)" for P q f
    by (rule confined_pbind [OF confined_read [of _ S]]) (use that in simp_all)
  have i: "confined (oks P) dir F S (if b then Ret (Err e) else p)" if "confined (oks P) dir F S p" for P b e p
    using that by (simp del: confined.simps(1))
  show ?thesis
    unfolding store_open_def Let_def
    by (intro p i confined_seq confined_Ret c confined_reads) simp_all
qed

text \<open>An append that returns an index has created the leaf file of that index.\<close>

abbreviation made_leaf :: "path \<Rightarrow> ('t log_store \<times> u64 \<times> bytes) cli_result \<Rightarrow> path set \<Rightarrow> bool" where
  "made_leaf dir \<equiv> oks (\<lambda>(store, i, h) S. leaf_path dir i \<in> S)"

lemma confined_append:
  assumes "st_dir store = dir"
  shows "confined (made_leaf dir) dir F S (store_append env store l)"
proof -
  let ?p = "leaf_path dir (tree_len (env_ct env) (st_tree store))"
  have o: "confined (oks (\<lambda>h S'. h \<notin> F \<and> S' = insert ?p S)) dir F S (fs_open True 438 ?p)"
    by (auto simp: fs_open_def oks_def split: reply.splits)
  have w: "h \<notin> F \<Longrightarrow> confined (oks (\<lambda>x S'. S' = S)) dir F S (fs_unit (Write_all h l))" for h S
    by (auto simp: fs_unit_def oks_def)
  show ?thesis
    unfolding store_append_def Let_def assms case_prod_beta
  proof (rule confined_rbind [OF confined_perr [OF o]], goal_cases)
    case (1 h S')
    then show ?case
      by (intro confined_seq confined_perr w confined_Ret) (auto simp: oks_def assms intro!: confined_seq confined_write_state simp del: lit_simps)
  qed
qed

lemma confined_session: "confined (made_leaf dir) dir F S (append_session env dir l)"
  unfolding append_session_def by (rule confined_rbind [OF confined_open]) (simp add: confined_append)

section \<open>Every interleaving\<close>

text \<open>The inodes \<open>F\<close> are in use, and not under the paths that an append replaces.\<close>

definition guards :: "path \<Rightarrow> nat set \<Rightarrow> world \<Rightarrow> bool" where
  "guards dir F w \<longleftrightarrow> (\<forall>i \<in> F. i < next_inode w) \<and> (\<forall>q \<in> state_paths dir. \<forall>i. lookup w q = Some (File i) \<longrightarrow> i \<notin> F)"

definition holds_still :: "path \<Rightarrow> nat set \<Rightarrow> world \<Rightarrow> world \<Rightarrow> bool" where
  "holds_still dir F w w' \<longleftrightarrow> guards dir F w' \<and> (\<forall>i \<in> F. inodes w' i = inodes w i) \<and>
     (\<forall>q e. q \<notin> state_paths dir \<longrightarrow> lookup w q = Some e \<longrightarrow> lookup w' q = Some e)"

lemma holds_still_trans: "holds_still dir F u v \<Longrightarrow> holds_still dir F v w \<Longrightarrow> holds_still dir F u w"
  by (simp add: holds_still_def)

lemma read_fields:
  "is_read c \<Longrightarrow> entries (snd (exec c w)) = entries w \<and> inodes (snd (exec c w)) = inodes w \<and> next_inode (snd (exec c w)) = next_inode w"
  by (cases c) (auto simp: exec_def split: choice.splits)

lemma store_step:
  assumes "store_call dir F c" and "guards dir F w" and "exec c w = (r, w')"
  shows "holds_still dir F w w' \<and> (\<forall>h. r = R_handle h \<longrightarrow> h \<notin> F) \<and> (\<forall>p \<in> created c r. lookup w p = None \<and> lookup w' p \<noteq> None)"
proof (cases "is_read c")
  case True
  moreover from True have "r \<noteq> R_handle h" for h
    using exec_reply [of c w] assms(3) by (cases c) auto
  ultimately show ?thesis
    using read_fields [OF True, of w] assms(2,3) by (simp add: holds_still_def guards_def)
next
  case False
  note G = assms(2) [unfolded guards_def]
  show ?thesis
  proof (cases c)
    case (Open_write new m p)
    show ?thesis
    proof (cases "faults w 0")
      case Run
      then have o: "open_write new m p (pop_fault w) = (r, w')" using assms(3) Open_write by (simp add: exec_def)
      show ?thesis
      proof (cases "lookup w p")
        case None
        with o G show ?thesis
          by (cases new) (auto simp: Open_write open_write_def holds_still_def guards_def errno split: if_splits)
      next
        case (Some e)
        with o G assms(1) show ?thesis
          by (cases e; cases new) (auto simp: Open_write open_write_def holds_still_def guards_def state_paths_def errno simp del: lit_simps)
      qed
    qed (use assms(2,3) in \<open>auto simp: Open_write exec_def holds_still_def guards_def\<close>)
  next
    case (Write_all h b)
    then show ?thesis
      using assms(1,3) G by (auto simp: exec_def holds_still_def guards_def write_data_def split: choice.splits)
  next
    case (Rename a b)
    then show ?thesis
      using assms(1,3) G
      by (auto simp: exec_def holds_still_def guards_def state_paths_def errno
        split: choice.splits option.splits entry.splits if_splits simp del: lit_simps)
  qed (use assms(1) False in auto)
qed

text \<open>The invariant of a system of appends: \<open>Ss ! j\<close> are the files that thread \<open>j\<close> has created.\<close>

definition racing ::
  "('a \<Rightarrow> path set \<Rightarrow> bool) \<Rightarrow> path \<Rightarrow> nat set \<Rightarrow> world \<Rightarrow> world \<times> 'a prog list \<Rightarrow> path set list \<Rightarrow> bool" where
  "racing P dir F w0 s Ss \<longleftrightarrow> holds_still dir F w0 (fst s) \<and> length Ss = length (snd s) \<and>
     (\<forall>j < length Ss. confined P dir F (Ss ! j) (snd s ! j)) \<and>
     (\<forall>j < length Ss. \<forall>q \<in> Ss ! j - state_paths dir. lookup w0 q = None \<and> lookup (fst s) q \<noteq> None) \<and>
     (\<forall>j < length Ss. \<forall>k < length Ss. j \<noteq> k \<longrightarrow> Ss ! j \<inter> Ss ! k \<subseteq> state_paths dir)"

lemma racing_step:
  assumes "racing P dir F w0 s Ss" and "sys_step s s'"
  shows "\<exists>Ss'. racing P dir F w0 s' Ss'"
  using assms(2,1)
proof (cases rule: sys_step.cases)
  case (sys_stepI i ps c k w r w')
  from assms(1) sys_stepI have R: "holds_still dir F w0 w" "length Ss = length ps" "i < length Ss"
    "\<And>j. j < length Ss \<Longrightarrow> confined P dir F (Ss ! j) (ps ! j)"
    "\<And>j q. j < length Ss \<Longrightarrow> q \<in> Ss ! j \<Longrightarrow> q \<notin> state_paths dir \<Longrightarrow> lookup w0 q = None \<and> lookup w q \<noteq> None"
    "\<And>j k. j < length Ss \<Longrightarrow> k < length Ss \<Longrightarrow> j \<noteq> k \<Longrightarrow> Ss ! j \<inter> Ss ! k \<subseteq> state_paths dir"
    by (auto simp: racing_def)
  have c: "store_call dir F c"
    and k: "reply_ok c r \<Longrightarrow> (\<And>h. r = R_handle h \<Longrightarrow> h \<notin> F) \<Longrightarrow> confined P dir F (Ss ! i \<union> created c r) (k r)"
    using R(4) [OF R(3)] sys_stepI(4) by auto
  have "guards dir F w" using R(1) by (simp add: holds_still_def)
  from store_step [OF c this sys_stepI(5)]
  have S: "holds_still dir F w w'" "\<And>h. r = R_handle h \<Longrightarrow> h \<notin> F"
    "\<And>p. p \<in> created c r \<Longrightarrow> lookup w p = None \<and> lookup w' p \<noteq> None" by blast+
  have n: "q \<notin> state_paths dir \<Longrightarrow> lookup w q \<noteq> None \<Longrightarrow> lookup w' q \<noteq> None" for q
    using S(1) unfolding holds_still_def by fastforce
  have o: "q \<notin> state_paths dir \<Longrightarrow> lookup w q = None \<Longrightarrow> lookup w0 q = None" for q
    using R(1) unfolding holds_still_def by fastforce
  let ?Ss = "Ss[i := Ss ! i \<union> created c r]"
  have "confined P dir F (?Ss ! j) (ps[i := k r] ! j)" if "j < length Ss" for j
    using that R k [OF _ S(2)] exec_reply [of c w] sys_stepI(5) by (cases "j = i") auto
  moreover have "lookup w0 q = None \<and> lookup w' q \<noteq> None" if "j < length Ss" "q \<in> ?Ss ! j" "q \<notin> state_paths dir" for j q
    using that R(3,5) n o S(3) by (cases "j = i") auto
  moreover have fresh: "Ss ! j \<inter> created c r \<subseteq> state_paths dir" if "j < length Ss" for j
    using R(5) [OF that] S(3) by blast
  have "?Ss ! a \<inter> ?Ss ! b \<subseteq> state_paths dir" if "a < length Ss" "b < length Ss" "a \<noteq> b" for a b
    using that R(3,6) fresh [of a] fresh [of b] by (cases "a = i"; cases "b = i") (simp_all add: Int_Un_distrib Int_Un_distrib2 Int_commute)
  ultimately have "racing P dir F w0 (w', ps[i := k r]) ?Ss"
    using R(2) holds_still_trans [OF R(1) S(1)] by (simp add: racing_def)
  then show ?thesis using sys_stepI by auto
qed

text \<open>The paths of leaves are never replaced.\<close>

lemma leaf_path_settled [simp]: "leaf_path dir i \<notin> state_paths dir"
  using store_paths(5) [of dir i] by (simp add: state_paths_def del: lit_simps)

lemma racing_steps: "sys_steps n s s' \<Longrightarrow> racing P dir F w0 s Ss \<Longrightarrow> \<exists>Ss'. racing P dir F w0 s' Ss'"
  by (induction rule: sys_steps.induct) (auto dest: racing_step)

text \<open>The inodes of all files but the two that an append replaces.\<close>

definition settled :: "path \<Rightarrow> world \<Rightarrow> nat set" where
  "settled dir w = {i. \<exists>q. q \<notin> state_paths dir \<and> lookup w q = Some (File i)}"

lemma settled_guards: "wf_fs w \<Longrightarrow> guards dir (settled dir w) w"
  using wf_fsD(2,3) [of w] unfolding guards_def settled_def by blast

lemma racing_start:
  assumes "wf_fs w" and "\<And>p. p \<in> set ps \<Longrightarrow> confined P dir (settled dir w) {} p"
  shows "racing P dir (settled dir w) w (w, ps) (replicate (length ps) {})"
  using assms settled_guards [OF assms(1)] by (simp add: racing_def holds_still_def)

lemma holds_still_content:
  "holds_still dir (settled dir w) w w' \<Longrightarrow> q \<notin> state_paths dir \<Longrightarrow> content w q = Some b \<Longrightarrow> content w' q = Some b"
  unfolding holds_still_def settled_def content_Some by fastforce

section \<open>An interleaving that corrupts a log\<close>

subsection \<open>Running a program up to some point\<close>

lemma reaches_trans: "reaches p w q v \<Longrightarrow> reaches q v r u \<Longrightarrow> reaches p w r u"
  by (induction rule: reaches.induct) (auto intro: reaches_call)

lemma reaches_pbind: "reaches p w q v \<Longrightarrow> reaches (pbind p f) w (pbind q f) v"
  by (induction rule: reaches.induct) (auto intro: reaches_refl reaches_call)

lemma reaches_rbind_Ok:
  assumes "run p w = (Ok x, v)" and "reaches (f x) v q u"
  shows "reaches (rbind p f) w q u"
proof -
  have "reaches p w (Ret (Ok x)) v" using reaches_run [of p w] assms(1) by simp
  then have "reaches (rbind p f) w (rbind (Ret (Ok x)) f) v" unfolding rbind_def by (rule reaches_pbind)
  with assms(2) show ?thesis by (auto simp: rbind_def intro: reaches_trans)
qed

lemma sys_steps_trans: "sys_steps n s' s'' \<Longrightarrow> \<exists>m. sys_steps m s s' \<Longrightarrow> \<exists>m. sys_steps m s s''"
  by (induction rule: sys_steps.induct) (blast intro: sys_steps_Suc)+

text \<open>A thread that runs while the others wait.\<close>

lemma reaches_sys:
  "reaches p w q v \<Longrightarrow> i < length ps \<Longrightarrow> ps ! i = p \<Longrightarrow> \<exists>n. sys_steps n (w, ps) (v, ps[i := q])"
proof (induction arbitrary: ps rule: reaches.induct)
  case (reaches_refl p w)
  then show ?case by (metis list_update_id sys_steps_0)
next
  case (reaches_call c w r w' k p v)
  then have "sys_step (w, ps) (w', ps[i := k r])" by (blast intro: sys_stepI)
  moreover obtain n where "sys_steps n (w', ps[i := k r]) (v, ps[i := p])"
    using reaches_call.IH [of "ps[i := k r]"] reaches_call.prems by auto
  ultimately show ?case by (blast intro: sys_steps_first)
qed

lemma run_sys:
  "run p w = (x, v) \<Longrightarrow> i < length ps \<Longrightarrow> ps ! i = p \<Longrightarrow> \<exists>n. sys_steps n (w, ps) (v, ps[i := Ret x])"
  using reaches_sys [OF reaches_run [of p w]] by simp

text \<open>A first thread is overtaken by a second one, goes on, and both finish.\<close>

lemma interleave:
  assumes "reaches p w p1 w1" and "reaches q w1 q1 w2" and "reaches p1 w2 p2 w3" and "run p2 w3 = (x, w4)" and "run q1 w4 = (y, w5)"
  shows "\<exists>n. sys_steps n (w, [p, q]) (w5, [Ret x, Ret y])"
proof -
  have "\<exists>n. sys_steps n (w, [p, q]) (w1, [p1, q])" using reaches_sys [OF assms(1), of 0 "[p, q]"] by simp
  then have "\<exists>n. sys_steps n (w, [p, q]) (w2, [p1, q1])"
    using reaches_sys [OF assms(2), of 1 "[p1, q]"] sys_steps_trans by fastforce
  then have "\<exists>n. sys_steps n (w, [p, q]) (w3, [p2, q1])"
    using reaches_sys [OF assms(3), of 0 "[p1, q1]"] sys_steps_trans by fastforce
  then have "\<exists>n. sys_steps n (w, [p, q]) (w4, [Ret x, q1])"
    using run_sys [OF assms(4), of 0 "[p2, q1]"] sys_steps_trans by fastforce
  then show ?thesis
    using run_sys [OF assms(5), of 1 "[Ret x, q1]"] sys_steps_trans by fastforce
qed

text \<open>An append keeps the entries of the other files.\<close>

lemma confined_reaches:
  "reaches p w q v \<Longrightarrow> confined P dir {} S p \<Longrightarrow> x \<notin> state_paths dir \<Longrightarrow> lookup w x = Some e \<Longrightarrow> lookup v x = Some e"
proof (induction arbitrary: S rule: reaches.induct)
  case (reaches_call c w r w' k p v)
  have "holds_still dir {} w w'"
    using store_step [of dir "{}" c w r w'] reaches_call.hyps(1) reaches_call.prems(1) by (simp add: guards_def)
  then have "lookup w' x = Some e" using reaches_call.prems(2,3) by (simp add: holds_still_def)
  moreover have "confined P dir {} (S \<union> created c r) (k r)"
    using reaches_call.prems(1) exec_reply [of c w] reaches_call.hyps(1) by simp
  ultimately show ?case using reaches_call.IH reaches_call.prems(2) by blast
qed simp

subsection \<open>An append in three parts\<close>

text \<open>The last part pins the leaves \<open>ms\<close>, whatever the directory holds; the part before it writes the leaf through the
  handle of a file that is still empty.\<close>

definition pins :: "'t store_env \<Rightarrow> path \<Rightarrow> (path \<Rightarrow> bool) \<Rightarrow> bytes list \<Rightarrow> ('e, 'a) result prog \<Rightarrow> bool" where
  "pins env dir D ms p \<longleftrightarrow> (\<forall>v C. calm v \<and> sees v C D \<longrightarrow> (\<exists>x v'. run p v = (Ok x, v') \<and> calm v' \<and>
     sees v' (C(sub dir ''state.json.tmp'' := None, sub dir ''state.json'' \<mapsto> json_bytes (env_state env) (state_of env ms))) D))"

definition writes :: "'t store_env \<Rightarrow> path \<Rightarrow> (path \<Rightarrow> bool) \<Rightarrow> bytes list \<Rightarrow> bytes \<Rightarrow> nat \<Rightarrow> ('e, 'a) result prog \<Rightarrow> bool" where
  "writes env dir D ls l i p \<longleftrightarrow>
     (let q = leaf_path dir (of_nat (length ls)) in
      \<forall>v C. calm v \<and> sees v C D \<and> lookup v q = Some (File i) \<and> C q = Some [] \<longrightarrow>
        (\<exists>p' v'. reaches p v p' v' \<and> calm v' \<and> sees v' (C(q \<mapsto> l)) D \<and> pins env dir D (ls @ [l]) p'))"

lemma append_pauses:
  assumes "env_ok env" and "store_of env dir origin ls store" and "length ls < ct_max_leaves" and "calm w"
    and "sees w C D" and "log_at env dir origin ls ps C D"
  shows "\<exists>p i v. reaches (store_append env store l) w p v \<and> calm v \<and> sees v (C(leaf_path dir (of_nat (length ls)) \<mapsto> [])) D \<and>
    lookup v (leaf_path dir (of_nat (length ls))) = Some (File i) \<and> writes env dir D ls l i p"
proof -
  let ?q = "leaf_path dir (of_nat (length ls))"
  note L = log_atD [OF assms(6)]
  obtain t where t: "tree_holds (env_ct env) (ls @ [l]) t" and u: "store_append env store l =
      (let p = ?q in
       rbind (perr (\<lambda>source. Io (lit ''failed to create leaf file '' @ display_path p) source) (fs_open True 438 p)) (\<lambda>file.
       rbind (perr (\<lambda>source. Io (lit ''failed to write leaf file '' @ display_path p) source) (fs_unit (Write_all file l))) (\<lambda>_.
       rbind (write_state env dir (tree_root (env_ct env) t)) (\<lambda>_.
       Ret (Ok (store\<lparr>st_tree := t, st_leaves := ls @ [l]\<rparr>, of_nat (length ls), raw_leaf_hash (env_sha env) l))))))"
    by (rule store_append_unfold [OF assms(1-3)])
  let ?p2 = "rbind (write_state env dir (tree_root (env_ct env) t)) (\<lambda>_.
       Ret (Ok (store\<lparr>st_tree := t, st_leaves := ls @ [l]\<rparr>, of_nat (length ls), raw_leaf_hash (env_sha env) l)))"
  let ?p1 = "\<lambda>i. rbind (perr (\<lambda>source. Io (lit ''failed to write leaf file '' @ display_path ?q) source) (fs_unit (Write_all i l))) (\<lambda>_. ?p2)"
  have p2: "pins env dir D (ls @ [l]) ?p2"
    unfolding pins_def
  proof (intro allI impI, elim conjE)
    fix v C' assume "calm v" "sees v C' D"
    from write_state_calm [OF assms(1) t this L(1,3,4)] show "\<exists>x v'. run ?p2 v = (Ok x, v') \<and> calm v' \<and>
     sees v' (C'(sub dir ''state.json.tmp'' := None, sub dir ''state.json'' \<mapsto> json_bytes (env_state env) (state_of env (ls @ [l])))) D"
      by (auto simp: run_rbind_Ok simp del: lit_simps)
  qed
  have p1: "writes env dir D ls l i (?p1 i)" for i
    unfolding writes_def Let_def
  proof (intro allI impI, elim conjE)
    fix v C' assume v: "calm v" "sees v C' D" "lookup v ?q = Some (File i)" "C' ?q = Some []"
    obtain s x where s: "exec (Write_all i l) v = (s, x)" by (cases "exec (Write_all i l) v")
    with exec_write_sees [OF v(2-4) s] v(1) have x: "s = R_unit" "sees x (C'(?q \<mapsto> l)) D" "calm x" by auto
    have "reaches (?p1 i) v ?p2 x"
      by (rule reaches_rbind_Ok [OF _ reaches_refl]) (use s x(1) in \<open>simp add: run_perr fs_unit_def\<close>)
    with x(2,3) p2 show "\<exists>p' v'. reaches (?p1 i) v p' v' \<and> calm v' \<and> sees v' (C'(?q \<mapsto> l)) D \<and> pins env dir D (ls @ [l]) p'"
      by blast
  qed
  obtain r v where o: "exec (Open_write True 438 ?q) w = (r, v)" by (cases "exec (Open_write True 438 ?q) w")
  have "(\<exists>i. r = R_handle i \<and> lookup v ?q = Some (File i) \<and> sees v (C(?q \<mapsto> [])) D \<and> (calm w \<longrightarrow> calm v))
      \<or> (\<exists>e. r = R_err e \<and> sees v C D \<and> \<not> calm w)"
    using exec_open_sees [OF assms(5) L(2), of "Uni (leaf_name (of_nat (length ls)))" True 438 r v] o next_leaf_free [OF assms(6,3)]
    unfolding leaf_path_def path_join_def [of "sub dir ''leaves''"] by auto
  then obtain i where i: "r = R_handle i" "lookup v ?q = Some (File i)" "sees v (C(?q \<mapsto> [])) D" "calm v"
    using assms(4) by blast
  have "reaches (store_append env store l) w (?p1 i) v"
    unfolding u Let_def by (rule reaches_rbind_Ok [OF _ reaches_refl]) (use o i(1) in \<open>simp add: run_perr fs_open_def\<close>)
  with i p1 show ?thesis by blast
qed

lemma session_pauses:
  assumes "env_ok env" and "length ls < ct_max_leaves" and "calm w" and "sees w C D" and "log_at env dir origin ls ps C D"
    and "ps = ls \<or> (\<exists>l. ls = ps @ [l])"
  shows "\<exists>p i v C'. reaches (append_session env dir l) w p v \<and> calm v \<and> sees v (C'(leaf_path dir (of_nat (length ls)) \<mapsto> [])) D \<and>
    log_at env dir origin ls ls C' D \<and>
    lookup v (leaf_path dir (of_nat (length ls))) = Some (File i) \<and> writes env dir D ls l i p"
proof -
  obtain store w' C' where o: "run (store_open env dir) w = (Ok store, w')" "store_of env dir origin ls store"
    "sees w' C' D" "log_at env dir origin ls ls C' D" "calm w'"
    using open_log [OF assms(1,3-6)] by blast
  obtain p i v where p: "reaches (store_append env store l) w' p v" "calm v"
    "sees v (C'(leaf_path dir (of_nat (length ls)) \<mapsto> [])) D"
    "lookup v (leaf_path dir (of_nat (length ls))) = Some (File i)" "writes env dir D ls l i p"
    using append_pauses [OF assms(1) o(2) assms(2) o(5,3,4), of l] by blast
  have "reaches (append_session env dir l) w p v"
    unfolding append_session_def
    using reaches_rbind_Ok [OF o(1), of "\<lambda>store. store_append env store l"] p(1) by simp
  with p o(4) show ?thesis by blast
qed

text \<open>A leaf file with other content.\<close>

lemma log_at_replace:
  assumes "log_at env dir origin ls ps C D" and "i < length ls"
  shows "log_at env dir origin (ls[i := l]) ps (C(leaf_path dir (of_nat i) \<mapsto> l)) D"
proof -
  note L = log_atD [OF assms(1)]
  have "dot_name n \<or> (\<exists>j < length ls. n = Uni (leaf_name (of_nat j)))"
    if "(C(leaf_path dir (of_nat i) \<mapsto> l)) (path_join (sub dir ''leaves'') n) \<noteq> None \<or> D (path_join (sub dir ''leaves'') n)" for n
    using that L(7) [of n] L(8) [OF assms(2)] by (auto simp del: lit_simps split: if_splits)
  moreover have "(C(leaf_path dir (of_nat i) \<mapsto> l)) (leaf_path dir (of_nat j)) = Some (ls[i := l] ! j)" if "j < length ls" for j
    using that assms(2) L(8,9) of_nat_inj64 [of i j]
    by (cases "i = j") (simp_all add: leaf_path_def path_join_inj leaf_name_inj)
  ultimately show ?thesis
    unfolding log_at_def using L(1-6,9) store_paths(7) [of dir] by (simp del: lit_simps)
qed

text \<open>As many leaves as pinned, but others.\<close>

lemma open_mismatch:
  assumes "env_ok env" and "calm w" and "sees w C D" and "log_at env dir origin ls ps C D"
    and "length ps = length ls" and "mth (env_sha env) ps \<noteq> mth (env_sha env) ls"
  shows "\<exists>msg. run (store_open env dir) w = (Err (LogDirInvalid dir msg), w)"
proof -
  obtain t where t: "reconstruct_from_raw_leaves (env_ct env) ls = Ok t" "tree_holds (env_ct env) ls t"
    using reconstruct_raw_holds [OF env_okD(3) [OF assms(1)] log_atD(9) [OF assms(4)]] by auto
  have "(of_nat (length ls) :: u64) \<noteq> - 1"
  proof
    assume "(of_nat (length ls) :: u64) = - 1"
    then have "unat (- 1 :: u64) \<le> 2 ^ 63"
      using unat_small [OF log_atD(9) [OF assms(4)]] log_atD(9) [OF assms(4)] by (simp add: ct_max_leaves_def)
    then show False by (simp add: unsigned_minus_1_eq_mask mask_eq_exp_minus_1)
  qed
  then show ?thesis
    using open_log_run [OF assms(1-4) t(1)] tree_holds_root [OF env_okD(3) [OF assms(1)] t(2)] assms(5,6)
    by (auto simp: check_against_state_def succ_u64_def Let_def to_parts_def from_parts_def root_from_inner_def rbind_def
        simp del: lit_simps)
qed

subsection \<open>The race\<close>

text \<open>One append creates its leaf file; a second adopts the empty file, writes its own leaf and stops before the state
  file; the first one finishes; then the second.\<close>

lemma race:
  fixes env :: "'t store_env"
  assumes "env_ok env" and "calm w" and "log_in env dir origin ls w" and "length ls + 2 \<le> ct_max_leaves"
  shows "\<exists>n x y v C D. sys_steps n (w, [append_session env dir l, append_session env dir l']) (v, [Ret (Ok x), Ret (Ok y)]) \<and>
    calm v \<and> sees v C D \<and> log_at env dir origin (ls @ [l, l']) (ls @ [[], l']) C D"
proof -
  let ?q = "leaf_path dir (of_nat (length ls))" and ?ms = "ls @ [[]]"
  let ?q' = "leaf_path dir (of_nat (length ?ms))"
  have n: "length ls < ct_max_leaves" "length ?ms < ct_max_leaves" using assms(4) by simp_all
  obtain C D where cd: "sees w C D" "log_at env dir origin ls ls C D" using assms(3) by (auto simp: log_in_def)
  obtain a i w1 C1 where a: "reaches (append_session env dir l) w a w1" "calm w1" "sees w1 (C1(?q \<mapsto> [])) D"
    "log_at env dir origin ls ls C1 D" "lookup w1 ?q = Some (File i)" "writes env dir D ls l i a"
    using session_pauses [OF assms(1) n(1) assms(2) cd disjI1, of l] by blast
  have l1: "log_at env dir origin ?ms ls (C1(?q \<mapsto> [])) D" by (rule log_at_leaf [OF a(4) n(1)])
  obtain b j w2 C2 where b: "reaches (append_session env dir l') w1 b w2" "calm w2" "sees w2 (C2(?q' \<mapsto> [])) D"
    "log_at env dir origin ?ms ?ms C2 D" "lookup w2 ?q' = Some (File j)" "writes env dir D ?ms l' j b"
    using session_pauses [OF assms(1) n(2) a(2,3) l1 disjI2, of l'] by blast
  obtain b' w3 where b': "reaches b w2 b' w3" "calm w3" "sees w3 (C2(?q' \<mapsto> l')) D" "pins env dir D (?ms @ [l']) b'"
    using b(6) [unfolded writes_def Let_def] b(2,3,5) by (metis fun_upd_same fun_upd_upd)
  have rb: "reaches (append_session env dir l') w1 b' w3" by (rule reaches_trans [OF b(1) b'(1)])
  have i3: "lookup w3 ?q = Some (File i)"
    by (rule confined_reaches [OF rb confined_session _ a(5)]) simp
  have "(of_nat (length ls) :: u64) \<noteq> of_nat (length ?ms)"
    using of_nat_inj64 [of "length ls" "length ?ms"] n by simp
  then have "?q \<noteq> ?q'" by (simp add: leaf_path_def path_join_inj leaf_name_inj)
  moreover have "C2 ?q = Some []" using log_atD(8) [OF b(4), of "length ls"] by simp
  ultimately have c3: "(C2(?q' \<mapsto> l')) ?q = Some []" by simp
  obtain a' w4 where a': "reaches a w3 a' w4" "calm w4" "sees w4 (C2(?q' \<mapsto> l', ?q \<mapsto> l)) D" "pins env dir D (ls @ [l]) a'"
    using a(6) [unfolded writes_def Let_def] b'(2,3) i3 c3 by blast
  have "log_at env dir origin ((?ms @ [l'])[length ls := l]) ?ms (C2(?q' \<mapsto> l', ?q \<mapsto> l)) D"
    by (rule log_at_replace [OF log_at_leaf [OF b(4) n(2)]]) simp
  then have l4: "log_at env dir origin (ls @ [l, l']) ?ms (C2(?q' \<mapsto> l', ?q \<mapsto> l)) D" by simp
  let ?tmp = "sub dir ''state.json.tmp''" and ?st = "sub dir ''state.json''"
  obtain x w5 C5 where x: "run a' w4 = (Ok x, w5)" "calm w5" "sees w5 C5 D"
    "C5 = C2(?q' \<mapsto> l', ?q \<mapsto> l, ?tmp := None, ?st \<mapsto> json_bytes (env_state env) (state_of env (ls @ [l])))"
    using a'(4) [unfolded pins_def] a'(2,3) by blast
  have l5: "log_at env dir origin (ls @ [l, l']) (ls @ [l]) C5 D"
    unfolding x(4) by (rule log_at_state [OF log_at_tmp [OF l4]])
  obtain y w6 where y: "run b' w5 = (Ok y, w6)" "calm w6"
    "sees w6 (C5(?tmp := None, ?st \<mapsto> json_bytes (env_state env) (state_of env (?ms @ [l'])))) D"
    using b'(4) [unfolded pins_def] x(2,3) by blast
  have l6: "log_at env dir origin (ls @ [l, l']) (?ms @ [l']) (C5(?tmp := None, ?st \<mapsto> json_bytes (env_state env) (state_of env (?ms @ [l'])))) D"
    by (rule log_at_state [OF log_at_tmp [OF l5]])
  from interleave [OF a(1) rb a'(1) x(1) y(1)] y(2,3) l6 show ?thesis
    unfolding append_assoc append_Cons append_Nil by blast
qed

lemma race_inputs_distinct: "collision_free ref_sha (set (mth_inputs ref_sha [[], [8]]) \<union> set (mth_inputs ref_sha [[7], [8]]))"
  unfolding set_append [symmetric] by (rule collision_free_list) code_simp

section \<open>The properties\<close>

text \<open>C31 (concurrent appends write once): let any number of appends on one log directory take turns, call by call and in any order,
  with any failures of system calls, up to any point. Then every file that was there keeps its content, leaves and
  \<^verbatim>\<open>log.json\<close> included, except the state file and its temporary; an append that has returned an index has created
  the leaf file of that index; and no two appends have returned the same index.\<close>

theorem racing_appends_write_once:
  assumes "wf_fs w" and "sys_steps n (w, map (append_session env dir) ls) (w', ps)"
  shows "(\<forall>q b. content w q = Some b \<and> q \<notin> {sub dir ''state.json'', sub dir ''state.json.tmp''} \<longrightarrow> content w' q = Some b) \<and>
    (\<forall>j < length ps. \<forall>store i h. ps ! j = Ret (Ok (store, i, h)) \<longrightarrow>
       lookup w (leaf_path dir i) = None \<and> lookup w' (leaf_path dir i) \<noteq> None \<and>
       (\<forall>k < length ps. \<forall>store' i' h'. k \<noteq> j \<and> ps ! k = Ret (Ok (store', i', h')) \<longrightarrow> i' \<noteq> i))"
proof -
  let ?F = "settled dir w"
  have "confined (made_leaf dir) dir ?F {} p" if "p \<in> set (map (append_session env dir) ls)" for p
    using that by (auto simp: confined_session)
  from racing_start [OF assms(1), of "map (append_session env dir) ls", OF this]
  have "racing (made_leaf dir) dir ?F w (w, map (append_session env dir) ls) (replicate (length ls) {})" by simp
  from racing_steps [OF assms(2) this] obtain Ss where "racing (made_leaf dir) dir ?F w (w', ps) Ss" by blast
  then have R: "holds_still dir ?F w w'" "length Ss = length ps"
    "\<And>j. j < length ps \<Longrightarrow> confined (made_leaf dir) dir ?F (Ss ! j) (ps ! j)"
    "\<And>j q. j < length ps \<Longrightarrow> q \<in> Ss ! j \<Longrightarrow> q \<notin> state_paths dir \<Longrightarrow> lookup w q = None \<and> lookup w' q \<noteq> None"
    "\<And>j k. j < length ps \<Longrightarrow> k < length ps \<Longrightarrow> j \<noteq> k \<Longrightarrow> Ss ! j \<inter> Ss ! k \<subseteq> state_paths dir"
    by (auto simp: racing_def)
  have made: "leaf_path dir i \<in> Ss ! j" if "j < length ps" "ps ! j = Ret (Ok (store, i, h))" for j store i h
    using R(3) [OF that(1)] that(2) by (simp add: oks_def)
  have apart: "i' \<noteq> i" if "j < length ps" "ps ! j = Ret (Ok (store, i, h))" "k < length ps" "k \<noteq> j"
    "ps ! k = Ret (Ok (store', i', h'))" for j k store i h store' i' h'
    using made [OF that(1,2)] made [OF that(3,5)] R(5) [OF that(1,3)] that(4) leaf_path_settled [of dir i] by blast
  have "content w' q = Some b" if "content w q = Some b" "q \<notin> {sub dir ''state.json'', sub dir ''state.json.tmp''}" for q b
    using holds_still_content [OF R(1) _ that(1)] that(2) unfolding state_paths_def by blast
  with R(4) [OF _ made leaf_path_settled] apart show ?thesis by blast
qed

theorem racing_appends_write_once_witness:
  "\<exists>w n w' ps. sys_steps n (w, map (append_session ref_env w_dir) [[7], [8]]) (w', ps) \<and> returned_ok (ps ! 0) \<and> returned_ok (ps ! 1) \<and>
     content w' (leaf_path w_dir 0) = Some [1] \<and>
     (\<forall>store i h store' i' h'. ps ! 0 = Ret (Ok (store, i, h)) \<and> ps ! 1 = Ret (Ok (store', i', h')) \<longrightarrow> i' \<noteq> i)"
proof -
  obtain w where w: "calm w" "log_in ref_env w_dir w_origin [[1]] w" by (rule w_log1)
  then obtain C D where cd: "sees w C D" "log_at ref_env w_dir w_origin [[1]] [[1]] C D" by (auto simp: log_in_def)
  have "length [[1] :: bytes] + 2 \<le> ct_max_leaves" by (simp add: ct_max_leaves_def)
  from race [OF ref_env_ok w this, of "[7]" "[8]"] obtain n x y v where
    v: "sys_steps n (w, map (append_session ref_env w_dir) [[7], [8]]) (v, [Ret (Ok x), Ret (Ok y)])" by auto
  have "wf_fs w" "content w (leaf_path w_dir 0) = Some [1]"
    using cd log_atD(8) [OF cd(2), of 0] by (auto simp: sees_def)
  moreover have "leaf_path w_dir 0 \<notin> {sub w_dir ''state.json'', sub w_dir ''state.json.tmp''}"
    using store_paths(5) [of w_dir 0] by blast
  moreover note racing_appends_write_once [OF \<open>wf_fs w\<close> v]
  ultimately have "content v (leaf_path w_dir 0) = Some [1]" and
    "\<And>store i h store' i' h'. [Ret (Ok x), Ret (Ok y)] ! 0 = Ret (Ok (store, i, h)) \<Longrightarrow>
       [Ret (Ok x), Ret (Ok y)] ! 1 = Ret (Ok (store', i', h')) \<Longrightarrow> i' \<noteq> i"
    by (blast, fastforce)
  with v show ?thesis
    by (intro exI [of _ w] exI [of _ n] exI [of _ v] exI [of _ "[Ret (Ok x), Ret (Ok y)]"]) (auto simp: returned_ok_def)
qed

text \<open>C32 (concurrent appends can corrupt): on any log with room for two leaves, two appends that run at the same time without a
  single failing call have an interleaving after which both have returned an index, while every later open
  rejects the directory as corrupt (unless the first leaf is empty or SHA-256 collides on the strings hashed).\<close>

theorem racing_appends_corrupt:
  fixes env :: "'t store_env"
  assumes "env_ok env" and "calm w" and "log_in env dir origin ls w" and "length ls + 2 \<le> ct_max_leaves" and "l \<noteq> []"
    and "collision_free (env_sha env) (set (mth_inputs (env_sha env) (ls @ [[], l'])) \<union> set (mth_inputs (env_sha env) (ls @ [l, l'])))"
  shows "\<exists>n x y v msg. sys_steps n (w, map (append_session env dir) [l, l']) (v, [Ret (Ok x), Ret (Ok y)]) \<and>
    run (store_open env dir) v = (Err (LogDirInvalid dir msg), v)"
proof -
  obtain n x y v C D where v: "sys_steps n (w, map (append_session env dir) [l, l']) (v, [Ret (Ok x), Ret (Ok y)])"
    "calm v" "sees v C D" "log_at env dir origin (ls @ [l, l']) (ls @ [[], l']) C D"
    using race [OF assms(1-4), of l l'] by auto
  have "mth (env_sha env) (ls @ [[], l']) \<noteq> mth (env_sha env) (ls @ [l, l'])"
    using mth_inj [OF env_okD(2) [OF assms(1)] _ _ assms(6)] assms(5) by auto
  then have "\<exists>msg. run (store_open env dir) v = (Err (LogDirInvalid dir msg), v)"
    using open_mismatch [OF assms(1) v(2-4)] by simp
  with v(1) show ?thesis by blast
qed

theorem racing_appends_corrupt_witness:
  "\<exists>w n x y v msg. log_in ref_env w_dir w_origin [] w \<and>
     sys_steps n (w, map (append_session ref_env w_dir) [[7], [8]]) (v, [Ret (Ok x), Ret (Ok y)]) \<and>
     run (store_open ref_env w_dir) v = (Err (LogDirInvalid w_dir msg), v)"
proof -
  obtain w where w: "calm w" "log_in ref_env w_dir w_origin [] w" by (rule w_log)
  have "length ([] :: bytes list) + 2 \<le> ct_max_leaves" by (simp add: ct_max_leaves_def)
  moreover have "env_sha ref_env = ref_sha" by (simp add: ref_env_def)
  then have "collision_free (env_sha ref_env) (set (mth_inputs (env_sha ref_env) ([] @ [[], [8]])) \<union>
      set (mth_inputs (env_sha ref_env) ([] @ [[7], [8]])))"
    using race_inputs_distinct by simp
  ultimately show ?thesis
    using racing_appends_corrupt [OF ref_env_ok w, of "[7]" "[8]"] w(2) by blast
qed

end
