(* ===== verification/Pem.thy ===== *)
theory Pem
  imports Cli_Base Crates
begin

text \<open>
  PEM framing of certificates: \<^verbatim>\<open>commands/pem.rs\<close>, with the parts of the standard library it uses
  (\<^verbatim>\<open>str::lines\<close> and the text of a \<^verbatim>\<open>Utf8Error\<close>).
\<close>

section \<open>Standard library\<close>

text \<open>\<^verbatim>\<open>str::lines\<close>: a line ends with a line feed, which is dropped with a carriage return before it;
  an empty rest after the last line feed is no line.\<close>

definition strip_cr :: "str \<Rightarrow> str" where
  "strip_cr s = (case strip_suffix s 13 of Some t \<Rightarrow> t | None \<Rightarrow> s)"

definition str_lines :: "str \<Rightarrow> str list" where
  "str_lines s = (let ps = split_on NL s in map strip_cr (butlast ps) @ (if last ps = [] then [] else [last ps]))"

text \<open>The text of the error of \<^verbatim>\<open>str::from_utf8\<close>: where the valid part ends, and how many bytes of a
  sequence are wrong, unless the input stops inside one.\<close>

definition utf8_second_ok :: "nat \<Rightarrow> nat \<Rightarrow> bool" where
  "utf8_second_ok b c \<longleftrightarrow>
     (if b < 0xE0 then 0x80 \<le> c \<and> c < 0xC0
      else if b = 0xE0 then 0xA0 \<le> c \<and> c < 0xC0
      else if b = 0xED then 0x80 \<le> c \<and> c < 0xA0
      else if b = 0xF0 then 0x90 \<le> c \<and> c < 0xC0
      else if b = 0xF4 then 0x80 \<le> c \<and> c < 0x90
      else 0x80 \<le> c \<and> c < 0xC0)"

definition utf8_invalid :: "nat \<Rightarrow> nat \<Rightarrow> str" where
  "utf8_invalid n i = lit ''invalid utf-8 sequence of '' @ dec n @ lit '' bytes from index '' @ dec i"

definition utf8_incomplete :: "nat \<Rightarrow> str" where
  "utf8_incomplete i = lit ''incomplete utf-8 byte sequence from index '' @ dec i"

fun utf8_error :: "nat \<Rightarrow> bytes \<Rightarrow> str" where
  "utf8_error i [] = []"
| "utf8_error i (b # bs) =
     (if unat b < 0x80 then utf8_error (Suc i) bs
      else if unat b < 0xC2 \<or> 0xF5 \<le> unat b then utf8_invalid 1 i
      else case bs of
        [] \<Rightarrow> utf8_incomplete i
      | c1 # r \<Rightarrow>
          if \<not> utf8_second_ok (unat b) (unat c1) then utf8_invalid 1 i
          else if unat b < 0xE0 then utf8_error (i + 2) r
          else case r of
            [] \<Rightarrow> utf8_incomplete i
          | c2 # r' \<Rightarrow>
              if \<not> is_cont c2 then utf8_invalid 2 i
              else if unat b < 0xF0 then utf8_error (i + 3) r'
              else case r' of
                [] \<Rightarrow> utf8_incomplete i
              | c3 # r'' \<Rightarrow> if \<not> is_cont c3 then utf8_invalid 3 i else utf8_error (i + 4) r'')"

section \<open>pem.rs\<close>

definition BEGIN_CERTIFICATE :: str where
  "BEGIN_CERTIFICATE = lit ''-----BEGIN CERTIFICATE-----''"

definition END_CERTIFICATE :: str where
  "END_CERTIFICATE = lit ''-----END CERTIFICATE-----''"

definition LINE_WIDTH :: nat where
  "LINE_WIDTH = 64"

text \<open>The loop over the characters of the body; \<open>i\<close> is the index of the next one.\<close>

fun push_body :: "nat \<Rightarrow> str \<Rightarrow> str" where
  "push_body i [] = []"
| "push_body i (c # cs) = (if i > 0 \<and> i mod LINE_WIDTH = 0 then [NL] else []) @ c # push_body (Suc i) cs"

definition encode_certificate :: "base64 \<Rightarrow> bytes \<Rightarrow> str" where
  "encode_certificate b64 der =
     (let body = b64_encode b64 der in
      BEGIN_CERTIFICATE @ [NL] @ push_body 0 body @ (if body \<noteq> [] then [NL] else []) @ END_CERTIFICATE @ [NL])"

definition decode_certificate :: "base64 \<Rightarrow> (str \<Rightarrow> str) \<Rightarrow> bytes \<Rightarrow> path \<Rightarrow> bytes cli_result" where
  "decode_certificate b64 dbg pem_bytes p =
     (case from_utf8 pem_bytes of
        None \<Rightarrow> Err (PemParse p (lit ''file is not UTF-8 text: '' @ utf8_error 0 pem_bytes))
      | Some t \<Rightarrow>
          let lines = filter (\<lambda>line. line \<noteq> []) (map str_trim (str_lines t)) in
          if lines = [] then Err (PemParse p (lit ''file is empty''))
          else if hd lines \<noteq> BEGIN_CERTIFICATE
          then Err (PemParse p (lit ''first line must be '' @ dbg BEGIN_CERTIFICATE))
          else if length lines < 2 \<or> last lines \<noteq> END_CERTIFICATE
          then Err (PemParse p (lit ''last line must be '' @ dbg END_CERTIFICATE))
          else
            let body = concat (butlast (tl lines)) in
            if body = [] then Err (PemParse p (lit ''certificate body is empty''))
            else map_err (\<lambda>source. PemParse p (lit ''certificate body is not valid base64: '' @ source))
              (of_sum (b64_decode b64 body)))"

section \<open>Lemmas\<close>

lemma split_on_append_general: "split_on c (xs @ c # ys) = split_on c xs @ split_on c ys"
proof (induction c xs rule: split_on.induct)
  case (2 c x xs)
  then show ?case by (cases "split_on c xs") auto
qed simp

lemma trim_id: "list_all (\<lambda>c. \<not> is_whitespace c) s \<Longrightarrow> str_trim s = s"
proof -
  assume "list_all (\<lambda>c. \<not> is_whitespace c) s"
  then have "\<forall>c \<in> set s. \<not> is_whitespace c" by (simp add: list_all_iff)
  moreover from this have "\<forall>c \<in> set (rev s). \<not> is_whitespace c" by simp
  ultimately show ?thesis
    unfolding str_trim_def by (metis dropWhile_eq_self_iff hd_in_set rev_rev_ident)
qed

lemma b64_not_space: "is_b64_char c \<Longrightarrow> \<not> is_whitespace c \<and> c \<noteq> NL \<and> c \<noteq> 13 \<and> c < 128"
  by (auto simp: is_b64_char_def is_whitespace_def is_ascii_digit_def)

lemma push_body_pieces:
  "list_all is_b64_char cs \<Longrightarrow>
   concat (split_on NL (push_body i cs)) = cs \<and> (\<forall>p \<in> set (split_on NL (push_body i cs)). list_all is_b64_char p)"
proof (induction cs arbitrary: i)
  case (Cons c cs)
  then have c: "c \<noteq> NL" "is_b64_char c" using b64_not_space by auto
  obtain p ps where p: "split_on NL (push_body (Suc i) cs) = p # ps"
    by (cases "split_on NL (push_body (Suc i) cs)") auto
  with Cons.IH [of "Suc i"] Cons.prems c show ?case by auto
qed simp

lemma concat_nonempty: "concat (filter (\<lambda>x. x \<noteq> []) xs) = concat xs"
  by (induction xs) auto

lemma strip_cr_id: "13 \<notin> set s \<Longrightarrow> strip_cr s = s"
  by (auto simp: strip_cr_def split: option.splits dest: strip_suffix_Some)

lemma boundary_lines:
  "NL \<notin> set BEGIN_CERTIFICATE" "NL \<notin> set END_CERTIFICATE" "13 \<notin> set BEGIN_CERTIFICATE" "13 \<notin> set END_CERTIFICATE"
  "str_trim BEGIN_CERTIFICATE = BEGIN_CERTIFICATE" "str_trim END_CERTIFICATE = END_CERTIFICATE"
  "BEGIN_CERTIFICATE \<noteq> []" "END_CERTIFICATE \<noteq> []"
  "list_all (\<lambda>c. c < 128) BEGIN_CERTIFICATE" "list_all (\<lambda>c. c < 128) END_CERTIFICATE"
  by (simp_all add: BEGIN_CERTIFICATE_def END_CERTIFICATE_def str_trim_def is_whitespace_def)

lemma push_body_ascii: "list_all (\<lambda>c. c < 128) cs \<Longrightarrow> list_all (\<lambda>c. c < 128) (push_body i cs)"
  by (induction cs arbitrary: i) auto

text \<open>The lines of an encoded certificate: the boundaries and between them pieces of the body.\<close>

lemma certificate_lines:
  assumes "base64_standard b64" and "der \<noteq> []"
  defines "ps \<equiv> split_on NL (push_body 0 (b64_encode b64 der))"
  shows "map str_trim (str_lines (encode_certificate b64 der)) = BEGIN_CERTIFICATE # ps @ [END_CERTIFICATE]"
proof -
  let ?body = "b64_encode b64 der"
  have "list_all is_b64_char ?body" using base64_chars [OF assms(1)] by (auto simp: list_all_iff)
  from push_body_pieces [OF this, of 0] have c: "\<forall>p \<in> set ps. list_all is_b64_char p" by (simp add: ps_def)
  then have "p \<in> set ps \<Longrightarrow> strip_cr p = p" for p
    using b64_not_space by (intro strip_cr_id) (fastforce simp: list_all_iff)
  then have cr: "map strip_cr ps = ps" by (simp add: map_idI)
  have "p \<in> set ps \<Longrightarrow> str_trim p = p" for p
    using c b64_not_space by (intro trim_id) (fastforce simp: list_all_iff)
  then have tr: "map str_trim ps = ps" by (simp add: map_idI)
  have "encode_certificate b64 der = BEGIN_CERTIFICATE @ NL # (push_body 0 ?body @ NL # (END_CERTIFICATE @ NL # []))"
    using base64_not_Nil [OF assms(1,2)] by (simp add: encode_certificate_def Let_def)
  then have "split_on NL (encode_certificate b64 der) = (BEGIN_CERTIFICATE # ps @ [END_CERTIFICATE]) @ [[]]"
    by (simp only: split_on_append_general split_on_piece [OF boundary_lines(1)] split_on_piece [OF boundary_lines(2)] ps_def)
      (simp add: split_on_piece)
  then show ?thesis
    by (simp add: str_lines_def Let_def strip_cr_id boundary_lines cr tr del: append_Cons)
qed

theorem decode_encode:
  assumes "base64_standard b64" and "der \<noteq> []"
  shows "decode_certificate b64 dbg (utf8_encode (encode_certificate b64 der)) p = Ok der"
proof -
  let ?body = "b64_encode b64 der" and ?ps = "split_on NL (push_body 0 (b64_encode b64 der))"
  let ?lines = "filter (\<lambda>line. line \<noteq> []) (map str_trim (str_lines (encode_certificate b64 der)))"
  have "list_all is_b64_char ?body" using base64_chars [OF assms(1)] by (auto simp: list_all_iff)
  from push_body_pieces [OF this, of 0] have "concat ?ps = ?body" by simp
  then have body: "concat (filter (\<lambda>line. line \<noteq> []) ?ps) = ?body" by (simp add: concat_nonempty)
  have lines: "?lines = BEGIN_CERTIFICATE # filter (\<lambda>line. line \<noteq> []) ?ps @ [END_CERTIFICATE]"
    unfolding certificate_lines [OF assms] using boundary_lines(7,8) by simp
  have "list_all (\<lambda>c. c < 128) (encode_certificate b64 der)"
    using push_body_ascii [OF base64_ascii [OF assms(1)]] boundary_lines(9,10) by (simp add: encode_certificate_def Let_def)
  from from_utf8_encode [OF wf_str_ascii [OF this]]
  show ?thesis
    unfolding decode_certificate_def Let_def using base64_not_Nil [OF assms] assms(1) by (simp add: lines body)
qed

end
