(* ===== verification/Ca_Model.thy ===== *)
theory Ca_Model
  imports Identity Hex Pem
begin

text \<open>
  The certificate authority: \<^verbatim>\<open>ca/authority.rs\<close>, \<^verbatim>\<open>ca/certificate.rs\<close> and
  \<^verbatim>\<open>ca/extensions.rs\<close>. The crates rcgen, x509-parser, chrono and time are parameters.
\<close>

section \<open>Crates\<close>

text \<open>An instant of chrono: seconds since the epoch and nanoseconds within the second. Instants are
  ordered by seconds and then by nanoseconds.\<close>

record datetime =
  dt_secs :: int
  dt_nanos :: nat

definition dt_less :: "datetime \<Rightarrow> datetime \<Rightarrow> bool" where
  "dt_less a b \<longleftrightarrow> dt_secs a < dt_secs b \<or> (dt_secs a = dt_secs b \<and> dt_nanos a < dt_nanos b)"

text \<open>Durations are nanoseconds. \<open>ch_from_std\<close> is \<^verbatim>\<open>chrono::Duration::from_std\<close>, \<open>ch_add\<close>
  \<^verbatim>\<open>checked_add_signed\<close>, and \<open>tm_from_unix\<close> is \<^verbatim>\<open>OffsetDateTime::from_unix_timestamp\<close> of the time
  crate, which gives the same second.\<close>

record chrono =
  ch_from_std :: "nat \<Rightarrow> str + int"
  ch_add :: "datetime \<Rightarrow> int \<Rightarrow> datetime option"
  ch_with_nanosecond :: "datetime \<Rightarrow> nat \<Rightarrow> datetime option"
  ch_from_timestamp :: "int \<Rightarrow> nat \<Rightarrow> datetime option"
  ch_display :: "datetime \<Rightarrow> str"
  ch_rfc3339 :: "datetime \<Rightarrow> str"
  ch_parse_rfc3339 :: "str \<Rightarrow> str + datetime"
  tm_from_unix :: "int \<Rightarrow> str + int"

datatype dn_type = CommonName

type_synonym distinguished_name = "(dn_type \<times> str) list"

datatype is_ca = NoCa | ExplicitNoCa | Ca_Unconstrained

record custom_extension =
  ce_oid :: "u64 list"
  ce_content :: bytes
  ce_critical :: bool

record cert_params =
  cp_distinguished_name :: distinguished_name
  cp_is_ca :: is_ca
  cp_not_before :: int
  cp_not_after :: int
  cp_custom_extensions :: "custom_extension list"

text \<open>rcgen, with keys of type \<open>'k\<close> and certificates of type \<open>'c\<close>: \<open>rc_from_remote\<close> takes what a
  \<^verbatim>\<open>RemoteKeyPair\<close> offers, \<open>rc_params\<close> is \<^verbatim>\<open>CertificateParams::new\<close> without names. \<open>pkcs8_seed\<close> is
  \<^verbatim>\<open>SigningKey::from_pkcs8_der\<close> of ed25519-dalek.\<close>

record ('k, 'c) rcgen =
  rc_from_remote :: "bytes \<Rightarrow> (bytes \<Rightarrow> bytes) \<Rightarrow> str + 'k"
  rc_params :: "str + cert_params"
  rc_self_signed :: "cert_params \<Rightarrow> 'k \<Rightarrow> str + 'c"
  rc_signed_by :: "cert_params \<Rightarrow> 'k \<Rightarrow> 'c \<Rightarrow> 'k \<Rightarrow> str + 'c"
  rc_der :: "'c \<Rightarrow> bytes"
  rc_public_raw :: "'k \<Rightarrow> bytes"
  rc_pkcs8 :: "'k \<Rightarrow> bytes"
  pkcs8_seed :: "bytes \<Rightarrow> str + bytes"

text \<open>x509-parser: what the code reads of a certificate. \<open>x_extension\<close> is \<^verbatim>\<open>get_extension_unique\<close>.\<close>

record x509_certificate =
  xc_subject_raw :: bytes
  xc_issuer_raw :: bytes
  xc_signature_algorithm :: "nat list"
  xc_tbs :: bytes
  xc_signature :: bytes
  xc_not_before :: int
  xc_not_after :: int

record x509 =
  x_from_der :: "bytes \<Rightarrow> str + x509_certificate"
  x_oid_ok :: "u64 list \<Rightarrow> bool"
  x_extension :: "x509_certificate \<Rightarrow> u64 list \<Rightarrow> str + bytes option"

definition OID_SIG_ED25519 :: "nat list" where
  "OID_SIG_ED25519 = [1, 3, 101, 112]"

section \<open>extensions.rs\<close>

definition LYS_OID_ARC :: "u64 list" where
  "LYS_OID_ARC = [1, 3, 6, 1, 4, 1, 58888]"

definition encode_extension :: "u64 list \<Rightarrow> bytes \<Rightarrow> custom_extension" where
  "encode_extension oid payload_bytes = \<lparr>ce_oid = oid, ce_content = payload_bytes, ce_critical = False\<rparr>"

definition parse_certificate :: "x509 \<Rightarrow> bytes \<Rightarrow> x509_certificate trust_result" where
  "parse_certificate x cert_der =
     map_err (\<lambda>e. CertificateParsing (lit ''failed to parse certificate DER: '' @ e)) (of_sum (x_from_der x cert_der))"

definition decode_extension :: "x509 \<Rightarrow> bytes \<Rightarrow> u64 list \<Rightarrow> bytes option trust_result" where
  "decode_extension x cert_der oid =
     res_bind (parse_certificate x cert_der) (\<lambda>certificate.
     if \<not> x_oid_ok x oid
     then Err (CertificateParsing (lit ''extension lookup OID is not a well-formed object identifier''))
     else map_err (\<lambda>e. CertificateParsing (lit ''duplicate or malformed extension for OID lookup: '' @ e))
       (of_sum (x_extension x certificate oid)))"

section \<open>certificate.rs\<close>

record issued_certificate =
  ic_der_bytes :: bytes
  ic_subject_signing_key :: bytes
  ic_subject_verifying_key :: bytes
  ic_fingerprint :: bytes
  ic_expires_at :: datetime
  ic_issuer_public_key :: bytes

definition from_der_and_keypair ::
  "sha256 \<Rightarrow> ed25519 \<Rightarrow> ('k, 'c) rcgen \<Rightarrow> bytes \<Rightarrow> 'k \<Rightarrow> datetime \<Rightarrow> bytes \<Rightarrow> issued_certificate trust_result" where
  "from_der_and_keypair sha ed rc der_bytes subject_keypair expires_at issuer_public_key =
     (let raw_public = rc_public_raw rc subject_keypair in
      if length raw_public \<noteq> 32
      then Err (CertificateGeneration (lit ''subject public key must be 32 bytes for Ed25519, got '' @ dec (length raw_public)))
      else
        res_bind (map_err (\<lambda>e. CertificateGeneration (lit ''failed to load subject signing key from PKCS#8: '' @ e))
          (of_sum (pkcs8_seed rc (rc_pkcs8 rc subject_keypair)))) (\<lambda>subject_signing_key.
        let subject_verifying_key = ed_public ed subject_signing_key in
        if subject_verifying_key \<noteq> raw_public
        then Err (CertificateGeneration (lit ''subject keypair public and private halves do not match''))
        else Ok \<lparr>ic_der_bytes = der_bytes, ic_subject_signing_key = subject_signing_key,
          ic_subject_verifying_key = subject_verifying_key, ic_fingerprint = sha der_bytes,
          ic_expires_at = expires_at, ic_issuer_public_key = issuer_public_key\<rparr>))"

text \<open>The \<^verbatim>\<open>Debug\<close> form; \<open>dbg_time\<close> is the one of the \<^verbatim>\<open>chrono\<close> crate.\<close>

definition debug_issued_certificate :: "(datetime \<Rightarrow> str) \<Rightarrow> issued_certificate \<Rightarrow> str" where
  "debug_issued_certificate dbg_time c =
     lit ''IssuedCertificate { der_bytes_len: '' @ dec (length (ic_der_bytes c)) @
     lit '', subject_signing_key: '' @ [34] @ lit ''[REDACTED]'' @ [34] @
     lit '', subject_verifying_key: '' @ [34] @ hex_lower (ic_subject_verifying_key c) @ [34] @
     lit '', fingerprint: '' @ [34] @ hex_lower (ic_fingerprint c) @ [34] @
     lit '', expires_at: '' @ dbg_time (ic_expires_at c) @
     lit '', issuer_public_key: '' @ [34] @ hex_lower (ic_issuer_public_key c) @ [34] @ lit '' }''"

text \<open>It says nothing about the signing key.\<close>

lemma debug_issued_certificate_redacted:
  "debug_issued_certificate dbg_time (c\<lparr>ic_subject_signing_key := k\<rparr>) = debug_issued_certificate dbg_time c"
  by (simp add: debug_issued_certificate_def del: lit_simps)

section \<open>authority.rs\<close>

record certificate_authority =
  ca_identity :: identity

definition authority_new :: "identity \<Rightarrow> certificate_authority" where
  "authority_new identity = \<lparr>ca_identity = identity\<rparr>"

definition authority_public_key :: "certificate_authority \<Rightarrow> bytes" where
  "authority_public_key ca = public_key_bytes (ca_identity ca)"

text \<open>\<^verbatim>\<open>IdentitySigner\<close>: the public key and the signing operation that rcgen sees.\<close>

record identity_signer =
  is_public_key :: bytes
  is_sign :: "bytes \<Rightarrow> bytes"

definition identity_signer_new :: "ed25519 \<Rightarrow> identity \<Rightarrow> identity_signer" where
  "identity_signer_new ed identity = \<lparr>is_public_key = public_key_bytes identity, is_sign = sign ed identity\<rparr>"

definition distinguished_name :: "str \<Rightarrow> distinguished_name" where
  "distinguished_name common_name = [(CommonName, common_name)]"

definition to_offset_date_time :: "chrono \<Rightarrow> datetime \<Rightarrow> int trust_result" where
  "to_offset_date_time ch instant =
     map_err (\<lambda>e. CertificateGeneration (lit ''certificate validity instant is out of range: '' @ e))
       (of_sum (tm_from_unix ch (dt_secs instant)))"

definition issuer_key_pair :: "ed25519 \<Rightarrow> ('k, 'c) rcgen \<Rightarrow> certificate_authority \<Rightarrow> 'k trust_result" where
  "issuer_key_pair ed rc ca =
     (let remote = identity_signer_new ed (ca_identity ca) in
      map_err (\<lambda>e. CertificateGeneration (lit ''failed to construct issuer key from identity: '' @ e))
        (of_sum (rc_from_remote rc (is_public_key remote) (is_sign remote))))"

definition issuer_certificate :: "('k, 'c) rcgen \<Rightarrow> certificate_authority \<Rightarrow> 'k \<Rightarrow> 'c trust_result" where
  "issuer_certificate rc ca issuer_key =
     res_bind (map_err (\<lambda>e. CertificateGeneration (lit ''failed to build issuer parameters: '' @ e)) (of_sum (rc_params rc))) (\<lambda>params.
     let common_name = hex_lower (public_key_bytes (ca_identity ca));
         params = params\<lparr>cp_distinguished_name := distinguished_name common_name, cp_is_ca := Ca_Unconstrained\<rparr> in
     map_err (\<lambda>e. CertificateGeneration (lit ''failed to build issuer certificate: '' @ e))
       (of_sum (rc_self_signed rc params issuer_key)))"

text \<open>\<open>subject_key\<close> is what \<^verbatim>\<open>KeyPair::generate_for\<close> returns, \<open>now\<close> the clock reading, \<open>ttl\<close> nanoseconds.\<close>

definition issue_certificate ::
  "sha256 \<Rightarrow> ed25519 \<Rightarrow> chrono \<Rightarrow> ('k, 'c) rcgen \<Rightarrow> str + 'k \<Rightarrow> datetime \<Rightarrow> certificate_authority \<Rightarrow> str \<Rightarrow> nat
     \<Rightarrow> custom_extension list \<Rightarrow> issued_certificate trust_result" where
  "issue_certificate sha ed ch rc subject_key now ca subject ttl extensions =
     (if str_trim subject = [] then Err (CertificateGeneration (lit ''certificate subject must not be empty''))
      else if ttl = 0 then Err (CertificateGeneration (lit ''certificate TTL must be positive''))
      else
        res_bind (issuer_key_pair ed rc ca) (\<lambda>issuer_key.
        res_bind (issuer_certificate rc ca issuer_key) (\<lambda>issuer_cert.
        res_bind (map_err (\<lambda>e. CertificateGeneration (lit ''failed to generate Ed25519 subject keypair: '' @ e))
          (of_sum subject_key)) (\<lambda>subject_key.
        let issued_at = now in
        res_bind (map_err (\<lambda>e. CertificateGeneration (lit ''certificate TTL is out of representable range: '' @ e))
          (of_sum (ch_from_std ch ttl))) (\<lambda>ttl.
        res_bind (ok_or (CertificateGeneration (lit ''certificate expiry overflowed the supported date range''))
          (ch_add ch issued_at ttl)) (\<lambda>expires_at.
        res_bind (ok_or (CertificateGeneration (lit ''certificate expiry could not be truncated to whole seconds''))
          (ch_with_nanosecond ch expires_at 0)) (\<lambda>expires_at.
        res_bind (map_err (\<lambda>e. CertificateGeneration (lit ''failed to build certificate parameters: '' @ e))
          (of_sum (rc_params rc))) (\<lambda>params.
        res_bind (to_offset_date_time ch issued_at) (\<lambda>not_before.
        res_bind (to_offset_date_time ch expires_at) (\<lambda>not_after.
        let params = params\<lparr>cp_distinguished_name := distinguished_name subject, cp_is_ca := ExplicitNoCa,
              cp_not_before := not_before, cp_not_after := not_after, cp_custom_extensions := extensions\<rparr> in
        res_bind (map_err (\<lambda>e. CertificateGeneration (lit ''failed to sign certificate: '' @ e))
          (of_sum (rc_signed_by rc params subject_key issuer_cert issuer_key))) (\<lambda>certificate.
        from_der_and_keypair sha ed rc (rc_der rc certificate) subject_key expires_at
          (public_key_bytes (ca_identity ca))))))))))))) "

definition datetime_from_asn1_timestamp :: "chrono \<Rightarrow> int \<Rightarrow> str \<Rightarrow> datetime trust_result" where
  "datetime_from_asn1_timestamp ch timestamp field =
     ok_or (CertificateParsing (lit ''certificate '' @ field @ lit '' timestamp '' @ dec_int timestamp @
         lit '' is outside the representable date range''))
       (ch_from_timestamp ch timestamp 0)"

definition check_validity_window :: "chrono \<Rightarrow> x509_certificate \<Rightarrow> datetime \<Rightarrow> unit trust_result" where
  "check_validity_window ch certificate at =
     res_bind (datetime_from_asn1_timestamp ch (xc_not_before certificate) (lit ''notBefore'')) (\<lambda>not_before.
     res_bind (datetime_from_asn1_timestamp ch (xc_not_after certificate) (lit ''notAfter'')) (\<lambda>not_after.
     if dt_less at not_before
     then Err (CertificateVerification (lit ''certificate not yet valid: notBefore is '' @ ch_display ch not_before @
       lit '', checked at '' @ ch_display ch at))
     else if dt_less not_after at
     then Err (CertificateVerification (lit ''certificate expired: notAfter was '' @ ch_display ch not_after @
       lit '', checked at '' @ ch_display ch at))
     else Ok ()))"

definition verify_certificate_chain_at ::
  "x509 \<Rightarrow> chrono \<Rightarrow> ed25519 \<Rightarrow> bytes \<Rightarrow> bytes \<Rightarrow> datetime \<Rightarrow> unit trust_result" where
  "verify_certificate_chain_at x ch ed cert_der issuer_public_key at =
     res_bind (parse_certificate x cert_der) (\<lambda>certificate.
     if xc_subject_raw certificate = xc_issuer_raw certificate
     then Err (CertificateVerification (lit ''self-signed certificate rejected (issuer equals subject)''))
     else if xc_signature_algorithm certificate \<noteq> OID_SIG_ED25519
     then Err (CertificateVerification (lit ''certificate signature algorithm is not Ed25519''))
     else
       let tbs = xc_tbs certificate; signature_bytes = xc_signature certificate in
       res_bind (ok_or (CertificateVerification
           (lit ''certificate signature must be 64 bytes for Ed25519, got '' @ dec (length signature_bytes)))
         (try_into_array 64 signature_bytes)) (\<lambda>signature.
       if \<not> ed_point_ok ed issuer_public_key
       then Err (CertificateVerification (lit ''issuer public key is not a valid Ed25519 point''))
       else if \<not> ed_verify_strict ed issuer_public_key tbs signature
       then Err (CertificateVerification (lit ''certificate signature did not verify against the issuer public key''))
       else check_validity_window ch certificate at))"

definition verify_certificate_chain :: "x509 \<Rightarrow> chrono \<Rightarrow> ed25519 \<Rightarrow> datetime \<Rightarrow> bytes \<Rightarrow> bytes \<Rightarrow> unit trust_result" where
  "verify_certificate_chain x ch ed now cert_der issuer_public_key =
     verify_certificate_chain_at x ch ed cert_der issuer_public_key now"

definition authority_verify_chain ::
  "x509 \<Rightarrow> chrono \<Rightarrow> ed25519 \<Rightarrow> datetime \<Rightarrow> certificate_authority \<Rightarrow> bytes \<Rightarrow> unit trust_result" where
  "authority_verify_chain x ch ed now ca cert_der =
     verify_certificate_chain x ch ed now cert_der (public_key_bytes (ca_identity ca))"

end
