(* ===== verification/Cli_Commands.thy ===== *)
theory Cli_Commands
  imports Log_Commands Seal_Model Ca_Model
begin

text \<open>
  The remaining commands of the tool and its entry point: \<^verbatim>\<open>commands/key.rs\<close>, \<^verbatim>\<open>attest.rs\<close>,
  \<^verbatim>\<open>verify.rs\<close>, \<^verbatim>\<open>seal.rs\<close>, \<^verbatim>\<open>ca.rs\<close>, \<^verbatim>\<open>cli.rs\<close> and \<^verbatim>\<open>main.rs\<close>. Random bytes and clock readings
  are arguments.
\<close>

section \<open>key.rs: inspect\<close>

definition key_inspect ::
  "ed25519 \<Rightarrow> seal_crypto \<Rightarrow> sha256 \<Rightarrow> base64 \<Rightarrow> path \<Rightarrow> str option \<Rightarrow> unit cli_result prog" where
  "key_inspect ed c sha b64 key note_name =
     rbind (load_identity ed key) (\<lambda>identity.
     rbind (print_lines
       [lit ''identity key: '' @ display_path key,
        lit ''public key (ed25519): '' @ cli_hex_lower (public_key_bytes identity),
        lit ''public key (x25519): '' @ cli_hex_lower (x25519_public_key c identity)]) (\<lambda>_.
     case note_name of
       None \<Rightarrow> Ret (Ok ())
     | Some name \<Rightarrow>
         rbind (Ret (map_err Trust (verifier_key_new sha name (public_key_bytes identity)))) (\<lambda>verifier.
         print_lines [lit ''verifier key (signed-note): '' @ to_spec b64 verifier])))"

section \<open>attest.rs and verify.rs\<close>

definition attest_run ::
  "sha256 \<Rightarrow> ed25519 \<Rightarrow> i64 \<Rightarrow> path \<Rightarrow> path \<Rightarrow> path \<Rightarrow> unit cli_result prog" where
  "attest_run sha ed now key payload out =
     rbind (load_identity ed key) (\<lambda>identity.
     rbind (read_file payload (lit ''payload file'')) (\<lambda>payload_bytes.
     let attestation = sign_attestation sha ed now payload_bytes identity in
     rbind (write_file out (to_cose_bytes attestation) (lit ''attestation file'')) (\<lambda>_.
     print_lines
       [lit ''attested payload: '' @ display_path payload,
        lit ''payload hash (sha256): '' @ cli_hex_lower (att_payload_hash attestation),
        lit ''signer public key (ed25519): '' @ cli_hex_lower (att_signer_public_key attestation),
        lit ''signed at (unix ms): '' @ dec_int (sint (att_timestamp attestation)),
        lit ''attestation written: '' @ display_path out @ lit '' (COSE_Sign1, application/cose)''])))"

definition verify_run ::
  "cbor_reader \<Rightarrow> sha256 \<Rightarrow> ed25519 \<Rightarrow> path \<Rightarrow> path \<Rightarrow> unit cli_result prog" where
  "verify_run rd sha ed attestation_path payload_path =
     rbind (read_file attestation_path (lit ''attestation file'')) (\<lambda>artifact_bytes.
     rbind (read_file payload_path (lit ''payload file'')) (\<lambda>payload.
     case verify_attestation_bytes rd sha ed artifact_bytes payload of
       Ok attestation \<Rightarrow>
         print_lines
           [lit ''attestation verified'',
            lit ''signer public key (ed25519): '' @ cli_hex_lower (att_signer_public_key attestation),
            lit ''payload hash (sha256): '' @ cli_hex_lower (att_payload_hash attestation),
            lit ''signed at (unix ms): '' @ dec_int (sint (att_timestamp attestation))]
     | Err InvalidSignature \<Rightarrow> Ret (Err VerificationFailed)
     | Err other \<Rightarrow> Ret (Err (Trust other))
     | Panic \<Rightarrow> Ret Panic))"

section \<open>seal.rs\<close>

definition seal_cmd ::
  "seal_crypto \<Rightarrow> sha256 \<Rightarrow> ed25519 \<Rightarrow> sealed_envelope json \<Rightarrow> bytes \<Rightarrow> i64 \<Rightarrow> path \<Rightarrow> str \<Rightarrow> path \<Rightarrow> path \<Rightarrow> path
     \<Rightarrow> unit cli_result prog" where
  "seal_cmd c sha ed j ephemeral_seed now key recipient_public_key payload out attestation_out =
     rbind (load_identity ed key) (\<lambda>identity.
     rbind (Ret (ok_or InvalidRecipientPublicKey (parse_hex_32 recipient_public_key))) (\<lambda>recipient.
     rbind (read_file payload (lit ''payload file'')) (\<lambda>payload_bytes.
     rbind (Ret (map_err Trust (sign_and_seal c sha ed ephemeral_seed now payload_bytes identity recipient)))
       (\<lambda>(envelope, attestation).
     rbind (Ret (map_err (\<lambda>source. JsonSerialize (lit ''sealed envelope'') source) (of_sum (to_pretty j envelope))))
       (\<lambda>envelope_json.
     rbind (write_file out (utf8_encode (envelope_json @ [NL])) (lit ''sealed envelope file'')) (\<lambda>_.
     pbind (write_file attestation_out (to_cose_bytes attestation) (lit ''seal attestation file'')) (\<lambda>r. case r of
       Err error \<Rightarrow>
         pbind (fs_unit (Remove_file out)) (\<lambda>removed. case removed of
           Err cleanup \<Rightarrow>
             rbind (eprintln (lit ''warning: failed to remove partial sealed envelope '' @ display_path out @ lit '': '' @
               io_text cleanup)) (\<lambda>_. Ret (Err error))
         | Ok _ \<Rightarrow> Ret (Err error)
         | Panic \<Rightarrow> Ret Panic)
     | Panic \<Rightarrow> Ret Panic
     | Ok _ \<Rightarrow>
         print_lines
           [lit ''sealed payload: '' @ display_path payload,
            lit ''recipient public key (x25519): '' @ cli_hex_lower recipient,
            lit ''sender public key (ed25519): '' @ cli_hex_lower (att_signer_public_key attestation),
            lit ''sealed envelope written: '' @ display_path out,
            lit ''seal attestation written: '' @ display_path attestation_out @ lit '' (COSE_Sign1, application/cose)''])))))))"

definition open_cmd ::
  "seal_crypto \<Rightarrow> sha256 \<Rightarrow> ed25519 \<Rightarrow> cbor_reader \<Rightarrow> sealed_envelope json \<Rightarrow> path \<Rightarrow> str \<Rightarrow> path \<Rightarrow> path \<Rightarrow> path
     \<Rightarrow> unit cli_result prog" where
  "open_cmd c sha ed rd j key sender_public_key envelope attestation out =
     rbind (load_identity ed key) (\<lambda>identity.
     rbind (Ret (ok_or InvalidSenderPublicKey (parse_hex_32 sender_public_key))) (\<lambda>sender.
     rbind (read_file envelope (lit ''sealed envelope file'')) (\<lambda>envelope_bytes.
     rbind (Ret (map_err (\<lambda>source. JsonParse (lit ''sealed envelope'') envelope source) (of_sum (from_json j envelope_bytes))))
       (\<lambda>sealed.
     rbind (read_file attestation (lit ''seal attestation file'')) (\<lambda>attestation_bytes.
     rbind (Ret (map_err (\<lambda>_. OpenFailed) (from_cose_bytes rd attestation_bytes))) (\<lambda>seal_attestation.
     rbind (Ret (map_err (\<lambda>_. OpenFailed)
       (open_and_verify c sha ed sealed seal_attestation sender (x25519_static_secret c identity)))) (\<lambda>plaintext.
     rbind (write_file_private out plaintext (lit ''opened payload file'')) (\<lambda>_.
     print_lines
       [lit ''sealed envelope opened'',
        lit ''sender public key (ed25519): '' @ cli_hex_lower sender,
        lit ''payload bytes: '' @ dec (length plaintext),
        lit ''payload written: '' @ display_path out]))))))))"

section \<open>ca.rs\<close>

definition CAPABILITY_CLAIMS_COMPONENT :: u64 where
  "CAPABILITY_CLAIMS_COMPONENT = 1"

definition SECONDS_PER_DAY :: nat where
  "SECONDS_PER_DAY = 86400"

definition capability_claims_oid :: "u64 list" where
  "capability_claims_oid = LYS_OID_ARC @ [CAPABILITY_CLAIMS_COMPONENT]"

text \<open>\<^verbatim>\<open>char::is_control\<close>: the Unicode category Cc.\<close>

definition is_control :: "nat \<Rightarrow> bool" where
  "is_control c \<longleftrightarrow> c < 32 \<or> (127 \<le> c \<and> c < 160)"

definition is_terminal_safe :: "str \<Rightarrow> bool" where
  "is_terminal_safe s \<longleftrightarrow> list_all (\<lambda>c. \<not> is_control c \<or> c = NL \<or> c = 9) s"

text \<open>\<open>value_error\<close> is the error of \<^verbatim>\<open>serde_json::from_slice::<Value>\<close>, if it fails.\<close>

definition ca_issue ::
  "sha256 \<Rightarrow> base64 \<Rightarrow> ed25519 \<Rightarrow> chrono \<Rightarrow> ('k, 'c) rcgen \<Rightarrow> (bytes \<Rightarrow> str option) \<Rightarrow> str + 'k \<Rightarrow> datetime
     \<Rightarrow> path \<Rightarrow> str \<Rightarrow> path option \<Rightarrow> u32 \<Rightarrow> path \<Rightarrow> unit cli_result prog" where
  "ca_issue sha b64 ed ch rc value_error subject_key now key subject claims validity_days out =
     rbind (load_identity ed key) (\<lambda>identity.
     rbind
       (case claims of
          Some claims_path \<Rightarrow>
            rbind (read_file claims_path (lit ''claims file'')) (\<lambda>claims_bytes.
            Ret (case value_error claims_bytes of
              Some source \<Rightarrow> Err (ClaimsJsonParse claims_path source)
            | None \<Rightarrow> Ok [encode_extension capability_claims_oid claims_bytes]))
        | None \<Rightarrow> Ret (Ok [])) (\<lambda>extensions.
     let ttl = unat validity_days * SECONDS_PER_DAY * 1000000000;
         authority = authority_new identity in
     rbind (Ret (map_err Trust (issue_certificate sha ed ch rc subject_key now authority subject ttl extensions))) (\<lambda>issued.
     rbind (write_file out (utf8_encode (encode_certificate b64 (ic_der_bytes issued))) (lit ''certificate file'')) (\<lambda>_.
     print_lines
       [lit ''issued certificate for subject: '' @ subject,
        lit ''subject public key (ed25519): '' @ cli_hex_lower (ic_subject_verifying_key issued),
        lit ''issuer public key (ed25519): '' @ cli_hex_lower (ic_issuer_public_key issued),
        lit ''fingerprint (sha256): '' @ cli_hex_lower (ic_fingerprint issued),
        lit ''expires at (rfc3339): '' @ ch_rfc3339 ch (ic_expires_at issued),
        (case claims of
           Some claims_path \<Rightarrow> lit ''capability claims embedded from: '' @ display_path claims_path
         | None \<Rightarrow> lit ''capability claims: none''),
        lit ''certificate written: '' @ display_path out]))))"

definition claims_line :: "bytes option \<Rightarrow> str" where
  "claims_line claims =
     (case claims of
        Some bs \<Rightarrow>
          (case from_utf8 bs of
             Some t \<Rightarrow>
               if is_terminal_safe t then lit ''capability claims: '' @ t
               else lit ''capability claims (hex): '' @ cli_hex_lower (utf8_encode t)
           | None \<Rightarrow> lit ''capability claims (hex): '' @ cli_hex_lower bs)
      | None \<Rightarrow> lit ''capability claims: none'')"

definition ca_verify ::
  "x509 \<Rightarrow> base64 \<Rightarrow> (str \<Rightarrow> str) \<Rightarrow> chrono \<Rightarrow> ed25519 \<Rightarrow> datetime \<Rightarrow> path \<Rightarrow> str \<Rightarrow> str option \<Rightarrow> unit cli_result prog" where
  "ca_verify x b64 dbg ch ed now cert issuer_public_key at =
     rbind (read_file cert (lit ''certificate file'')) (\<lambda>pem_bytes.
     rbind (Ret (decode_certificate b64 dbg pem_bytes cert)) (\<lambda>der.
     rbind (Ret (ok_or InvalidIssuerPublicKey (parse_hex_32 issuer_public_key))) (\<lambda>issuer.
     rbind (Ret (case at of
         Some value \<Rightarrow> map_err (\<lambda>source. InvalidTimestamp value source) (of_sum (ch_parse_rfc3339 ch value))
       | None \<Rightarrow> Ok now)) (\<lambda>checked_at.
     rbind (Ret (case verify_certificate_chain_at x ch ed der issuer checked_at of
         Ok _ \<Rightarrow> Ok ()
       | Err (CertificateVerification _) \<Rightarrow> Err CertificateVerificationFailed
       | Err other \<Rightarrow> Err (Trust other)
       | Panic \<Rightarrow> Panic)) (\<lambda>_.
     rbind (Ret (map_err Trust (decode_extension x der capability_claims_oid))) (\<lambda>claims.
     print_lines
       [lit ''certificate verified'',
        lit ''issuer public key (ed25519): '' @ cli_hex_lower issuer,
        lit ''checked at (rfc3339): '' @ ch_rfc3339 ch checked_at,
        claims_line claims]))))))"

section \<open>cli.rs\<close>

datatype key_command = Generate path | Inspect path "str option"

datatype log_prove_command = Prove_Inclusion path path u64 path | Prove_Consistency path path u64 path

datatype log_verify_command = Verify_Inclusion path path str | Verify_Consistency path str

datatype log_command =
    Init path str
  | Append path path
  | Checkpoint path path path
  | Prove log_prove_command
  | Verify_Log log_verify_command

datatype ca_command = Issue path str "path option" u32 path | Verify_Cert path str "str option"

datatype command =
    Key key_command
  | Ca ca_command
  | Log log_command
  | Attest path path path
  | Verify path path
  | Seal_Payload path str path path path
  | Open path str path path path

section \<open>main.rs\<close>

text \<open>The crates, and what one run of the process draws: its id, random bytes and clock readings.\<close>

record ('t, 'k, 'c) cli_env =
  ce_store :: "'t store_env"
  ce_ed :: ed25519
  ce_seal :: seal_crypto
  ce_cbor :: cbor_reader
  ce_x509 :: x509
  ce_chrono :: chrono
  ce_rcgen :: "('k, 'c) rcgen"
  ce_inclusion :: "inclusion_artifact json"
  ce_consistency :: "consistency_artifact json"
  ce_envelope :: "sealed_envelope json"
  ce_value_error :: "bytes \<Rightarrow> str option"
  ce_pid :: u32
  ce_random :: bytes
  ce_subject_key :: "str + 'k"
  ce_now_ms :: i64
  ce_now :: datetime

fun key_dispatch :: "('t, 'k, 'c) cli_env \<Rightarrow> key_command \<Rightarrow> unit cli_result prog" where
  "key_dispatch e (Generate out) = key_generate (ce_ed e) (ce_pid e) (ce_random e) out"
| "key_dispatch e (Inspect key note_name) =
     key_inspect (ce_ed e) (ce_seal e) (env_sha (ce_store e)) (env_b64 (ce_store e)) key note_name"

fun log_dispatch :: "('t, 'k, 'c) cli_env \<Rightarrow> log_command \<Rightarrow> unit cli_result prog" where
  "log_dispatch e (Init dir origin) = log_init (ce_store e) dir origin"
| "log_dispatch e (Append dir leaf) = log_append (ce_store e) dir leaf"
| "log_dispatch e (Checkpoint dir key out) = log_checkpoint (ce_store e) (ce_ed e) dir key out"
| "log_dispatch e (Prove (Prove_Inclusion dir key leaf_index out)) =
     prove_inclusion_cmd (ce_store e) (ce_ed e) (ce_inclusion e) dir key leaf_index out"
| "log_dispatch e (Prove (Prove_Consistency dir key old_size out)) =
     prove_consistency_cmd (ce_store e) (ce_ed e) (ce_consistency e) dir key old_size out"
| "log_dispatch e (Verify_Log (Verify_Inclusion artifact leaf verifier_key)) =
     verify_inclusion_cmd (ce_store e) (ce_ed e) (ce_inclusion e) artifact leaf verifier_key"
| "log_dispatch e (Verify_Log (Verify_Consistency artifact verifier_key)) =
     verify_consistency_cmd (ce_store e) (ce_ed e) (ce_consistency e) artifact verifier_key"

fun ca_dispatch :: "('t, 'k, 'c) cli_env \<Rightarrow> ca_command \<Rightarrow> unit cli_result prog" where
  "ca_dispatch e (Issue key subject claims validity_days out) =
     ca_issue (env_sha (ce_store e)) (env_b64 (ce_store e)) (ce_ed e) (ce_chrono e) (ce_rcgen e) (ce_value_error e)
       (ce_subject_key e) (ce_now e) key subject claims validity_days out"
| "ca_dispatch e (Verify_Cert cert issuer_public_key at) =
     ca_verify (ce_x509 e) (env_b64 (ce_store e)) (env_dbg (ce_store e)) (ce_chrono e) (ce_ed e) (ce_now e)
       cert issuer_public_key at"

fun dispatch :: "('t, 'k, 'c) cli_env \<Rightarrow> command \<Rightarrow> unit cli_result prog" where
  "dispatch e (Key key_command) = key_dispatch e key_command"
| "dispatch e (Log log_command) = log_dispatch e log_command"
| "dispatch e (Ca ca_command) = ca_dispatch e ca_command"
| "dispatch e (Attest key payload out) = attest_run (env_sha (ce_store e)) (ce_ed e) (ce_now_ms e) key payload out"
| "dispatch e (Verify attestation payload) =
     verify_run (ce_cbor e) (env_sha (ce_store e)) (ce_ed e) attestation payload"
| "dispatch e (Seal_Payload key recipient_public_key payload out attestation_out) =
     seal_cmd (ce_seal e) (env_sha (ce_store e)) (ce_ed e) (ce_envelope e) (ce_random e) (ce_now_ms e)
       key recipient_public_key payload out attestation_out"
| "dispatch e (Open key sender_public_key envelope attestation out) =
     open_cmd (ce_seal e) (env_sha (ce_store e)) (ce_ed e) (ce_cbor e) (ce_envelope e)
       key sender_public_key envelope attestation out"

text \<open>\<^verbatim>\<open>main\<close>: the exit code.\<close>

definition cli_main :: "('t, 'k, 'c) cli_env \<Rightarrow> command \<Rightarrow> nat cli_result prog" where
  "cli_main e cmd =
     pbind (dispatch e cmd) (\<lambda>result. case result of
       Ok _ \<Rightarrow> Ret (Ok 0)
     | Err error \<Rightarrow> rbind (eprintln (lit ''error: '' @ display_cli_error (env_dbg (ce_store e)) error)) (\<lambda>_. Ret (Ok 1))
     | Panic \<Rightarrow> Ret Panic)"

end
