(* ===== verification/Cli_Runs.thy ===== *)
theory Cli_Runs
  imports Cli_Commands Store_Theorems
begin

text \<open>
  Runs of commands in a world where no call fails, as a small logic: \<open>does C D p x C' out\<close> says that in every such
  world that holds the files \<open>C\<close> and the directories \<open>D\<close>, the program \<open>p\<close> returns \<open>x\<close>, leaves the files \<open>C'\<close> and
  prints \<open>out\<close>.
\<close>

definition does ::
  "(path \<Rightarrow> bytes option) \<Rightarrow> (path \<Rightarrow> bool) \<Rightarrow> 'a prog \<Rightarrow> 'a \<Rightarrow> (path \<Rightarrow> bytes option) \<Rightarrow> str list \<Rightarrow> bool" where
  "does C D p x C' out \<longleftrightarrow> (\<forall>w. calm w \<and> sees w C D \<longrightarrow>
     (\<exists>w'. run p w = (x, w') \<and> calm w' \<and> sees w' C' D \<and> stdout w' = stdout w @ out))"

lemma doesD:
  assumes "does C D p x C' out" and "calm w" and "sees w C D"
  obtains w' where "run p w = (x, w')" and "calm w'" and "sees w' C' D" and "stdout w' = stdout w @ out"
  using assms unfolding does_def by blast

lemma does_Ret: "does C D (Ret x) x C []"
  by (simp add: does_def)

lemma does_pbind: "does C D p x C1 o1 \<Longrightarrow> does C1 D (f x) y C2 o2 \<Longrightarrow> does C D (pbind p f) y C2 (o1 @ o2)"
  unfolding does_def run_pbind by (metis append.assoc case_prod_conv)

lemma does_rbind: "does C D p (Ok x) C1 o1 \<Longrightarrow> does C1 D (f x) y C2 o2 \<Longrightarrow> does C D (rbind p f) y C2 (o1 @ o2)"
  using does_pbind [of C D p "Ok x" C1 o1 "\<lambda>r. case r of Ok x \<Rightarrow> f x | Err e \<Rightarrow> Ret (Err e) | Panic \<Rightarrow> Ret Panic" y C2 o2]
  by (simp add: rbind_def)

lemma does_silent: "does C D p (Ok x) C1 [] \<Longrightarrow> does C1 D (f x) y C2 out \<Longrightarrow> does C D (rbind p f) y C2 out"
  using does_rbind [of C D p x C1 "[]"] by simp

lemma does_ret: "r = Ok x \<Longrightarrow> does C D (f x) y C2 out \<Longrightarrow> does C D (rbind (Ret r) f) y C2 out"
  by (simp add: rbind_def)

lemma does_perr: "does C D p (Ok x) C' out \<Longrightarrow> does C D (perr g p) (Ok x) C' out"
  unfolding does_def run_perr by fastforce

lemma does_print: "does C D (print_lines ss) (Ok ()) C ss"
  unfolding does_def using run_print_lines by (auto simp: sees_def calm_def simp del: print_lines.simps)

lemma does_read: "C p = Some b \<Longrightarrow> does C D (read_file p what) (Ok b) C []"
  unfolding does_def read_file_def run_perr using run_fs_read by (fastforce simp: sees_def)

lemma does_write:
  assumes "D d" and "\<not> D (path_join d n)"
  shows "does C D (write_file (path_join d n) b what) (Ok ()) (C(path_join d n \<mapsto> b)) []"
  unfolding does_def
proof (intro allI impI)
  fix w
  assume "calm w \<and> sees w C D"
  then obtain w' where w': "run (write_file (path_join d n) b what) w = (Ok (), w')" "sees w' (C(path_join d n \<mapsto> b)) D" "calm w'"
    using write_file_calm [of w C D d n] assms by blast
  have "silent (write_file (path_join d n) b what)" by (auto simp: write_file_def fs_write_def)
  from silent_run [OF this w'(1)] w' show "\<exists>w'. run (write_file (path_join d n) b what) w = (Ok (), w') \<and> calm w' \<and>
      sees w' (C(path_join d n \<mapsto> b)) D \<and> stdout w' = stdout w @ []"
    by simp
qed

lemma view_traces:
  "content (w\<lparr>traces := x\<rparr>) = content w" "is_dir (w\<lparr>traces := x\<rparr>) = is_dir w" "wf_fs (w\<lparr>traces := x\<rparr>) = wf_fs w"
  by (simp_all add: content_def [abs_def] is_dir_def [abs_def] wf_fs_def cong: option.case_cong entry.case_cong)

lemma does_load:
  assumes "C key = Some seed" and "length seed = 32"
  shows "does C D (load_identity ed key) (Ok (from_seed ed seed)) C []"
  unfolding does_def
proof (intro allI impI)
  fix w
  assume w: "calm w \<and> sees w C D"
  then have k: "content w key = Some seed" using assms(1) by (simp add: sees_def)
  then obtain i where i: "lookup w key = Some (File i)" by (auto simp: content_Some)
  have "run (warn_if_loose_permissions key) w = ((), w) \<or> (\<exists>ts. run (warn_if_loose_permissions key) w = ((), w\<lparr>traces := ts\<rparr>))"
    using w i by (auto simp: warn_if_loose_permissions_def fs_metadata_def trace_def exec_calm run_pbind)
  then obtain v where v: "run (warn_if_loose_permissions key) w = ((), v)" "calm v" "sees v C D" "stdout v = stdout w"
    using w by (auto simp: sees_def view_traces calm_def)
  have "content v key = Some seed" using v(3) assms(1) by (simp add: sees_def)
  from run_fs_read [OF v(2) this] v w run_exists [OF _ k] assms(2)
  show "\<exists>w'. run (load_identity ed key) w = (Ok (from_seed ed seed), w') \<and> calm w' \<and> sees w' C D \<and> stdout w' = stdout w @ []"
    by (auto simp: load_identity_def load_def load_existing_def run_pbind run_rbind run_perr copy_from_slice_def)
qed

lemma does_store_open:
  assumes "env_ok env" and "log_at env dir origin ls ls C D" and "reconstruct_from_raw_leaves (env_ct env) ls = Ok t"
  shows "does C D (store_open env dir) (Ok \<lparr>st_dir = dir, st_origin = origin, st_leaves = ls, st_tree = t\<rparr>) C []"
  unfolding does_def
  using open_log_run [OF assms(1) _ _ assms(2,3)] check_same [OF assms(1), of ls "\<lparr>st_dir = dir, st_origin = origin, st_leaves = ls, st_tree = t\<rparr>"]
    reconstruct_raw_Ok [OF assms(3)]
  by (auto simp: rbind_def)

lemma does_read_artifact:
  assumes "C p = Some b" and "length b \<le> MAX_ARTIFACT_BYTES"
  shows "does C D (read_artifact_file p) (Ok b) C []"
  unfolding does_def
proof (intro allI impI)
  fix w
  assume w: "calm w \<and> sees w C D"
  then have k: "content w p = Some b" using assms(1) by (simp add: sees_def)
  then obtain i where i: "lookup w p = Some (File i)" "data (inodes w i) = b" by (auto simp: content_Some)
  from run_fs_read [OF _ k] w i assms(2)
  show "\<exists>w'. run (read_artifact_file p) w = (Ok b, w') \<and> calm w' \<and> sees w' C D \<and> stdout w' = stdout w @ []"
    by (auto simp: read_artifact_file_def read_file_def fs_metadata_def exec_calm run_rbind run_perr)
qed

lemma does_write_private:
  assumes "D d" and "\<not> D (path_join d n)"
  shows "does C D (write_file_private (path_join d n) b what) (Ok ()) (C(path_join d n \<mapsto> b)) []"
  unfolding does_def
proof (intro allI impI)
  fix w
  assume w: "calm w \<and> sees w C D"
  let ?p = "path_join d n"
  obtain r v where o: "exec (Open_write False 384 ?p) w = (r, v)" by (cases "exec (Open_write False 384 ?p) w")
  from exec_open_sees [of w C D d n False 384 r v] o w assms obtain i where
    v: "r = R_handle i" "lookup v ?p = Some (File i)" "sees v (C(?p \<mapsto> [])) D" "calm v"
    unfolding path_join_def by auto
  obtain s u where s: "exec (Write_all i b) v = (s, u)" by (cases "exec (Write_all i b) v")
  from exec_write_sees [OF v(3,2) _ s] v(4) have u: "s = R_unit" "sees u (C(?p \<mapsto> b)) D" "calm u" by auto
  have "silent (write_file_private ?p b what)" by (auto simp: write_file_private_def)
  moreover have r: "run (write_file_private ?p b what) w = (Ok (), u)"
    using o v(1) s u(1) by (simp add: write_file_private_def run_rbind run_perr fs_open_def fs_unit_def)
  ultimately have "stdout u = stdout w" by (rule silent_run)
  with r u show "\<exists>w'. run (write_file_private ?p b what) w = (Ok (), w') \<and> calm w' \<and> sees w' (C(?p \<mapsto> b)) D \<and> stdout w' = stdout w @ []"
    by simp
qed

lemma does_write_artifact:
  assumes "json_ok j" and "D d" and "\<not> D (path_join d n)"
  shows "does C D (write_artifact j (path_join d n) a what) (Ok ()) (C(path_join d n \<mapsto> json_bytes j a)) []"
proof -
  obtain s where s: "to_pretty j a = Inr s" using assms(1) by (auto simp: json_ok_def)
  then have b: "json_bytes j a = utf8_encode (s @ [NL])" by (simp add: json_bytes_def)
  show ?thesis
    unfolding write_artifact_def b by (rule does_ret [where x = s]) (simp_all add: s does_write assms)
qed

end
