(* ===== verification/Ca_Facts.thy ===== *)
theory Ca_Facts
  imports Cli_Runs
begin

text \<open>
  Lemmas on the certificate authority and on \<^verbatim>\<open>lys ca\<close>: what an accepted certificate is, what the crates
  promise, and runs of the two commands.
\<close>

section \<open>Verification\<close>

lemma dt_not_less: "\<not> dt_less a b \<longleftrightarrow> dt_secs b < dt_secs a \<or> (dt_secs b = dt_secs a \<and> dt_nanos b \<le> dt_nanos a)"
  by (auto simp: dt_less_def)

lemma parse_certificate_Ok: "parse_certificate x der = Ok xc \<longleftrightarrow> x_from_der x der = Inr xc"
  by (auto simp: parse_certificate_def outcome)

text \<open>A certificate that is accepted at an instant.\<close>

definition cert_valid_at :: "chrono \<Rightarrow> x509_certificate \<Rightarrow> datetime \<Rightarrow> bool" where
  "cert_valid_at ch xc at \<longleftrightarrow>
     (\<exists>nb na. ch_from_timestamp ch (xc_not_before xc) 0 = Some nb \<and> ch_from_timestamp ch (xc_not_after xc) 0 = Some na \<and>
        \<not> dt_less at nb \<and> \<not> dt_less na at)"

definition cert_signed :: "ed25519 \<Rightarrow> x509_certificate \<Rightarrow> bytes \<Rightarrow> bool" where
  "cert_signed ed xc pk \<longleftrightarrow>
     xc_subject_raw xc \<noteq> xc_issuer_raw xc \<and> xc_signature_algorithm xc = OID_SIG_ED25519 \<and> length (xc_signature xc) = 64 \<and>
     ed_point_ok ed pk \<and> ed_verify_strict ed pk (xc_tbs xc) (xc_signature xc)"

lemma check_validity_window_Ok: "check_validity_window ch xc at = Ok () \<longleftrightarrow> cert_valid_at ch xc at"
  by (auto simp: check_validity_window_def datetime_from_asn1_timestamp_def cert_valid_at_def outcome split: if_splits)

lemma verify_chain_Ok:
  "verify_certificate_chain_at x ch ed der pk at = Ok () \<longleftrightarrow>
     (\<exists>xc. x_from_der x der = Inr xc \<and> cert_signed ed xc pk \<and> cert_valid_at ch xc at)"
  by (auto simp: verify_certificate_chain_at_def parse_certificate_Ok check_validity_window_Ok cert_signed_def outcome Let_def
      try_into_array_def split: if_splits)

lemma verify_chain_rejects:
  assumes "x_from_der x der = Inr xc" and "ch_from_timestamp ch (xc_not_before xc) 0 = Some nb"
    and "ch_from_timestamp ch (xc_not_after xc) 0 = Some na" and "\<not> (cert_signed ed xc pk \<and> cert_valid_at ch xc at)"
  shows "\<exists>r. verify_certificate_chain_at x ch ed der pk at = Err (CertificateVerification r)"
  using assms
  by (auto simp: verify_certificate_chain_at_def check_validity_window_def datetime_from_asn1_timestamp_def parse_certificate_def
      cert_signed_def cert_valid_at_def try_into_array_def Let_def outcome)

section \<open>The crates\<close>

text \<open>The seconds that a certificate can carry: the years 1970 to 9999.\<close>

definition der_time :: "int \<Rightarrow> bool" where
  "der_time s \<longleftrightarrow> 0 \<le> s \<and> s < 253402300800"

definition dt_plus :: "datetime \<Rightarrow> nat \<Rightarrow> datetime" where
  "dt_plus t n = \<lparr>dt_secs = dt_secs t + int ((dt_nanos t + n) div 1000000000), dt_nanos = (dt_nanos t + n) mod 1000000000\<rparr>"

text \<open>chrono and time within those years: durations of up to \<open>2 ^ 63 - 1\<close> milliseconds convert, and
  instants add, truncate and convert to and from seconds exactly.\<close>

definition chrono_ok :: "chrono \<Rightarrow> bool" where
  "chrono_ok ch \<longleftrightarrow>
     (\<forall>n. n \<le> (2 ^ 63 - 1) * 1000000 \<longrightarrow> ch_from_std ch n = Inr (int n)) \<and>
     (\<forall>t n. der_time (dt_secs t) \<and> dt_nanos t < 1000000000 \<and> der_time (dt_secs (dt_plus t n)) \<longrightarrow>
        ch_add ch t (int n) = Some (dt_plus t n)) \<and>
     (\<forall>t. der_time (dt_secs t) \<longrightarrow> ch_with_nanosecond ch t 0 = Some (t\<lparr>dt_nanos := 0\<rparr>)) \<and>
     (\<forall>s. der_time s \<longrightarrow> tm_from_unix ch s = Inr s \<and> ch_from_timestamp ch s 0 = Some \<lparr>dt_secs = s, dt_nanos = 0\<rparr>)"

text \<open>An extension of the arc as x509-parser finds it: absent, or the content of the one with this
  identifier.\<close>

definition extensions_of :: "x509 \<Rightarrow> x509_certificate \<Rightarrow> custom_extension list \<Rightarrow> bool" where
  "extensions_of x xc exts \<longleftrightarrow>
     (\<forall>oid. take (length LYS_OID_ARC) oid = LYS_OID_ARC \<longrightarrow>
        (filter (\<lambda>e. ce_oid e = oid) exts = [] \<longrightarrow> x_extension x xc oid = Inr None) \<and>
        (\<forall>e. filter (\<lambda>e. ce_oid e = oid) exts = [e] \<longrightarrow> x_extension x xc oid = Inr (Some (ce_content e))))"

text \<open>A parsed certificate for the parameters \<open>p\<close>, signed with \<open>signer\<close> by an issuer with the parameters \<open>ip\<close>;
  \<open>dn_raw\<close> is the encoding of names.\<close>

definition cert_of ::
  "x509 \<Rightarrow> (distinguished_name \<Rightarrow> bytes) \<Rightarrow> (bytes \<Rightarrow> bytes) \<Rightarrow> cert_params \<Rightarrow> cert_params \<Rightarrow> x509_certificate \<Rightarrow> bool" where
  "cert_of x dn_raw signer ip p xc \<longleftrightarrow>
     xc_subject_raw xc = dn_raw (cp_distinguished_name p) \<and> xc_issuer_raw xc = dn_raw (cp_distinguished_name ip) \<and>
     xc_signature_algorithm xc = OID_SIG_ED25519 \<and> xc_signature xc = signer (xc_tbs xc) \<and>
     xc_not_before xc = cp_not_before p \<and> xc_not_after xc = cp_not_after p \<and> extensions_of x xc (cp_custom_extensions p)"

text \<open>Parameters that rcgen accepts: dates that DER can write, and extensions with well-formed identifiers.\<close>

definition params_ok :: "x509 \<Rightarrow> cert_params \<Rightarrow> bool" where
  "params_ok x p \<longleftrightarrow> der_time (cp_not_before p) \<and> der_time (cp_not_after p) \<and> (\<forall>e \<in> set (cp_custom_extensions p). x_oid_ok x (ce_oid e))"

text \<open>What rcgen, x509-parser and ed25519-dalek document, for the subject key \<open>k\<close>: the default parameters (from 1975 to 4096,
  no extensions) are acceptable; keys, and certificates with acceptable parameters, can be
  built for a 32-byte key; a certificate signed by an issuer parses to what \<open>cert_of\<close> says; names are
  encoded injectively; a generated key has 32 public bytes and a seed for them.\<close>

definition rcgen_ok :: "ed25519 \<Rightarrow> ('k, 'c) rcgen \<Rightarrow> x509 \<Rightarrow> (distinguished_name \<Rightarrow> bytes) \<Rightarrow> 'k \<Rightarrow> bool" where
  "rcgen_ok ed rc x dn_raw k \<longleftrightarrow>
     inj dn_raw \<and> (\<exists>p. rc_params rc = Inr p \<and> params_ok x p) \<and>
     (\<forall>oid. take (length LYS_OID_ARC) oid = LYS_OID_ARC \<longrightarrow> x_oid_ok x oid) \<and>
     (\<forall>pk signer. length pk = 32 \<longrightarrow> (\<exists>ik. rc_from_remote rc pk signer = Inr ik \<and>
        (\<forall>ip. params_ok x ip \<longrightarrow> (\<exists>ic. rc_self_signed rc ip ik = Inr ic \<and>
          (\<forall>p. params_ok x p \<longrightarrow>
             (\<exists>c xc. rc_signed_by rc p k ic ik = Inr c \<and> rc_der rc c \<noteq> [] \<and> x_from_der x (rc_der rc c) = Inr xc \<and>
                cert_of x dn_raw signer ip p xc)))))) \<and>
     length (rc_public_raw rc k) = 32 \<and> (\<exists>seed. pkcs8_seed rc (rc_pkcs8 rc k) = Inr seed \<and> ed_public ed seed = rc_public_raw rc k)"

section \<open>Issuing\<close>

lemma distinguished_name_inj: "distinguished_name a = distinguished_name b \<longleftrightarrow> a = b"
  by (simp add: distinguished_name_def)

lemma issuer_certificate_Ok:
  assumes "rcgen_ok ed rc x dn_raw k" and "ed25519_signs ed" and "wf_identity ed i"
  obtains ik ic ip where "issuer_key_pair ed rc (authority_new i) = Ok ik" and "issuer_certificate rc (authority_new i) ik = Ok ic"
    and "cp_distinguished_name ip = distinguished_name (hex_lower (public_key_bytes i))"
    and "\<And>p. params_ok x p \<Longrightarrow>
      \<exists>c xc. rc_signed_by rc p k ic ik = Inr c \<and> rc_der rc c \<noteq> [] \<and> x_from_der x (rc_der rc c) = Inr xc \<and>
        cert_of x dn_raw (sign ed i) ip p xc"
proof -
  have l: "length (public_key_bytes i) = 32" by (rule wf_identity_sizes [OF assms(2,3)])
  obtain p where p: "rc_params rc = Inr p" "params_ok x p" using assms(1) by (auto simp: rcgen_ok_def)
  let ?ip = "p\<lparr>cp_distinguished_name := distinguished_name (hex_lower (public_key_bytes i)), cp_is_ca := Ca_Unconstrained\<rparr>"
  have "params_ok x ?ip" using p(2) by (simp add: params_ok_def)
  then obtain ik ic where ik: "rc_from_remote rc (public_key_bytes i) (sign ed i) = Inr ik" "rc_self_signed rc ?ip ik = Inr ic"
    "\<And>p. params_ok x p \<Longrightarrow>
      \<exists>c xc. rc_signed_by rc p k ic ik = Inr c \<and> rc_der rc c \<noteq> [] \<and> x_from_der x (rc_der rc c) = Inr xc \<and>
        cert_of x dn_raw (sign ed i) ?ip p xc"
    using assms(1) l unfolding rcgen_ok_def by metis
  show thesis
    by (rule that [of ik ic ?ip])
      (use ik p in \<open>simp_all add: issuer_key_pair_def issuer_certificate_def identity_signer_new_def authority_new_def Let_def\<close>)
qed

lemma issue_Ok:
  assumes "rcgen_ok ed rc x dn_raw k" and "chrono_ok ch" and "ed25519_signs ed" and "wf_identity ed i"
    and "str_trim subject \<noteq> []" and "0 < ttl" and "ttl \<le> (2 ^ 63 - 1) * 1000000" and "dt_nanos now < 1000000000"
    and "der_time (dt_secs now)" and "der_time (dt_secs (dt_plus now ttl))" and "\<And>e. e \<in> set exts \<Longrightarrow> x_oid_ok x (ce_oid e)"
  obtains ic xc where "issue_certificate sha ed ch rc (Inr k) now (authority_new i) subject ttl exts = Ok ic"
    and "ic_expires_at ic = (dt_plus now ttl)\<lparr>dt_nanos := 0\<rparr>" and "ic_issuer_public_key ic = public_key_bytes i"
    and "ic_fingerprint ic = sha (ic_der_bytes ic)" and "ic_subject_verifying_key ic = rc_public_raw rc k"
    and "ic_der_bytes ic \<noteq> []" and "x_from_der x (ic_der_bytes ic) = Inr xc" and "extensions_of x xc exts"
    and "\<And>at. if subject \<noteq> hex_lower (public_key_bytes i) \<and> dt_secs now \<le> dt_secs at \<and> \<not> dt_less ((dt_plus now ttl)\<lparr>dt_nanos := 0\<rparr>) at
      then verify_certificate_chain_at x ch ed (ic_der_bytes ic) (public_key_bytes i) at = Ok ()
      else \<exists>r. verify_certificate_chain_at x ch ed (ic_der_bytes ic) (public_key_bytes i) at = Err (CertificateVerification r)"
proof -
  obtain ik icert ip where I: "issuer_key_pair ed rc (authority_new i) = Ok ik" "issuer_certificate rc (authority_new i) ik = Ok icert"
    "cp_distinguished_name ip = distinguished_name (hex_lower (public_key_bytes i))"
    "\<And>p. params_ok x p \<Longrightarrow>
      \<exists>c xc. rc_signed_by rc p k icert ik = Inr c \<and> rc_der rc c \<noteq> [] \<and> x_from_der x (rc_der rc c) = Inr xc \<and>
        cert_of x dn_raw (sign ed i) ip p xc"
    using issuer_certificate_Ok [OF assms(1,3,4)] by blast
  obtain p where p: "rc_params rc = Inr p" using assms(1) by (auto simp: rcgen_ok_def)
  let ?e = "dt_plus now ttl"
  let ?p = "p\<lparr>cp_distinguished_name := distinguished_name subject, cp_is_ca := ExplicitNoCa,
      cp_not_before := dt_secs now, cp_not_after := dt_secs ?e, cp_custom_extensions := exts\<rparr>"
  obtain c xc where c: "rc_signed_by rc ?p k icert ik = Inr c" "rc_der rc c \<noteq> []" "x_from_der x (rc_der rc c) = Inr xc"
    "cert_of x dn_raw (sign ed i) ip ?p xc"
    using I(4) [of ?p] assms(9-11) by (auto simp: params_ok_def)
  obtain seed where seed: "length (rc_public_raw rc k) = 32" "pkcs8_seed rc (rc_pkcs8 rc k) = Inr seed"
    "ed_public ed seed = rc_public_raw rc k"
    using assms(1) by (auto simp: rcgen_ok_def)
  have inj: "dn_raw a = dn_raw b \<longleftrightarrow> a = b" for a b using assms(1) by (auto simp: rcgen_ok_def dest: injD)
  let ?ic = "\<lparr>ic_der_bytes = rc_der rc c, ic_subject_signing_key = seed, ic_subject_verifying_key = ed_public ed seed,
      ic_fingerprint = sha (rc_der rc c), ic_expires_at = ?e\<lparr>dt_nanos := 0\<rparr>, ic_issuer_public_key = public_key_bytes i\<rparr>"
  have t: "ch_from_std ch ttl = Inr (int ttl)" "ch_add ch now (int ttl) = Some ?e"
    "ch_with_nanosecond ch ?e 0 = Some (?e\<lparr>dt_nanos := 0\<rparr>)" "tm_from_unix ch (dt_secs now) = Inr (dt_secs now)"
    "tm_from_unix ch (dt_secs ?e) = Inr (dt_secs ?e)" "ch_from_timestamp ch (dt_secs now) 0 = Some \<lparr>dt_secs = dt_secs now, dt_nanos = 0\<rparr>"
    "ch_from_timestamp ch (dt_secs ?e) 0 = Some \<lparr>dt_secs = dt_secs ?e, dt_nanos = 0\<rparr>"
    using assms(2,7-10) by (simp_all add: chrono_ok_def)
  have signed: "cert_signed ed xc (public_key_bytes i) \<longleftrightarrow> subject \<noteq> hex_lower (public_key_bytes i)"
    using c(4) I(3) verify_signature_sign [OF assms(3,4)]
    by (auto simp: cert_of_def cert_signed_def inj distinguished_name_inj verify_signature_Ok)
  have valid: "cert_valid_at ch xc at \<longleftrightarrow> dt_secs now \<le> dt_secs at \<and> \<not> dt_less (?e\<lparr>dt_nanos := 0\<rparr>) at" for at
    using c(4) t(6,7) by (auto simp: cert_of_def cert_valid_at_def dt_less_def)
  have "if subject \<noteq> hex_lower (public_key_bytes i) \<and> dt_secs now \<le> dt_secs at \<and> \<not> dt_less (?e\<lparr>dt_nanos := 0\<rparr>) at
      then verify_certificate_chain_at x ch ed (rc_der rc c) (public_key_bytes i) at = Ok ()
      else \<exists>r. verify_certificate_chain_at x ch ed (rc_der rc c) (public_key_bytes i) at = Err (CertificateVerification r)" for at
    using c(3,4) t(6,7) verify_chain_rejects [OF c(3), of ch _ _ ed "public_key_bytes i" at] signed valid [of at]
    by (auto simp: verify_chain_Ok cert_of_def)
  moreover have "issue_certificate sha ed ch rc (Inr k) now (authority_new i) subject ttl exts = Ok ?ic"
    using assms(5,6) I(1,2) p c(1) t(1-5) seed
    by (simp add: issue_certificate_def from_der_and_keypair_def to_offset_date_time_def authority_new_def Let_def)
  ultimately show thesis using c(2-4) seed(3) by (intro that [of ?ic xc]) (simp_all add: cert_of_def)
qed

text \<open>The bytes of the claims file.\<close>

definition claims_given :: "(path \<Rightarrow> bytes option) \<Rightarrow> (bytes \<Rightarrow> str option) \<Rightarrow> path option \<Rightarrow> bytes option \<Rightarrow> bool" where
  "claims_given C value_error claims cb \<longleftrightarrow>
     (case claims of None \<Rightarrow> cb = None | Some p \<Rightarrow> \<exists>b. C p = Some b \<and> value_error b = None \<and> cb = Some b)"

definition claims_extensions :: "bytes option \<Rightarrow> custom_extension list" where
  "claims_extensions cb = (case cb of None \<Rightarrow> [] | Some b \<Rightarrow> [encode_extension capability_claims_oid b])"

lemma does_claims:
  assumes "claims_given C value_error claims cb"
  shows "does C D (case claims of
          Some claims_path \<Rightarrow>
            rbind (read_file claims_path (lit ''claims file'')) (\<lambda>claims_bytes.
            Ret (case value_error claims_bytes of
              Some source \<Rightarrow> Err (ClaimsJsonParse claims_path source)
            | None \<Rightarrow> Ok [encode_extension capability_claims_oid claims_bytes]))
        | None \<Rightarrow> Ret (Ok [])) (Ok (claims_extensions cb)) C []"
proof (cases claims)
  case None
  then show ?thesis using assms by (simp add: claims_given_def claims_extensions_def does_Ret)
next
  case (Some p)
  then obtain b where b: "C p = Some b" "value_error b = None" "cb = Some b" using assms by (auto simp: claims_given_def)
  have "does C D (rbind (read_file p (lit ''claims file'')) (\<lambda>claims_bytes.
            Ret (case value_error claims_bytes of
              Some source \<Rightarrow> Err (ClaimsJsonParse p source)
            | None \<Rightarrow> Ok [encode_extension capability_claims_oid claims_bytes]))) (Ok (claims_extensions cb)) C []"
    by (rule does_silent [OF does_read [of C p b]])
      (use b in \<open>simp_all add: claims_extensions_def does_Ret\<close>)
  with Some show ?thesis by simp
qed

lemma claims_oid_ok:
  assumes "rcgen_ok ed rc x dn_raw k"
  shows "x_oid_ok x capability_claims_oid" and "e \<in> set (claims_extensions cb) \<Longrightarrow> x_oid_ok x (ce_oid e)"
proof -
  have "take (length LYS_OID_ARC) capability_claims_oid = LYS_OID_ARC" by (simp add: capability_claims_oid_def)
  then show "x_oid_ok x capability_claims_oid" using assms by (simp add: rcgen_ok_def)
  then show "e \<in> set (claims_extensions cb) \<Longrightarrow> x_oid_ok x (ce_oid e)"
    by (cases cb) (simp_all add: claims_extensions_def encode_extension_def)
qed

lemma decode_claims:
  assumes "rcgen_ok ed rc x dn_raw k" and "x_from_der x der = Inr xc" and "extensions_of x xc (claims_extensions cb)"
  shows "decode_extension x der capability_claims_oid = Ok cb"
proof -
  have arc: "take (length LYS_OID_ARC) capability_claims_oid = LYS_OID_ARC" by (simp add: capability_claims_oid_def)
  have "x_extension x xc capability_claims_oid = Inr cb"
    using assms(3) arc by (cases cb) (simp_all add: extensions_of_def claims_extensions_def encode_extension_def)
  with claims_oid_ok(1) [OF assms(1)] show ?thesis using assms(2) by (simp add: decode_extension_def parse_certificate_def)
qed

section \<open>lys ca\<close>

lemma does_ret_Err: "r = Err e \<Longrightarrow> does C D (rbind (Ret r) f) (Err e) C []"
  by (simp add: rbind_def does_Ret)

lemma does_ca_issue:
  assumes "C key = Some seed" and "length seed = 32" and "claims_given C value_error claims cb"
    and "issue_certificate sha ed ch rc sk now (authority_new (from_seed ed seed)) subject (unat days * SECONDS_PER_DAY * 1000000000)
      (claims_extensions cb) = Ok ic"
    and "D d" and "\<not> D (path_join d n)"
  shows "\<exists>lines. does C D (ca_issue sha b64 ed ch rc value_error sk now key subject claims days (path_join d n)) (Ok ())
    (C(path_join d n \<mapsto> utf8_encode (encode_certificate b64 (ic_der_bytes ic)))) lines"
proof -
  have load: "does C D (load_identity ed key) (Ok (from_seed ed seed)) C []" by (rule does_load) (use assms in auto)
  have ok: "map_err Trust (issue_certificate sha ed ch rc sk now (authority_new (from_seed ed seed)) subject
      (unat days * SECONDS_PER_DAY * 1000000000) (claims_extensions cb)) = Ok ic"
    using assms(4) by simp
  show ?thesis
    unfolding ca_issue_def Let_def
    by (rule exI) (rule does_silent [OF load] does_silent [OF does_claims [OF assms(3)]] does_ret [OF ok]
      does_silent [OF does_write [OF assms(5,6)]] does_print)+
qed

lemma does_ca_verify:
  assumes "C cert = Some (utf8_encode (encode_certificate b64 der))" and "base64_standard b64" and "der \<noteq> []"
    and "length pk = 32" and "ch_parse_rfc3339 ch value = Inr at"
  shows "verify_certificate_chain_at x ch ed der pk at = Ok () \<Longrightarrow> decode_extension x der capability_claims_oid = Ok cb \<Longrightarrow>
    does C D (ca_verify x b64 dbg ch ed now cert (cli_hex_lower pk) (Some value)) (Ok ()) C
      [lit ''certificate verified'', lit ''issuer public key (ed25519): '' @ cli_hex_lower pk,
       lit ''checked at (rfc3339): '' @ ch_rfc3339 ch at, claims_line cb]"
    and "verify_certificate_chain_at x ch ed der pk at = Err (CertificateVerification r) \<Longrightarrow>
    does C D (ca_verify x b64 dbg ch ed now cert (cli_hex_lower pk) (Some value)) (Err CertificateVerificationFailed) C []"
proof -
  have read: "does C D (read_file cert (lit ''certificate file'')) (Ok (utf8_encode (encode_certificate b64 der))) C []"
    by (rule does_read) (rule assms(1))
  have args: "ok_or InvalidIssuerPublicKey (parse_hex_32 (cli_hex_lower pk)) = Ok pk"
    "(case Some value of Some value \<Rightarrow> map_err (\<lambda>source. InvalidTimestamp value source) (of_sum (ch_parse_rfc3339 ch value))
       | None \<Rightarrow> Ok now) = Ok at"
    using assms(4,5) by (simp_all add: hex_roundtrip)
  note steps = does_silent [OF read] does_ret [OF decode_encode [OF assms(2,3)]] does_ret [OF args(1)] does_ret [OF args(2)]
  show "does C D (ca_verify x b64 dbg ch ed now cert (cli_hex_lower pk) (Some value)) (Ok ()) C
      [lit ''certificate verified'', lit ''issuer public key (ed25519): '' @ cli_hex_lower pk,
       lit ''checked at (rfc3339): '' @ ch_rfc3339 ch at, claims_line cb]"
    if "verify_certificate_chain_at x ch ed der pk at = Ok ()" "decode_extension x der capability_claims_oid = Ok cb"
    unfolding ca_verify_def by (rule steps)+ (simp add: that rbind_def does_print del: print_lines.simps lit_simps)
  show "does C D (ca_verify x b64 dbg ch ed now cert (cli_hex_lower pk) (Some value)) (Err CertificateVerificationFailed) C []"
    if "verify_certificate_chain_at x ch ed der pk at = Err (CertificateVerification r)"
    unfolding ca_verify_def by (rule steps)+ (simp add: that rbind_def does_Ret)
qed

end
