(* ===== verification/Reference_Ca.thy ===== *)
theory Reference_Ca
  imports Ca_Facts Reference_Json
begin

text \<open>
  An instance of the certificate crates with the behaviour that the theorems ask for: a certificate is a
  list of texts in unary, its signature first.
\<close>

definition ref_chrono :: chrono where
  "ref_chrono = \<lparr>ch_from_std = (\<lambda>n. Inr (int n)), ch_add = (\<lambda>t d. Some (dt_plus t (nat d))),
     ch_with_nanosecond = (\<lambda>t n. Some (t\<lparr>dt_nanos := n\<rparr>)), ch_from_timestamp = (\<lambda>s n. Some \<lparr>dt_secs = s, dt_nanos = n\<rparr>),
     ch_display = (\<lambda>t. dec_int (dt_secs t)), ch_rfc3339 = (\<lambda>t. dec_int (dt_secs t)),
     ch_parse_rfc3339 = (\<lambda>s. Inr \<lparr>dt_secs = int (length s), dt_nanos = 0\<rparr>), tm_from_unix = Inr\<rparr>"

lemma ref_chrono_ok [simp]: "chrono_ok ref_chrono"
  by (simp add: chrono_ok_def ref_chrono_def)

definition ref_dn_raw :: "distinguished_name \<Rightarrow> bytes" where
  "ref_dn_raw dn = map byte_of (unary_text (map snd dn)) @ [10]"

definition ref_ext :: "custom_extension \<Rightarrow> nat list" where
  "ref_ext e = length (ce_oid e) # map unat (ce_oid e) @ map unat (ce_content e)"

definition has_oid :: "u64 list \<Rightarrow> nat list \<Rightarrow> bool" where
  "has_oid oid t \<longleftrightarrow> take (Suc (length oid)) t = length oid # map unat oid"

definition ref_fields :: "cert_params \<Rightarrow> cert_params \<Rightarrow> nat list list" where
  "ref_fields ip p =
     [map unat (ref_dn_raw (cp_distinguished_name ip)), map unat (ref_dn_raw (cp_distinguished_name p)),
      [nat (cp_not_before p), nat (cp_not_after p)]] @ map ref_ext (cp_custom_extensions p)"

definition ref_bytes :: "nat list list \<Rightarrow> bytes" where
  "ref_bytes ts = map byte_of (unary_text ts) @ [10]"

definition ref_certificate :: "cert_params \<Rightarrow> cert_params \<Rightarrow> (bytes \<Rightarrow> bytes) \<Rightarrow> cert_params \<times> bytes" where
  "ref_certificate ip p signer =
     (p, ref_bytes (map unat (signer (ref_bytes (ref_fields ip p))) # ref_fields ip p))"

text \<open>A key is its public bytes, its signing function and its seed.\<close>

definition ref_rcgen :: "(bytes \<times> (bytes \<Rightarrow> bytes) \<times> bytes, cert_params \<times> bytes) rcgen" where
  "ref_rcgen = \<lparr>
     rc_from_remote = (\<lambda>pk signer. Inr (pk, signer, [])),
     rc_params = Inr \<lparr>cp_distinguished_name = [], cp_is_ca = NoCa, cp_not_before = 0, cp_not_after = 0, cp_custom_extensions = []\<rparr>,
     rc_self_signed = (\<lambda>p k. Inr (ref_certificate p p (fst (snd k)))),
     rc_signed_by = (\<lambda>p k ic ik. Inr (ref_certificate (fst ic) p (fst (snd ik)))),
     rc_der = snd, rc_public_raw = fst, rc_pkcs8 = (\<lambda>k. snd (snd k)), pkcs8_seed = Inr\<rparr>"

definition ref_x509 :: x509 where
  "ref_x509 = \<lparr>
     x_from_der = (\<lambda>der. case unary_read 0 [] der of
         Some (sig # issuer # subject # [nb, na] # exts) \<Rightarrow>
           Inr \<lparr>xc_subject_raw = map byte_of subject, xc_issuer_raw = map byte_of issuer,
             xc_signature_algorithm = OID_SIG_ED25519, xc_tbs = ref_bytes (issuer # subject # [nb, na] # exts),
             xc_signature = map byte_of sig, xc_not_before = int nb, xc_not_after = int na\<rparr>
       | _ \<Rightarrow> Inl (lit ''malformed'')),
     x_oid_ok = (\<lambda>oid. True),
     x_extension = (\<lambda>xc oid. case unary_read 0 [] (xc_tbs xc) of
         Some (issuer # subject # window # exts) \<Rightarrow>
           (case filter (has_oid oid) exts of
              [] \<Rightarrow> Inr None
            | [t] \<Rightarrow> Inr (Some (map byte_of (drop (Suc (length oid)) t)))
            | _ \<Rightarrow> Inl (lit ''duplicate''))
       | _ \<Rightarrow> Inl (lit ''malformed''))\<rparr>"

lemma unary_read_ref [simp]: "unary_read 0 [] (ref_bytes ts) = Some ts"
  by (simp add: ref_bytes_def unary_read_text)

lemma inj_ref_dn_raw: "inj ref_dn_raw"
proof (rule injI)
  fix a b
  assume "ref_dn_raw a = ref_dn_raw b"
  then have "map snd a = map snd b"
    by (metis ref_bytes_def ref_dn_raw_def option.inject unary_read_ref)
  moreover have "s = t" for s t :: dn_type by (cases s; cases t) simp
  ultimately show "a = b" by (simp add: list_eq_iff_nth_eq prod_eq_iff)
qed

lemma has_oid_ref [simp]: "has_oid oid (ref_ext e) \<longleftrightarrow> ce_oid e = oid"
proof -
  have "map unat (ce_oid e) = map unat oid \<longleftrightarrow> ce_oid e = oid"
    by (rule inj_map_eq_map) (simp add: inj_def unsigned_word_eqI)
  then show ?thesis
    by (auto simp: has_oid_def ref_ext_def)
qed

lemma ref_exts:
  "filter (has_oid oid) (map ref_ext exts) = map ref_ext (filter (\<lambda>e. ce_oid e = oid) exts)"
  by (simp add: filter_map comp_def)

lemma bytes_unat [simp]: "map (byte_of \<circ> unat) bs = bs"
  by (induction bs) simp_all

lemma ref_ext_content: "ce_oid e = oid \<Longrightarrow> map byte_of (drop (Suc (length oid)) (ref_ext e)) = ce_content e"
  by (auto simp: ref_ext_def)

lemma filter_head: "filter P xs = y # ys \<Longrightarrow> P y"
  by (metis filter_eq_ConsD)

lemma ref_cert_of:
  assumes "der_time (cp_not_before p)" and "der_time (cp_not_after p)"
  shows "\<exists>xc. x_from_der ref_x509 (snd (ref_certificate ip p signer)) = Inr xc \<and> cert_of ref_x509 ref_dn_raw signer ip p xc"
proof -
  have "0 \<le> cp_not_before p" "0 \<le> cp_not_after p" using assms by (simp_all add: der_time_def)
  then show ?thesis
    by (auto simp: ref_certificate_def ref_x509_def ref_fields_def cert_of_def extensions_of_def ref_exts ref_ext_content
        simp del: lit_simps dest: filter_head)
qed

lemma der_time_0 [simp]: "der_time 0"
  by (simp add: der_time_def)

lemma ref_rcgen_ok: "length seed = 32 \<Longrightarrow> rcgen_ok ref_ed ref_rcgen ref_x509 ref_dn_raw (seed, ed_sign ref_ed seed, seed)"
  using ref_cert_of unfolding rcgen_ok_def params_ok_def
  by (auto simp: ref_rcgen_def inj_ref_dn_raw ref_certificate_def ref_bytes_def ref_ed_def ref_x509_def
     simp del: lit_simps)

text \<open>A world without failures that holds two files in the current directory.\<close>

lemma w_files:
  assumes "m \<noteq> n"
  obtains w C D where "calm w" and "sees w C D" and "C [Normal m] = Some b" and "C [Normal n] = Some c"
    and "D []" and "\<And>k. \<not> D (path_join [] k)"
proof -
  let ?C = "content w_world" and ?D = "is_dir w_world"
  have w: "calm w_world" "sees w_world ?C ?D" "?D []" "\<And>k. \<not> ?D (path_join [] k)"
    using w_world_facts by (simp_all add: sees_def is_dir_def path_join_def) (simp_all add: w_world_def)
  obtain v where v: "sees v (?C(path_join [] m \<mapsto> b)) ?D" "calm v" using write_file_calm [OF w] by blast
  obtain u where "sees u ((?C(path_join [] m \<mapsto> b))(path_join [] n \<mapsto> c)) ?D" "calm u"
    using write_file_calm [OF v(2,1) w(3,4)] by blast
  then show thesis
    using w(3,4) assms by (intro that [of u "(?C(path_join [] m \<mapsto> b))(path_join [] n \<mapsto> c)" ?D]) (auto simp: path_join_def)
qed

end
