(* ===== verification/Cli_Reports.thy ===== *)
theory Cli_Reports
  imports Ca_Facts
begin

text \<open>
  Runs of commands under any failures of system calls: when a command prints, what holds of what it prints, and how
  many calls it makes.
\<close>

section \<open>What a program prints\<close>

text \<open>\<open>reports w p Q\<close>: from the world \<open>w\<close>, the program prints nothing and does not succeed, or prints a prefix of lines
  for which \<open>Q\<close> holds, and all of them when it succeeds.\<close>

definition reports :: "world \<Rightarrow> ('e, unit) result prog \<Rightarrow> (str list \<Rightarrow> bool) \<Rightarrow> bool" where
  "reports w p Q \<longleftrightarrow> (\<forall>r v. run p w = (r, v) \<longrightarrow>
     (stdout v = stdout w \<and> r \<noteq> Ok ()) \<or>
     (\<exists>ls k. Q ls \<and> stdout v = stdout w @ take k ls \<and> (r = Ok () \<longrightarrow> stdout v = stdout w @ ls)))"

lemma reports_mono: "reports w p Q \<Longrightarrow> (\<And>ls. Q ls \<Longrightarrow> R ls) \<Longrightarrow> reports w p R"
  unfolding reports_def by blast

lemma reports_Err: "reports w (Ret (Err e)) Q"
  by (simp add: reports_def)

lemma reports_Panic: "reports w (Ret Panic) Q"
  by (simp add: reports_def)

lemma print_lines_prefix:
  "run (print_lines ss) w = (r, v) \<Longrightarrow> \<exists>k. stdout v = stdout w @ take k ss \<and> (r = Ok () \<longrightarrow> stdout v = stdout w @ ss)"
proof (induction ss arbitrary: w)
  case (Cons s ss)
  obtain r1 :: "unit cli_result" and u where u: "run (println s) w = (r1, u)" by (metis surj_pair)
  then have "stdout u = stdout w @ [s] \<and> r1 = Ok () \<or> stdout u = stdout w \<and> r1 = Panic"
    by (auto simp: println_def exec_def pop_fault_def split: choice.splits)
  then show ?case
  proof (elim disjE conjE)
    assume a: "stdout u = stdout w @ [s]" "r1 = Ok ()"
    then have "run (print_lines ss) u = (r, v)" using Cons.prems u by (simp add: run_rbind)
    from Cons.IH [OF this] obtain k where "stdout v = stdout u @ take k ss" "r = Ok () \<longrightarrow> stdout v = stdout u @ ss" by blast
    then have "stdout v = stdout w @ take (Suc k) (s # ss)" "r = Ok () \<longrightarrow> stdout v = stdout w @ s # ss" using a(1) by simp_all
    then show ?thesis by blast
  next
    assume "stdout u = stdout w" "r1 = Panic"
    then have "stdout v = stdout w @ take 0 (s # ss)" "r = Panic" using Cons.prems u by (simp_all add: run_rbind)
    then show ?thesis by blast
  qed
qed simp

lemma reports_print: "Q ss \<Longrightarrow> reports w (print_lines ss) Q"
  unfolding reports_def using print_lines_prefix by blast

lemma reports_rbind:
  assumes "silent p" and "\<And>x u. run p w = (Ok x, u) \<Longrightarrow> reports u (f x) Q"
  shows "reports w (rbind p f) Q"
  unfolding reports_def
proof (intro allI impI)
  fix r v
  assume run: "run (rbind p f) w = (r, v)"
  obtain r1 u where u: "run p w = (r1, u)" by (cases "run p w")
  have s: "stdout u = stdout w" by (rule silent_run [OF assms(1) u])
  show "(stdout v = stdout w \<and> r \<noteq> Ok ()) \<or>
     (\<exists>ls k. Q ls \<and> stdout v = stdout w @ take k ls \<and> (r = Ok () \<longrightarrow> stdout v = stdout w @ ls))"
    using assms(2) [of _ u] run u s by (cases r1) (auto simp: run_rbind reports_def)
qed

lemma reports_ret:
  assumes "\<And>x. r = Ok x \<Longrightarrow> reports w (f x) Q"
  shows "reports w (rbind (Ret r) f) Q"
  using assms by (cases r) (auto simp: rbind_def reports_Err reports_Panic)

lemma silent_reads [simp]:
  "silent (fs_read p)" "silent (read_file p what)" "silent (fs_metadata p)" "silent (read_artifact_file p)"
  by (auto simp: fs_defs read_file_def read_artifact_file_def)

lemma reports_read:
  assumes "\<And>b u. content w p = Some b \<Longrightarrow> content u = content w \<Longrightarrow> reports u (f b) Q"
  shows "reports w (rbind (read_file p what) f) Q"
proof (rule reports_rbind)
  fix b u
  assume r: "run (read_file p what) w = (Ok b, u)"
  then have "content w p = Some b" by (auto simp: read_file_def run_perr_Ok dest: fs_read_Ok)
  moreover have "content u = content w"
    using r by (auto simp: read_file_def run_perr_Ok fs_read_def exec_def split: choice.splits option.splits entry.splits if_splits)
  ultimately show "reports u (f b) Q" by (rule assms)
qed simp

lemma reports_read_artifact:
  assumes "\<And>b u. content w p = Some b \<Longrightarrow> content u = content w \<Longrightarrow> reports u (f b) Q"
  shows "reports w (rbind (read_artifact_file p) f) Q"
proof (rule reports_rbind)
  fix b u
  assume "run (read_artifact_file p) w = (Ok b, u)"
  then obtain k n v where m: "run (fs_metadata p) w = (Ok (k, n), v)" and r: "run (read_file p (lit ''artifact file'')) v = (Ok b, u)"
    by (auto simp: read_artifact_file_def run_rbind_Ok run_perr_Ok simp del: lit_simps split: if_splits)
  have v: "content v = content w"
    using m by (auto simp: fs_metadata_def exec_def split: choice.splits option.splits entry.splits if_splits)
  have "content v p = Some b" using r by (auto simp: read_file_def run_perr_Ok dest: fs_read_Ok)
  moreover have "content u = content v"
    using r by (auto simp: read_file_def run_perr_Ok fs_read_def exec_def split: choice.splits option.splits entry.splits if_splits)
  ultimately show "reports u (f b) Q" using v assms by simp
qed simp

section \<open>The verification commands\<close>

lemma verify_run_reports:
  "reports w (verify_run rd sha ed attestation_path payload_path) (\<lambda>lines. \<exists>bs payload a.
     content w attestation_path = Some bs \<and> content w payload_path = Some payload \<and>
     verify_attestation_bytes rd sha ed bs payload = Ok a \<and>
     lines = [lit ''attestation verified'',
       lit ''signer public key (ed25519): '' @ cli_hex_lower (att_signer_public_key a),
       lit ''payload hash (sha256): '' @ cli_hex_lower (att_payload_hash a),
       lit ''signed at (unix ms): '' @ dec_int (sint (att_timestamp a))])"
  unfolding verify_run_def
proof (rule reports_read, rule reports_read, goal_cases)
  case (1 bs v payload u)
  then show ?case
    by (auto simp del: lit_simps print_lines.simps intro!: reports_print reports_Err reports_Panic
        split: result.splits trust_error.splits)
qed

lemma verify_inclusion_reports:
  "reports w (verify_inclusion_cmd env ed j artifact_path leaf verifier_key) (\<lambda>lines. \<exists>bs a l vk body.
     content w artifact_path = Some bs \<and> from_json j bs = Inr a \<and> content w leaf = Some l \<and>
     from_spec (env_sha env) (env_b64 env) verifier_key = Ok vk \<and>
     verify_inclusion_artifact (env_ct env) (env_b64 env) ed a l vk = Ok body \<and>
     lines = [lit ''inclusion verified'', lit ''origin: '' @ cb_origin body, lit ''tree size: '' @ dec64 (cb_tree_size body),
       lit ''leaf index: '' @ dec64 (ia_leaf_index a), lit ''root hash (sha256): '' @ cli_hex_lower (cb_root_hash body)])"
  unfolding verify_inclusion_cmd_def
proof (rule reports_read_artifact, rule reports_ret, rule reports_read, rule reports_ret, rule reports_ret, goal_cases)
  case (1 bs v a l u vk body)
  then show ?case by (intro reports_print exI [of _ bs] exI [of _ a] exI [of _ l] exI [of _ vk] exI [of _ body]) (auto simp: outcome)
qed

lemma verify_consistency_reports:
  "reports w (verify_consistency_cmd env ed j artifact_path verifier_key) (\<lambda>lines. \<exists>bs a vk body_1 body_2.
     content w artifact_path = Some bs \<and> from_json j bs = Inr a \<and>
     from_spec (env_sha env) (env_b64 env) verifier_key = Ok vk \<and>
     verify_consistency_artifact (env_ct env) (env_b64 env) ed a vk = Ok (body_1, body_2) \<and>
     lines = [lit ''consistency verified'', lit ''origin: '' @ cb_origin body_2,
       lit ''old tree size: '' @ dec64 (cb_tree_size body_1), lit ''new tree size: '' @ dec64 (cb_tree_size body_2),
       lit ''old root hash (sha256): '' @ cli_hex_lower (cb_root_hash body_1),
       lit ''new root hash (sha256): '' @ cli_hex_lower (cb_root_hash body_2)])"
  unfolding verify_consistency_cmd_def
proof (rule reports_read_artifact, rule reports_ret, rule reports_ret, rule reports_ret, goal_cases)
  case (1 bs v a vk x)
  obtain body_1 body_2 where x: "x = (body_1, body_2)" by (cases x)
  have "verify_consistency_artifact (env_ct env) (env_b64 env) ed a vk = Ok (body_1, body_2)" "from_json j bs = Inr a"
    "from_spec (env_sha env) (env_b64 env) verifier_key = Ok vk"
    using 1(3-5) by (auto simp: outcome x)
  with 1(1) show ?case unfolding x prod.case
    by (intro reports_print exI [of _ bs] exI [of _ a] exI [of _ vk] exI [of _ body_1] exI [of _ body_2]) simp
qed

text \<open>The instant at which a certificate is checked.\<close>

definition checked_instant :: "chrono \<Rightarrow> datetime \<Rightarrow> str option \<Rightarrow> datetime \<Rightarrow> bool" where
  "checked_instant ch now at t \<longleftrightarrow> (case at of Some value \<Rightarrow> ch_parse_rfc3339 ch value = Inr t | None \<Rightarrow> t = now)"

lemma ca_verify_reports:
  "reports w (ca_verify x b64 dbg ch ed now cert key at) (\<lambda>lines. \<exists>pem der pk t xc cb.
     content w cert = Some pem \<and> decode_certificate b64 dbg pem cert = Ok der \<and> parse_hex_32 key = Some pk \<and>
     checked_instant ch now at t \<and> x_from_der x der = Inr xc \<and> cert_signed ed xc pk \<and> cert_valid_at ch xc t \<and>
     decode_extension x der capability_claims_oid = Ok cb \<and>
     lines = [lit ''certificate verified'', lit ''issuer public key (ed25519): '' @ cli_hex_lower pk,
       lit ''checked at (rfc3339): '' @ ch_rfc3339 ch t, claims_line cb])"
  unfolding ca_verify_def
proof (rule reports_read, rule reports_ret, rule reports_ret, rule reports_ret, rule reports_ret, rule reports_ret, goal_cases)
  case (1 pem u der pk t _ cb)
  have "checked_instant ch now at t" using 1(5) by (auto simp: checked_instant_def outcome split: option.splits)
  moreover have "verify_certificate_chain_at x ch ed der pk t = Ok ()"
    using 1(6) by (auto split: result.splits trust_error.splits)
  then obtain xc where "x_from_der x der = Inr xc" "cert_signed ed xc pk" "cert_valid_at ch xc t" by (auto simp: verify_chain_Ok)
  moreover have "parse_hex_32 key = Some pk" "decode_extension x der capability_claims_oid = Ok cb"
    using 1(4,7) by (auto simp: outcome)
  ultimately show ?case
    using 1(1,3)
    by (intro reports_print exI [of _ pem] exI [of _ der] exI [of _ pk] exI [of _ t] exI [of _ xc] exI [of _ cb]) simp
qed

section \<open>Terminal safety\<close>

lemma is_terminal_safe_append [simp]: "is_terminal_safe (s @ t) \<longleftrightarrow> is_terminal_safe s \<and> is_terminal_safe t"
  by (simp add: is_terminal_safe_def)

lemma hex_safe [simp]: "is_terminal_safe (cli_hex_lower bs)"
proof -
  have "\<not> is_control c" if "c \<in> set (hex_lower bs)" for c
    using hex_lower_chars [OF that] by (auto simp: is_control_def is_ascii_hexdigit_def is_ascii_digit_def)
  then show ?thesis by (auto simp: is_terminal_safe_def list_all_iff cli_hex_lower_eq)
qed

lemma claims_line_safe [simp]: "is_terminal_safe (claims_line cb)"
proof -
  have "is_terminal_safe (lit ''capability claims: '')" "is_terminal_safe (lit ''capability claims (hex): '')"
    "is_terminal_safe (lit ''capability claims: none'')"
    by (simp_all add: is_terminal_safe_def is_control_def)
  then show ?thesis by (auto simp: claims_line_def simp del: lit_simps split: option.splits)
qed

section \<open>The number of calls\<close>

lemma calls_le_print [simp]: "length ss \<le> n \<Longrightarrow> calls_le (print_lines ss) n"
proof (induction ss arbitrary: n)
  case (Cons s ss)
  have "calls_le (println s) 1" by (auto simp: println_def)
  from calls_le_rbind [OF this, of "\<lambda>_. print_lines ss" "length ss"] Cons show ?case
    using calls_le_mono by fastforce
qed simp

lemma calls_step:
  "calls_le p m \<Longrightarrow> m \<le> n \<Longrightarrow> (\<And>x. calls_le (f x) (n - m)) \<Longrightarrow> calls_le (rbind p f) n"
  using calls_le_rbind [of p m f "n - m"] by simp

lemma calls_pstep:
  "calls_le p m \<Longrightarrow> m \<le> n \<Longrightarrow> (\<And>x. calls_le (f x) (n - m)) \<Longrightarrow> calls_le (pbind p f) n"
  using calls_le_pbind [of p m f "n - m"] by simp

lemma calls_ret: "(\<And>x. calls_le (f x) n) \<Longrightarrow> calls_le (rbind (Ret r) f) n"
  by (cases r) (simp_all add: rbind_def)

lemma calls_of_files:
  "calls_le (read_file p what) 1" "calls_le (write_file p b what) 2" "calls_le (write_file_private p b what) 2"
  "calls_le (load_identity ed p) 4" "calls_le (read_artifact_file p) 2" "calls_le (eprintln s) 1"
proof -
  show "calls_le (read_file p what) 1" unfolding read_file_def by (intro calls_le_perr fs_calls)
  have r: "calls_le (read_file p what) (Suc 0)" for what by (simp add: read_file_def calls_le_perr fs_calls_Suc)
  show "calls_le (write_file p b what) 2"
    unfolding write_file_def fs_write_def by (rule calls_le_perr, rule calls_step [OF fs_calls(5)]) (simp_all add: fs_calls_Suc)
  show "calls_le (write_file_private p b what) 2"
    unfolding write_file_private_def
    by (rule calls_step [OF calls_le_perr [OF fs_calls(5)]]) (simp_all add: fs_calls_Suc calls_le_perr)
  show "calls_le (load_identity ed p) 4"
    unfolding load_identity_def by (rule calls_pstep [OF fs_calls(2)]) (auto intro!: calls_le_perr simp: load_def load_existing_calls)
  show "calls_le (read_artifact_file p) 2"
    unfolding read_artifact_file_def by (rule calls_step [OF calls_le_perr [OF fs_calls(4)]]) (auto simp del: lit_simps simp: r split: prod.splits)
  show "calls_le (eprintln s) 1" by (simp add: eprintln_def)
qed

section \<open>The entry point\<close>

lemma main_exit:
  assumes "run (cli_main e cmd) w = (r, v)"
  shows "(r = Ok 0 \<and> run (dispatch e cmd) w = (Ok (), v)) \<or>
    (\<exists>err u. r = Ok 1 \<and> run (dispatch e cmd) w = (Err err, u) \<and> stdout v = stdout u \<and>
      stderr v = stderr u @ [lit ''error: '' @ display_cli_error (env_dbg (ce_store e)) err]) \<or>
    (r = Panic \<and> (\<exists>r' u. run (dispatch e cmd) w = (r', u) \<and> r' \<noteq> Ok () \<and> stdout v = stdout u))"
proof -
  obtain r' u where d: "run (dispatch e cmd) w = (r', u)" by (cases "run (dispatch e cmd) w")
  show ?thesis
  proof (cases r')
    case (Err err)
    then show ?thesis using assms d
      by (auto simp: cli_main_def run_pbind run_rbind eprintln_def exec_def pop_fault_def simp del: lit_simps split: choice.splits)
  qed (use assms d in \<open>auto simp: cli_main_def run_pbind\<close>)
qed

end
