(* ===== verification/Ca_Theorems.thy ===== *)
theory Ca_Theorems
  imports Reference_Ca Cli_Reports
begin

text \<open>
  Properties of the certificate authority and of \<^verbatim>\<open>lys ca\<close>: issued certificates are accepted exactly in their
  window, and what the tool prints of a certificate.
\<close>

section \<open>Properties\<close>

text \<open>The last instant of a certificate for a number of days: a whole second.\<close>

definition expiry :: "datetime \<Rightarrow> u32 \<Rightarrow> int" where
  "expiry now days = dt_secs now + 86400 * int (unat days)"

lemma dt_plus_days:
  assumes "dt_nanos now < 1000000000"
  shows "(dt_plus now (unat days * SECONDS_PER_DAY * 1000000000))\<lparr>dt_nanos := 0\<rparr> = \<lparr>dt_secs = expiry now days, dt_nanos = 0\<rparr>"
  using assms by (simp add: dt_plus_def expiry_def SECONDS_PER_DAY_def div_add1_eq)

text \<open>C34 (issued certificates verify): in a world where no call fails, \<^verbatim>\<open>lys ca issue\<close> writes a certificate for
  which \<^verbatim>\<open>lys ca verify\<close> with the issuer's key prints the claims of the claims file at every instant
  from the second of issue to the expiry, unless the subject is the issuer's own name, and at every other
  instant fails with the one verification error and prints nothing.\<close>

theorem issued_certificate_verifies:
  assumes "rcgen_ok ed rc x dn_raw k" and "chrono_ok ch" and "ed25519_signs ed" and "base64_standard b64"
    and "C key = Some seed" and "length seed = 32" and "claims_given C value_error claims cb"
    and "str_trim subject \<noteq> []" and "0 < days" and "dt_nanos now < 1000000000"
    and "der_time (dt_secs now)" and "der_time (expiry now days)" and "D d" and "\<not> D (path_join d n)"
  shows "\<exists>pem lines. does C D (ca_issue sha b64 ed ch rc value_error (Inr k) now key subject claims days (path_join d n)) (Ok ())
      (C(path_join d n \<mapsto> pem)) lines \<and>
    (\<forall>value at dbg now'. ch_parse_rfc3339 ch value = Inr at \<longrightarrow>
      (if subject \<noteq> hex_lower (ed_public ed seed) \<and> dt_secs now \<le> dt_secs at \<and>
          (dt_secs at < expiry now days \<or> dt_secs at = expiry now days \<and> dt_nanos at = 0)
       then does (C(path_join d n \<mapsto> pem)) D
         (ca_verify x b64 dbg ch ed now' (path_join d n) (cli_hex_lower (ed_public ed seed)) (Some value)) (Ok ())
         (C(path_join d n \<mapsto> pem))
         [lit ''certificate verified'', lit ''issuer public key (ed25519): '' @ cli_hex_lower (ed_public ed seed),
          lit ''checked at (rfc3339): '' @ ch_rfc3339 ch at, claims_line cb]
       else does (C(path_join d n \<mapsto> pem)) D
         (ca_verify x b64 dbg ch ed now' (path_join d n) (cli_hex_lower (ed_public ed seed)) (Some value))
         (Err CertificateVerificationFailed) (C(path_join d n \<mapsto> pem)) []))"
proof -
  let ?i = "from_seed ed seed" and ?ttl = "unat days * SECONDS_PER_DAY * 1000000000"
  have i: "wf_identity ed ?i" "public_key_bytes ?i = ed_public ed seed" using assms(6) by (simp_all add: wf_identity_def from_seed_def public_key_bytes_def)
  have days: "0 < unat days" using assms(9) by (simp add: word_less_nat_alt)
  have "unat days < 2 ^ 32" using unsigned_less [of days] by simp
  then have ttl: "0 < ?ttl" "?ttl \<le> (2 ^ 63 - 1) * 1000000" using days by (simp_all add: SECONDS_PER_DAY_def)
  note e = dt_plus_days [OF assms(10), of days]
  have "der_time (dt_secs (dt_plus now ?ttl))" using assms(12) arg_cong [OF e, of dt_secs] by simp
  from issue_Ok [OF assms(1-3) i(1) assms(8) ttl assms(10,11) this, of "claims_extensions cb" sha, OF claims_oid_ok(2) [OF assms(1)]]
  obtain ic xc where ic: "issue_certificate sha ed ch rc (Inr k) now (authority_new ?i) subject ?ttl (claims_extensions cb) = Ok ic"
    "ic_der_bytes ic \<noteq> []" "x_from_der x (ic_der_bytes ic) = Inr xc" "extensions_of x xc (claims_extensions cb)"
    "\<And>at. if subject \<noteq> hex_lower (public_key_bytes ?i) \<and> dt_secs now \<le> dt_secs at \<and> \<not> dt_less ((dt_plus now ?ttl)\<lparr>dt_nanos := 0\<rparr>) at
      then verify_certificate_chain_at x ch ed (ic_der_bytes ic) (public_key_bytes ?i) at = Ok ()
      else \<exists>r. verify_certificate_chain_at x ch ed (ic_der_bytes ic) (public_key_bytes ?i) at = Err (CertificateVerification r)"
    by metis
  let ?pem = "utf8_encode (encode_certificate b64 (ic_der_bytes ic))"
  have pk: "length (ed_public ed seed) = 32" using assms(3,6) by (rule ed25519_signsD)
  have at: "\<not> dt_less ((dt_plus now ?ttl)\<lparr>dt_nanos := 0\<rparr>) at \<longleftrightarrow>
      dt_secs at < expiry now days \<or> dt_secs at = expiry now days \<and> dt_nanos at = 0" for at
    unfolding e by (auto simp: dt_less_def)
  have written: "(C(path_join d n \<mapsto> ?pem)) (path_join d n) = Some ?pem" by simp
  obtain lines where "does C D (ca_issue sha b64 ed ch rc value_error (Inr k) now key subject claims days (path_join d n)) (Ok ())
      (C(path_join d n \<mapsto> ?pem)) lines"
    using does_ca_issue [where rc = rc, OF assms(5-7) ic(1) assms(13,14)] by blast
  moreover note V = does_ca_verify [where C = "C(path_join d n \<mapsto> ?pem)" and cert = "path_join d n", OF written assms(4) ic(2) pk]
  note V1 = V(1) [OF _ _ decode_claims [OF assms(1) ic(3,4)]]
  note checked = ic(5) [unfolded at i(2)]
  ultimately show ?thesis
  proof (intro exI [of _ ?pem] exI [of _ lines] conjI allI impI)
    fix "value" at dbg now'
    assume p: "ch_parse_rfc3339 ch value = Inr at"
    from checked [of at] V1 [OF p, of ed] V(2) [OF p, of x ed]
    show "if subject \<noteq> hex_lower (ed_public ed seed) \<and> dt_secs now \<le> dt_secs at \<and>
          (dt_secs at < expiry now days \<or> dt_secs at = expiry now days \<and> dt_nanos at = 0)
       then does (C(path_join d n \<mapsto> ?pem)) D
         (ca_verify x b64 dbg ch ed now' (path_join d n) (cli_hex_lower (ed_public ed seed)) (Some value)) (Ok ())
         (C(path_join d n \<mapsto> ?pem))
         [lit ''certificate verified'', lit ''issuer public key (ed25519): '' @ cli_hex_lower (ed_public ed seed),
          lit ''checked at (rfc3339): '' @ ch_rfc3339 ch at, claims_line cb]
       else does (C(path_join d n \<mapsto> ?pem)) D
         (ca_verify x b64 dbg ch ed now' (path_join d n) (cli_hex_lower (ed_public ed seed)) (Some value))
         (Err CertificateVerificationFailed) (C(path_join d n \<mapsto> ?pem)) []"
      by (simp only: split: if_splits) blast+
  qed
qed


theorem issued_certificate_verifies_witness:
  "\<exists>w v u. run (ca_issue ref_sha ref_b64 ref_ed ref_chrono ref_rcgen (\<lambda>_. None) (Inr (replicate 32 7, ed_sign ref_ed (replicate 32 7), replicate 32 7))
       \<lparr>dt_secs = 2, dt_nanos = 5\<rparr> [Normal (Uni (lit ''ca.key''))] (lit ''alice'') (Some [Normal (Uni (lit ''claims''))]) 1
       (path_join [] (Uni (lit ''a.pem'')))) w = (Ok (), v) \<and>
     run (ca_verify ref_x509 ref_b64 id ref_chrono ref_ed \<lparr>dt_secs = 9, dt_nanos = 0\<rparr> (path_join [] (Uni (lit ''a.pem'')))
       (cli_hex_lower w_seed) (Some (lit ''when''))) v = (Ok (), u) \<and>
     stdout u = stdout v @ [lit ''certificate verified'', lit ''issuer public key (ed25519): '' @ cli_hex_lower w_seed,
       lit ''checked at (rfc3339): '' @ lit ''4'', lit ''capability claims: {}'']"
proof -
  let ?k = "[Normal (Uni (lit ''ca.key''))]" and ?c = "[Normal (Uni (lit ''claims''))]" and ?s = "replicate 32 (7 :: byte)"
  let ?o = "path_join [] (Uni (lit ''a.pem''))"
  obtain w C D where w: "calm w" "sees w C D" "C ?k = Some w_seed" "C ?c = Some [123, 125]" "D []" "\<not> D ?o"
    by (rule w_files [of "Uni (lit ''ca.key'')" "Uni (lit ''claims'')" w_seed "[123, 125]"]) auto
  have seed: "length w_seed = 32" "length ?s = 32" by (simp_all add: w_seed_def)
  have claims: "claims_given C (\<lambda>_. None) (Some ?c) (Some [123, 125])" using w(4) by (simp add: claims_given_def)
  have arith: "str_trim (lit ''alice'') \<noteq> []" "(0 :: u32) < 1" "dt_nanos \<lparr>dt_secs = 2, dt_nanos = 5\<rparr> < 1000000000"
    "der_time (dt_secs \<lparr>dt_secs = 2, dt_nanos = 5\<rparr>)" "der_time (expiry \<lparr>dt_secs = 2, dt_nanos = 5\<rparr> 1)"
    by (simp add: str_trim_def is_whitespace_def, simp, simp, simp add: der_time_def, simp add: der_time_def expiry_def)
  have name: "lit ''alice'' \<noteq> hex_lower (ed_public ref_ed w_seed)"
    using length_hex_lower [of w_seed] seed by (auto simp: ref_ed_def dest: arg_cong [of _ _ length])
  have at: "ch_parse_rfc3339 ref_chrono (lit ''when'') = Inr \<lparr>dt_secs = 4, dt_nanos = 0\<rparr>" by (simp add: ref_chrono_def)
  have line: "claims_line (Some [123, 125]) = lit ''capability claims: {}''"
    using from_utf8_encode [OF wf_str_ascii, of "[123, 125]"]
    by (simp add: claims_line_def utf8_encode_ascii byte_of_def is_terminal_safe_def is_control_def)
  have shown: "ch_rfc3339 ref_chrono \<lparr>dt_secs = 4, dt_nanos = 0\<rparr> = lit ''4''"
    by (simp add: ref_chrono_def dec_int_def dec.simps)
  have pk: "ed_public ref_ed w_seed = w_seed" by (simp add: ref_ed_def)
  have inside: "lit ''alice'' \<noteq> hex_lower w_seed \<and> dt_secs \<lparr>dt_secs = 2, dt_nanos = 5\<rparr> \<le> dt_secs \<lparr>dt_secs = 4, dt_nanos = 0\<rparr> \<and>
      (dt_secs \<lparr>dt_secs = 4, dt_nanos = 0\<rparr> < expiry \<lparr>dt_secs = 2, dt_nanos = 5\<rparr> 1 \<or>
       dt_secs \<lparr>dt_secs = 4, dt_nanos = 0\<rparr> = expiry \<lparr>dt_secs = 2, dt_nanos = 5\<rparr> 1 \<and> dt_nanos \<lparr>dt_secs = 4, dt_nanos = 0\<rparr> = 0)"
    using name pk by (simp add: expiry_def del: lit_simps)
  from issued_certificate_verifies [OF ref_rcgen_ok [OF seed(2)] ref_chrono_ok ref_ed_signs ref_b64_standard w(3) seed(1) claims arith w(5,6),
      of ref_sha, unfolded pk]
  show ?thesis
  proof (elim exE conjE, goal_cases)
    case (1 pem lines)
    note verified = 1(2) [rule_format, OF at, of id "\<lparr>dt_secs = 9, dt_nanos = 0\<rparr>", unfolded if_P [OF inside] line shown]
    obtain v where v: "run (ca_issue ref_sha ref_b64 ref_ed ref_chrono ref_rcgen (\<lambda>_. None) (Inr (?s, ed_sign ref_ed ?s, ?s))
         \<lparr>dt_secs = 2, dt_nanos = 5\<rparr> ?k (lit ''alice'') (Some ?c) 1 ?o) w = (Ok (), v)" "calm v" "sees v (C(?o \<mapsto> pem)) D"
      by (rule doesD [OF 1(1) w(1,2)])
    from doesD [OF verified v(2,3)] v(1) show ?case by blast
  qed
qed

text \<open>C35 (nothing unverified is shown, nothing unsafe is printed): whatever calls fail, \<^verbatim>\<open>lys ca verify\<close> changes no file, and
  if it prints anything or succeeds, it has read a certificate that the given key signed and that is valid at the instant
  checked; no line that it prints has a control character other than a line feed or a tab, whatever the claims are.\<close>

theorem ca_verify_output:
  assumes "\<And>t. is_terminal_safe (ch_rfc3339 ch t)"
  shows "read_only (ca_verify x b64 dbg ch ed now cert key at) \<and>
    reports w (ca_verify x b64 dbg ch ed now cert key at) (\<lambda>lines.
      list_all is_terminal_safe lines \<and>
      (\<exists>pem der pk t xc. content w cert = Some pem \<and> decode_certificate b64 dbg pem cert = Ok der \<and> parse_hex_32 key = Some pk \<and>
         checked_instant ch now at t \<and> x_from_der x der = Inr xc \<and> cert_signed ed xc pk \<and> cert_valid_at ch xc t))"
proof
  show "read_only (ca_verify x b64 dbg ch ed now cert key at)"
    by (auto simp: ca_verify_def simp del: print_lines.simps lit_simps)
  have lits: "is_terminal_safe (lit ''certificate verified'')" "is_terminal_safe (lit ''issuer public key (ed25519): '')"
    "is_terminal_safe (lit ''checked at (rfc3339): '')"
    by (simp_all add: is_terminal_safe_def is_control_def)
  show "reports w (ca_verify x b64 dbg ch ed now cert key at) (\<lambda>lines.
      list_all is_terminal_safe lines \<and>
      (\<exists>pem der pk t xc. content w cert = Some pem \<and> decode_certificate b64 dbg pem cert = Ok der \<and> parse_hex_32 key = Some pk \<and>
         checked_instant ch now at t \<and> x_from_der x der = Inr xc \<and> cert_signed ed xc pk \<and> cert_valid_at ch xc t))"
    by (rule reports_mono [OF ca_verify_reports]) (use assms lits in \<open>auto simp del: lit_simps\<close>)
qed

theorem ca_verify_output_witness:
  "reports w_world (ca_verify ref_x509 ref_b64 id ref_chrono ref_ed \<lparr>dt_secs = 9, dt_nanos = 0\<rparr> [] [] None)
     (\<lambda>lines. list_all is_terminal_safe lines)"
proof -
  have "is_terminal_safe (dec n)" for n
    using dec_digits [of _ n] by (fastforce simp: is_terminal_safe_def list_all_iff is_control_def is_ascii_digit_def)
  then have "is_terminal_safe (ch_rfc3339 ref_chrono t)" for t
    by (auto simp: ref_chrono_def dec_int_def is_terminal_safe_def is_control_def)
  from ca_verify_output [OF this] show ?thesis by (blast intro: reports_mono)
qed

end
