(* ===== verification/Cli_Roundtrips.thy ===== *)
theory Cli_Roundtrips
  imports Cli_Runs Seal_Theorems
begin

text \<open>
  What one command writes, another accepts: runs of \<^verbatim>\<open>lys log prove\<close> with \<^verbatim>\<open>lys log verify\<close> and of \<^verbatim>\<open>lys seal\<close> with
  \<^verbatim>\<open>lys open\<close>, in a world where no call fails.
\<close>

section \<open>Proofs\<close>

lemma spec_of_key:
  assumes "env_ok env" and "length pk = 32" and "verifier_key_new (env_sha env) origin pk = Ok vk"
  shows "map_err Trust (from_spec (env_sha env) (env_b64 env) (to_spec (env_b64 env) vk)) = Ok vk"
  using vkey_spec.parse_enc [of "env_sha env" "env_b64 env" vk] verifier_key_new_wf [OF _ assms(2,3)] env_okD(1,2) [OF assms(1)]
  by simp

lemma does_prove_inclusion:
  assumes "env_ok env" and "json_ok j" and "log_at env dir origin ls ls C D" and "C key = Some seed" and "length seed = 32"
    and "reconstruct_from_raw_leaves (env_ct env) ls = Ok t" and "unat idx < length ls"
    and "build_inclusion_artifact (env_ct env) (env_sha env) (env_b64 env) ed t (ls ! unat idx) origin (from_seed ed seed) idx = Ok a"
    and "D d" and "\<not> D (path_join d n)"
  shows "\<exists>lines. does C D (prove_inclusion_cmd env ed j dir key idx (path_join d n)) (Ok ()) (C(path_join d n \<mapsto> json_bytes j a)) lines"
proof -
  let ?store = "\<lparr>st_dir = dir, st_origin = origin, st_leaves = ls, st_tree = t\<rparr>"
  have load: "does C D (load_identity ed key) (Ok (from_seed ed seed)) C []" by (rule does_load) (use assms in auto)
  have leaf: "ok_or e (store_leaf_bytes ?store idx) = Ok (ls ! unat idx)" for e :: cli_error
    using assms(7) by (simp add: store_leaf_bytes_def usize_try_from_def)
  have art: "map_err Trust (build_inclusion_artifact (env_ct env) (env_sha env) (env_b64 env) ed (st_tree ?store) (ls ! unat idx)
      (st_origin ?store) (from_seed ed seed) idx) = Ok a"
    using assms(8) by simp
  show ?thesis
    unfolding prove_inclusion_cmd_def case_prod_unfold
    by (rule exI) (rule does_silent [OF does_store_open [OF assms(1,3,6)]] does_silent [OF load] does_ret [OF leaf] does_ret [OF art]
      does_silent [OF does_write_artifact [OF assms(2,9,10)]] does_print)+
qed

lemma does_verify_inclusion:
  assumes "env_ok env" and "json_ok j" and "C out = Some (json_bytes j a)" and "length (json_bytes j a) \<le> MAX_ARTIFACT_BYTES"
    and "C leaf = Some l" and "length pk = 32" and "verifier_key_new (env_sha env) origin pk = Ok vk"
    and "verify_inclusion_artifact (env_ct env) (env_b64 env) ed a l vk = Ok body"
  shows "does C D (verify_inclusion_cmd env ed j out leaf (to_spec (env_b64 env) vk)) (Ok ()) C
    [lit ''inclusion verified'', lit ''origin: '' @ cb_origin body, lit ''tree size: '' @ dec64 (cb_tree_size body),
     lit ''leaf index: '' @ dec64 (ia_leaf_index a), lit ''root hash (sha256): '' @ cli_hex_lower (cb_root_hash body)]"
proof -
  have art: "does C D (read_artifact_file out) (Ok (json_bytes j a)) C []" by (rule does_read_artifact) (use assms in auto)
  have input: "does C D (read_file leaf (lit ''leaf file'')) (Ok l) C []" by (rule does_read) (rule assms(5))
  have parse: "map_err (\<lambda>source. JsonParse (lit ''inclusion proof artifact'') out source) (of_sum (from_json j (json_bytes j a))) = Ok a"
    using json_bytes(2) [OF assms(2)] by simp
  have ok: "map_err (\<lambda>_. LogInclusionVerificationFailed) (verify_inclusion_artifact (env_ct env) (env_b64 env) ed a l vk) = Ok body"
    using assms(8) by simp
  show ?thesis
    unfolding verify_inclusion_cmd_def
    by (rule does_silent [OF art] does_ret [OF parse] does_silent [OF input] does_ret [OF spec_of_key [OF assms(1,6,7)]] does_ret [OF ok]
      does_print)+
qed

lemma does_prove_consistency:
  assumes "env_ok env" and "json_ok j" and "log_at env dir origin ls ls C D" and "C key = Some seed" and "length seed = 32"
    and "reconstruct_from_raw_leaves (env_ct env) ls = Ok t" and "unat old < length ls"
    and "prefix_tree env \<lparr>st_dir = dir, st_origin = origin, st_leaves = ls, st_tree = t\<rparr> old = Ok old_tree"
    and "build_consistency_artifact (env_ct env) (env_sha env) (env_b64 env) ed old_tree t origin (from_seed ed seed) = Ok a"
    and "D d" and "\<not> D (path_join d n)"
  shows "\<exists>lines. does C D (prove_consistency_cmd env ed j dir key old (path_join d n)) (Ok ()) (C(path_join d n \<mapsto> json_bytes j a)) lines"
proof -
  let ?store = "\<lparr>st_dir = dir, st_origin = origin, st_leaves = ls, st_tree = t\<rparr>"
  have load: "does C D (load_identity ed key) (Ok (from_seed ed seed)) C []" by (rule does_load) (use assms in auto)
  have t: "tree_holds (env_ct env) ls t" by (rule reconstruct_raw_Ok [OF assms(6)])
  have "\<not> old \<ge> tree_len (env_ct env) (st_tree ?store)"
    using tree_holds_length [OF env_okD(3) [OF assms(1)] t] tree_holds_len [OF env_okD(3) [OF assms(1)] t] assms(7)
    by (simp add: word_le_nat_alt)
  then have open_branch: "(if old \<ge> tree_len (env_ct env) (st_tree ?store) then x else y) = y" for x y :: "unit cli_result prog" by simp
  have art: "map_err Trust (build_consistency_artifact (env_ct env) (env_sha env) (env_b64 env) ed old_tree (st_tree ?store)
      (st_origin ?store) (from_seed ed seed)) = Ok a"
    using assms(9) by simp
  show ?thesis
    unfolding prove_consistency_cmd_def case_prod_unfold Let_def
    by (rule exI) ((rule does_silent [OF does_store_open [OF assms(1,3,6)]] does_silent [OF load] does_ret [OF assms(8)] does_ret [OF art]
      does_silent [OF does_write_artifact [OF assms(2,10,11)]] does_print | subst open_branch)+)
qed

lemma does_verify_consistency:
  assumes "env_ok env" and "json_ok j" and "C out = Some (json_bytes j a)" and "length (json_bytes j a) \<le> MAX_ARTIFACT_BYTES"
    and "length pk = 32" and "verifier_key_new (env_sha env) origin pk = Ok vk"
    and "verify_consistency_artifact (env_ct env) (env_b64 env) ed a vk = Ok (b1, b2)"
  shows "does C D (verify_consistency_cmd env ed j out (to_spec (env_b64 env) vk)) (Ok ()) C
    [lit ''consistency verified'', lit ''origin: '' @ cb_origin b2,
     lit ''old tree size: '' @ dec64 (cb_tree_size b1), lit ''new tree size: '' @ dec64 (cb_tree_size b2),
     lit ''old root hash (sha256): '' @ cli_hex_lower (cb_root_hash b1),
     lit ''new root hash (sha256): '' @ cli_hex_lower (cb_root_hash b2)]"
proof -
  have art: "does C D (read_artifact_file out) (Ok (json_bytes j a)) C []" by (rule does_read_artifact) (use assms in auto)
  have parse: "map_err (\<lambda>source. JsonParse (lit ''consistency proof artifact'') out source) (of_sum (from_json j (json_bytes j a))) = Ok a"
    using json_bytes(2) [OF assms(2)] by simp
  have ok: "map_err (\<lambda>_. LogConsistencyVerificationFailed) (verify_consistency_artifact (env_ct env) (env_b64 env) ed a vk) = Ok (b1, b2)"
    using assms(7) by simp
  have "does C D (case (b1, b2) of (body_1, body_2) \<Rightarrow> print_lines
       [lit ''consistency verified'', lit ''origin: '' @ cb_origin body_2,
        lit ''old tree size: '' @ dec64 (cb_tree_size body_1), lit ''new tree size: '' @ dec64 (cb_tree_size body_2),
        lit ''old root hash (sha256): '' @ cli_hex_lower (cb_root_hash body_1),
        lit ''new root hash (sha256): '' @ cli_hex_lower (cb_root_hash body_2)]) (Ok ()) C
    [lit ''consistency verified'', lit ''origin: '' @ cb_origin b2,
     lit ''old tree size: '' @ dec64 (cb_tree_size b1), lit ''new tree size: '' @ dec64 (cb_tree_size b2),
     lit ''old root hash (sha256): '' @ cli_hex_lower (cb_root_hash b1),
     lit ''new root hash (sha256): '' @ cli_hex_lower (cb_root_hash b2)]"
    unfolding prod.case by (rule does_print)
  then show ?thesis
    unfolding verify_consistency_cmd_def
    by (intro does_silent [OF art] does_ret [OF parse] does_ret [OF spec_of_key [OF assms(1,5,6)]] does_ret [OF ok])
qed

section \<open>Sealing\<close>

lemma does_seal:
  assumes "json_ok j" and "C key = Some seed" and "length seed = 32" and "length pk = 32" and "C payload = Some m"
    and "sign_and_seal c sha ed eph now m (from_seed ed seed) pk = Ok (env, att)"
    and "D d" and "\<not> D (path_join d n)" and "D d'" and "\<not> D (path_join d' n')"
  shows "\<exists>lines. does C D (seal_cmd c sha ed j eph now key (cli_hex_lower pk) payload (path_join d n) (path_join d' n')) (Ok ())
    (C(path_join d n \<mapsto> json_bytes j env, path_join d' n' \<mapsto> to_cose_bytes att)) lines"
proof -
  have load: "does C D (load_identity ed key) (Ok (from_seed ed seed)) C []" by (rule does_load) (use assms in auto)
  have hex: "ok_or InvalidRecipientPublicKey (parse_hex_32 (cli_hex_lower pk)) = Ok pk" using assms(4) by (simp add: hex_roundtrip)
  have input: "does C D (read_file payload (lit ''payload file'')) (Ok m) C []" by (rule does_read) (rule assms(5))
  have sealed: "map_err Trust (sign_and_seal c sha ed eph now m (from_seed ed seed) pk) = Ok (env, att)" using assms(6) by simp
  obtain s where s: "to_pretty j env = Inr s" using assms(1) by (auto simp: json_ok_def)
  then have b: "json_bytes j env = utf8_encode (s @ [NL])"
    and json: "map_err (\<lambda>source. JsonSerialize (lit ''sealed envelope'') source) (of_sum (to_pretty j env)) = Ok s"
    by (simp_all add: json_bytes_def)
  let ?C = "C(path_join d n \<mapsto> json_bytes j env)"
  note w = does_pbind [OF does_write [where C = ?C, OF assms(9,10), of "to_cose_bytes att"]]
  show ?thesis
    unfolding seal_cmd_def
    apply (rule exI)
    apply (rule does_silent [OF load] does_ret [OF hex] does_silent [OF input] does_ret [OF sealed])+
    unfolding prod.case
    apply (rule does_ret [OF json])
    apply (unfold b [symmetric])
    apply (rule does_silent [OF does_write [where C = C, OF assms(7,8)]])
    apply (rule w)
    unfolding result.case
    apply (rule does_print)
    done
qed

lemma does_open:
  assumes "json_ok j" and "cbor_reads rd" and "wf_attestation att" and "C key = Some seed" and "length seed = 32" and "length pk = 32"
    and "C envelope = Some (json_bytes j env)" and "C attestation = Some (to_cose_bytes att)"
    and "open_and_verify c sha ed env att pk (x25519_static_secret c (from_seed ed seed)) = Ok m"
    and "D d" and "\<not> D (path_join d n)"
  shows "does C D (open_cmd c sha ed rd j key (cli_hex_lower pk) envelope attestation (path_join d n)) (Ok ()) (C(path_join d n \<mapsto> m))
    [lit ''sealed envelope opened'', lit ''sender public key (ed25519): '' @ cli_hex_lower pk,
     lit ''payload bytes: '' @ dec (length m), lit ''payload written: '' @ display_path (path_join d n)]"
proof -
  have load: "does C D (load_identity ed key) (Ok (from_seed ed seed)) C []" by (rule does_load) (use assms in auto)
  have hex: "ok_or InvalidSenderPublicKey (parse_hex_32 (cli_hex_lower pk)) = Ok pk" using assms(6) by (simp add: hex_roundtrip)
  have files: "does C D (read_file envelope (lit ''sealed envelope file'')) (Ok (json_bytes j env)) C []"
    "does C D (read_file attestation (lit ''seal attestation file'')) (Ok (to_cose_bytes att)) C []"
    by (rule does_read, rule assms)+
  have parse: "map_err (\<lambda>source. JsonParse (lit ''sealed envelope'') envelope source) (of_sum (from_json j (json_bytes j env))) = Ok env"
    "map_err (\<lambda>_. OpenFailed) (from_cose_bytes rd (to_cose_bytes att)) = Ok att"
    using json_bytes(2) [OF assms(1)] cose.parse_enc [OF assms(2,3)] by simp_all
  have opened: "map_err (\<lambda>_. OpenFailed) (open_and_verify c sha ed env att pk (x25519_static_secret c (from_seed ed seed))) = Ok m"
    using assms(9) by simp
  show ?thesis
    unfolding open_cmd_def
    by (rule does_silent [OF load] does_ret [OF hex] does_silent [OF files(1)] does_ret [OF parse(1)] does_silent [OF files(2)]
      does_ret [OF parse(2)] does_ret [OF opened] does_silent [OF does_write_private [OF assms(10,11)]] does_print)+
qed

end
