(* ===== verification/Reference_Cli.thy ===== *)
theory Reference_Cli
  imports Reference_Ca Seal_Theorems Tlog_Theorems
begin

text \<open>
  The crates of the tool all together, at the instances of the reference theories.
\<close>

definition ref_consistency_json :: "consistency_artifact json" where
  "ref_consistency_json = ref_json
     (\<lambda>a. [ca_format a, [unat (ca_tree_size_1 a), unat (ca_tree_size_2 a)], ca_checkpoint_1 a, ca_checkpoint_2 a] @ ca_hashes a)
     (\<lambda>ts. case ts of f # [m, n] # c # d # hs \<Rightarrow> Some \<lparr>ca_format = f, ca_tree_size_1 = of_nat m, ca_tree_size_2 = of_nat n,
        ca_hashes = hs, ca_checkpoint_1 = c, ca_checkpoint_2 = d\<rparr> | _ \<Rightarrow> None)"

definition ref_envelope_json :: "sealed_envelope json" where
  "ref_envelope_json = ref_json
     (\<lambda>e. [map unat (se_ephemeral_public_key e), map unat (se_ciphertext e), map unat (se_nonce e)])
     (\<lambda>ts. case ts of [k, c, n] \<Rightarrow> Some \<lparr>se_ephemeral_public_key = map byte_of k, se_ciphertext = map byte_of c,
        se_nonce = map byte_of n\<rparr> | _ \<Rightarrow> None)"

lemma ref_cli_jsons_ok [simp]: "json_ok ref_consistency_json" "json_ok ref_envelope_json"
  unfolding ref_consistency_json_def ref_envelope_json_def by (rule ref_json_ok; simp)+

definition ref_cli :: "(bytes list, bytes \<times> (bytes \<Rightarrow> bytes) \<times> bytes, cert_params \<times> bytes) cli_env" where
  "ref_cli = \<lparr>ce_store = ref_env, ce_ed = ref_ed, ce_seal = ref_seal, ce_cbor = ref_cbor, ce_x509 = ref_x509,
     ce_chrono = ref_chrono, ce_rcgen = ref_rcgen, ce_inclusion = ref_inclusion_json, ce_consistency = ref_consistency_json,
     ce_envelope = ref_envelope_json, ce_value_error = (\<lambda>_. None), ce_pid = 7, ce_random = replicate 32 9,
     ce_subject_key = Inr (replicate 32 7, ed_sign ref_ed (replicate 32 7), replicate 32 7), ce_now_ms = 5,
     ce_now = \<lparr>dt_secs = 2, dt_nanos = 5\<rparr>\<rparr>"

end
