(* ===== verification/Seal_Failures.thy ===== *)
theory Seal_Failures
  imports Cli_Roundtrips Reference_Cli
begin

text \<open>
  What a failed \<^verbatim>\<open>lys seal\<close> leaves behind. A program runs up to its first failing call as it does in a world where no
  call fails, so a run with one failure is a run without one, cut at that call.
\<close>

section \<open>Runs up to the first failure\<close>

primrec ncalls :: "'a prog \<Rightarrow> world \<Rightarrow> nat" where
  "ncalls (Ret x) w = 0"
| "ncalls (Call c k) w = Suc (ncalls (k (fst (exec c w))) (snd (exec c w)))"

lemma view_faults [simp]:
  "lookup (w\<lparr>faults := f\<rparr>) = lookup w" "is_dir (w\<lparr>faults := f\<rparr>) = is_dir w" "names_in (w\<lparr>faults := f\<rparr>) p = names_in w p"
  by (simp_all add: is_dir_def [abs_def] names_in_def)

lemma ops_faults [simp]:
  "set_entry p x (w\<lparr>faults := f\<rparr>) = (set_entry p x w)\<lparr>faults := f\<rparr>" "del_entry p (w\<lparr>faults := f\<rparr>) = (del_entry p w)\<lparr>faults := f\<rparr>"
  "set_inode i y (w\<lparr>faults := f\<rparr>) = (set_inode i y w)\<lparr>faults := f\<rparr>" "write_data i b (w\<lparr>faults := f\<rparr>) = (write_data i b w)\<lparr>faults := f\<rparr>"
  by (simp_all add: set_entry_def del_entry_def set_inode_def write_data_def)

lemma make_dirs_faults: "make_dirs ps (w\<lparr>faults := f\<rparr>) = apsnd (\<lambda>v. v\<lparr>faults := f\<rparr>) (make_dirs ps w)"
  by (induction ps w rule: make_dirs.induct) (auto split: option.splits entry.splits)

lemma perform_faults: "perform c (w\<lparr>faults := f\<rparr>) = apsnd (\<lambda>v. v\<lparr>faults := f\<rparr>) (perform c w)"
  by (cases c) (auto simp: open_write_def make_dirs_faults split: option.splits entry.splits)

lemma exec_stays_calm:
  assumes "calm w"
  shows "calm (snd (exec c w))"
proof -
  have "w\<lparr>faults := \<lambda>_. Run\<rparr> = w" using assms by (simp add: calm_def)
  with perform_faults [of c "\<lambda>_. Run" w] have "snd (perform c w) = (snd (perform c w))\<lparr>faults := \<lambda>_. Run\<rparr>" by (metis snd_apsnd)
  then have "faults (snd (perform c w)) = (\<lambda>_. Run)" by (metis world.select_convs(7) world.surjective world.update_convs(7))
  then show ?thesis by (simp add: calm_def exec_calm [OF assms])
qed

lemma run_shift:
  assumes "calm w" and "\<And>i. i < ncalls p w \<Longrightarrow> f i = Run"
  shows "run p (w\<lparr>faults := f\<rparr>) = (fst (run p w), (snd (run p w))\<lparr>faults := \<lambda>i. f (i + ncalls p w)\<rparr>)"
  using assms
proof (induction p arbitrary: w f)
  case (Call c k)
  let ?v = "snd (exec c w)" and ?r = "fst (exec c w)"
  have v: "calm ?v" using Call.prems(1) by (rule exec_stays_calm)
  have "exec c (w\<lparr>faults := f\<rparr>) = (?r, ?v\<lparr>faults := \<lambda>i. f (Suc i)\<rparr>)"
    using Call.prems(2) [of 0] perform_faults [of c "\<lambda>i. f (Suc i)" w]
    unfolding exec_calm [OF Call.prems(1)] by (simp add: exec_def pop_fault_def apsnd_def map_prod_def case_prod_beta)
  with Call.IH [OF rangeI v, of ?r "\<lambda>i. f (Suc i)"] Call.prems(2) show ?case by simp
qed simp

text \<open>One failure, after \<open>m\<close> calls.\<close>

definition fail_at :: "nat \<Rightarrow> io_error \<Rightarrow> nat \<Rightarrow> nat \<Rightarrow> choice" where
  "fail_at m e k i = (if i = m then Fail e k else Run)"

lemma shifted_step:
  assumes "does C D p (Ok x) C' []" and "calm w" and "sees w C D" and "m = ncalls p w + n"
  obtains v where "calm v" and "sees v C' D" and "run p (w\<lparr>faults := fail_at m e k\<rparr>) = (Ok x, v\<lparr>faults := fail_at n e k\<rparr>)"
proof -
  obtain v where v: "run p w = (Ok x, v)" "calm v" "sees v C' D" by (rule doesD [OF assms(1-3)])
  have "(\<lambda>i. fail_at m e k (i + ncalls p w)) = fail_at n e k" using assms(4) by (auto simp: fail_at_def fun_eq_iff)
  with run_shift [OF assms(2), of p "fail_at m e k"] v that assms(4) show thesis by (simp add: fail_at_def)
qed

section \<open>Sealing\<close>

text \<open>The calls of a run of \<^verbatim>\<open>lys seal\<close> before the one that writes the attestation.\<close>

definition seal_calls_before :: "ed25519 \<Rightarrow> path \<Rightarrow> world \<Rightarrow> nat" where
  "seal_calls_before ed key w = ncalls (load_identity ed key) w + 4"

lemma ncalls_write: "calm w \<Longrightarrow> run (write_file p b what) w = (Ok (), v) \<Longrightarrow> ncalls (write_file p b what) w = 2"
  by (auto simp: write_file_def fs_write_def fs_open_def fs_unit_def perr_def rbind_def split: reply.splits)

lemma ncalls_read: "ncalls (read_file p what) w = 1"
  by (simp add: read_file_def perr_def fs_read_def split: reply.splits)

lemma torn_write:
  assumes "calm w" and "sees w C D" and "D d" and "\<not> D (path_join d n)" and "f 0 = Run" and "f 1 = Fail e j"
  shows "\<exists>msg v. run (write_file (path_join d n) b what) (w\<lparr>faults := f\<rparr>) = (Err (Io msg e), v\<lparr>faults := \<lambda>i. f (i + 2)\<rparr>) \<and>
    sees v (C(path_join d n \<mapsto> take j b)) D"
proof -
  let ?p = "path_join d n"
  obtain r v where o: "exec (Open_write False 438 ?p) w = (r, v)" by (cases "exec (Open_write False 438 ?p) w")
  from exec_open_sees [of w C D d n False 438 r v] o assms(1-4) obtain i where
    v: "r = R_handle i" "lookup v ?p = Some (File i)" "sees v (C(?p \<mapsto> [])) D"
    unfolding path_join_def by auto
  have "run (fs_open False 438 ?p) w = (Ok i, v)" using o v(1) by (simp add: fs_open_def)
  with run_shift [OF assms(1), of "fs_open False 438 ?p" f] assms(5)
  have op: "run (fs_open False 438 ?p) (w\<lparr>faults := f\<rparr>) = (Ok i, v\<lparr>faults := \<lambda>i. f (Suc i)\<rparr>)"
    by (simp add: fs_open_def split: reply.splits)
  let ?v = "write_data i (take j b) v"
  have "run (fs_unit (Write_all i b)) (v\<lparr>faults := \<lambda>i. f (Suc i)\<rparr>) = (Err e, ?v\<lparr>faults := \<lambda>i. f (i + 2)\<rparr>)"
    using assms(6) by (simp add: fs_unit_def exec_def pop_fault_def)
  moreover have "sees ?v (C(?p \<mapsto> take j b)) D"
    using write_data_view [of v ?p i "take j b"] v(2,3) by (auto simp: sees_def)
  ultimately show ?thesis
    using op by (intro exI [of _ "lit ''failed to write '' @ what @ lit '' '' @ display_path ?p"] exI [of _ ?v])
      (simp add: write_file_def fs_write_def run_perr run_rbind del: lit_simps)
qed

lemma run_remove:
  assumes "faults w = (\<lambda>_. Run)" and "content w p = Some b"
  shows "\<exists>v. run (fs_unit (Remove_file p)) w = (Ok (), v) \<and> content v p = None \<and> (\<forall>q. q \<noteq> p \<longrightarrow> content v q = content w q)"
proof -
  obtain i where "lookup w p = Some (File i)" using assms(2) by (auto simp: content_Some)
  then have "exec (Remove_file p) w = (R_unit, del_entry p w)" using assms(1) by (simp add: exec_calm calm_def)
  then show ?thesis
    by (intro exI [of _ "del_entry p w"]) (simp add: fs_unit_def content_def split: option.splits entry.splits)
qed

lemma seal_torn:
  assumes "json_ok j" and "C key = Some seed" and "length seed = 32" and "length pk = 32" and "C payload = Some m"
    and "sign_and_seal c sha ed eph now m (from_seed ed seed) pk = Ok (env, att)"
    and "D d" and "\<not> D (path_join d n)" and "D d'" and "\<not> D (path_join d' n')" and "path_join d n \<noteq> path_join d' n'"
    and "calm w" and "sees w C D"
  shows "\<exists>msg v. run (seal_cmd c sha ed j eph now key (cli_hex_lower pk) payload (path_join d n) (path_join d' n'))
      (w\<lparr>faults := fail_at (seal_calls_before ed key w) e k\<rparr>) = (Err (Io msg e), v) \<and>
    content v (path_join d n) = None \<and> content v (path_join d' n') = Some (take k (to_cose_bytes att))"
proof -
  let ?N = "ncalls (load_identity ed key) w" and ?out = "path_join d n" and ?att = "path_join d' n'"
  let ?f = "\<lambda>m. fail_at m e k"
  have load: "does C D (load_identity ed key) (Ok (from_seed ed seed)) C []" by (rule does_load) (use assms in auto)
  have hex: "parse_hex_32 (cli_hex_lower pk) = Some pk" using assms(4) by (simp add: hex_roundtrip)
  obtain s where s: "to_pretty j env = Inr s" using assms(1) by (auto simp: json_ok_def)
  obtain w1 where w1: "calm w1" "sees w1 C D"
    "run (load_identity ed key) (w\<lparr>faults := ?f (?N + 4)\<rparr>) = (Ok (from_seed ed seed), w1\<lparr>faults := ?f 4\<rparr>)"
    by (rule shifted_step [OF load assms(12,13) refl])
  have read: "does C D (read_file payload (lit ''payload file'')) (Ok m) C []" by (rule does_read) (rule assms(5))
  obtain w2 where w2: "calm w2" "sees w2 C D"
    "run (read_file payload (lit ''payload file'')) (w1\<lparr>faults := ?f 4\<rparr>) = (Ok m, w2\<lparr>faults := ?f 3\<rparr>)"
    by (rule shifted_step [OF read w1(1,2), of 4 3 e k]) (simp add: ncalls_read del: lit_simps)
  let ?b = "utf8_encode (s @ [NL])" and ?what = "lit ''sealed envelope file''"
  have written: "does C D (write_file ?out ?b ?what) (Ok ()) (C(?out \<mapsto> ?b)) []" by (rule does_write [OF assms(7,8)])
  obtain x where "run (write_file ?out ?b ?what) w2 = (Ok (), x)" by (rule doesD [OF written w2(1,2)])
  from ncalls_write [OF w2(1) this] have nw: "ncalls (write_file ?out ?b ?what) w2 = 2" .
  obtain w3 where w3: "calm w3" "sees w3 (C(?out \<mapsto> ?b)) D"
    "run (write_file ?out ?b ?what) (w2\<lparr>faults := ?f 3\<rparr>) = (Ok (), w3\<lparr>faults := ?f 1\<rparr>)"
    by (rule shifted_step [OF written w2(1,2), of 3 1 e k]) (simp_all only: nw)
  obtain msg w4 where w4: "run (write_file ?att (to_cose_bytes att) (lit ''seal attestation file'')) (w3\<lparr>faults := ?f 1\<rparr>) =
      (Err (Io msg e), w4\<lparr>faults := \<lambda>_. Run\<rparr>)" "sees w4 (C(?out \<mapsto> ?b, ?att \<mapsto> take k (to_cose_bytes att))) D"
    using torn_write [OF w3(1,2) assms(9,10), of "?f 1" e k "to_cose_bytes att" "lit ''seal attestation file''"] by (auto simp: fail_at_def simp del: lit_simps)
  have c: "content (w4\<lparr>faults := \<lambda>_. Run\<rparr>) = C(?out \<mapsto> ?b, ?att \<mapsto> take k (to_cose_bytes att))"
    using w4(2) by (simp add: sees_def)
  then have "content (w4\<lparr>faults := \<lambda>_. Run\<rparr>) ?out = Some ?b" using assms(11) by simp
  from run_remove [OF _ this] c obtain v where "run (fs_unit (Remove_file ?out)) (w4\<lparr>faults := \<lambda>_. Run\<rparr>) = (Ok (), v)"
    "content v ?out = None" "content v ?att = Some (take k (to_cose_bytes att))"
    using assms(11) by auto
  then show ?thesis
    using w1(3) w2(3) w3(3) w4(1) hex s assms(6)
    by (intro exI [of _ msg] exI [of _ v])
      (simp add: seal_cmd_def seal_calls_before_def run_rbind run_pbind del: lit_simps)
qed

end
