(* ===== verification/Cli_Theorems.thy ===== *)
theory Cli_Theorems
  imports Cli_Reports Seal_Failures
begin

text \<open>
  Properties of the command-line tool as a whole: what its exit code and its output say, how many system calls a
  command makes, and that what one command writes another accepts.
\<close>

section \<open>Bounds on the calls of a command\<close>

fun opens_log :: "command \<Rightarrow> bool" where
  "opens_log (Log (Verify_Log _)) = False"
| "opens_log (Log _) = True"
| "opens_log _ = False"

lemmas step_rules = calls_step [OF calls_of_files(1)] calls_step [OF calls_of_files(2)] calls_step [OF calls_of_files(3)]
  calls_step [OF calls_of_files(4)] calls_step [OF calls_of_files(5)] calls_ret

lemma key_calls: "calls_le (key_dispatch e c) 16"
proof (cases c)
  case (Generate out)
  have "calls_le (key_generate ed pid seed out) 16" for ed pid seed
    unfolding key_generate_def
    by (rule calls_pstep [OF fs_calls(2)], simp, rule calls_step [OF calls_le_perr [OF load_or_generate_calls]])
      (simp_all del: print_lines.simps lit_simps)
  with Generate show ?thesis by simp
next
  case (Inspect key note_name)
  have "calls_le (key_inspect ed sc sha b64 key note_name) 16" for ed sc sha b64
    unfolding key_inspect_def
    by (rule step_rules, simp, rule calls_step [OF calls_le_print [OF order_refl]], simp)
      (auto intro!: calls_ret simp del: print_lines.simps lit_simps split: option.splits)
  with Inspect show ?thesis by simp
qed

lemma verify_log_calls: "calls_le (log_dispatch e (Verify_Log c)) 16"
proof (cases c)
  case (Verify_Inclusion a l vk)
  then show ?thesis
    by (simp add: verify_inclusion_cmd_def del: print_lines.simps lit_simps)
      ((rule step_rules | simp del: print_lines.simps lit_simps)+)
next
  case (Verify_Consistency a vk)
  then show ?thesis
    by (simp add: verify_consistency_cmd_def case_prod_unfold del: print_lines.simps lit_simps)
      ((rule step_rules | simp del: print_lines.simps lit_simps)+)
qed

lemma ca_calls: "calls_le (ca_dispatch e c) 16"
proof (cases c)
  case (Issue key subject claims days out)
  have "calls_le (case claims of
          Some claims_path \<Rightarrow>
            rbind (read_file claims_path (lit ''claims file'')) (\<lambda>claims_bytes.
            Ret (case ce_value_error e claims_bytes of
              Some source \<Rightarrow> Err (ClaimsJsonParse claims_path source)
            | None \<Rightarrow> Ok [encode_extension capability_claims_oid claims_bytes]))
        | None \<Rightarrow> Ret (Ok [])) 1"
    by (auto intro!: step_rules split: option.splits)
  note claims = calls_step [OF this]
  from Issue show ?thesis
    by (simp add: ca_issue_def Let_def del: print_lines.simps lit_simps)
      ((rule step_rules claims | simp del: print_lines.simps lit_simps)+)
next
  case (Verify_Cert cert key at)
  then show ?thesis
    by (simp add: ca_verify_def del: print_lines.simps lit_simps)
      ((rule step_rules | simp del: print_lines.simps lit_simps)+)
qed

lemma seal_calls: "calls_le (dispatch e (Seal_Payload key pk payload out att)) 16" "calls_le (dispatch e (Open key pk env att out)) 16"
  "calls_le (dispatch e (Attest key payload out)) 16" "calls_le (dispatch e (Verify att payload)) 16"
proof -
  have fin: "calls_le (pbind (fs_unit (Remove_file out)) (\<lambda>removed. case removed of
           Err cleanup \<Rightarrow> rbind (eprintln (g cleanup)) (\<lambda>_. Ret (Err err)) | Ok _ \<Rightarrow> Ret (Err err) | Panic \<Rightarrow> Ret Panic)) 7"
    for g and err :: cli_error
    by (rule calls_pstep [OF fs_calls(1)], simp) (auto intro!: calls_step [OF calls_of_files(6)] split: result.splits)
  show "calls_le (dispatch e (Seal_Payload key pk payload out att)) 16"
    by (simp add: seal_cmd_def case_prod_unfold del: print_lines.simps lit_simps)
      ((rule step_rules calls_pstep [OF calls_of_files(2)] | simp add: fin del: print_lines.simps lit_simps split: result.splits)+)
  show "calls_le (dispatch e (Open key pk env att out)) 16"
    by (simp add: open_cmd_def del: print_lines.simps lit_simps)
      ((rule step_rules | simp del: print_lines.simps lit_simps)+)
  show "calls_le (dispatch e (Attest key payload out)) 16"
    by (simp add: attest_run_def Let_def del: print_lines.simps lit_simps)
      ((rule step_rules | simp del: print_lines.simps lit_simps)+)
  show "calls_le (dispatch e (Verify att payload)) 16"
    by (simp add: verify_run_def del: print_lines.simps lit_simps)
      ((rule step_rules | simp del: print_lines.simps lit_simps split: result.splits trust_error.splits)+)
qed

lemma dispatch_calls: "\<not> opens_log cmd \<Longrightarrow> calls_le (dispatch e cmd) 16"
proof (cases cmd)
  case (Log c)
  then show "\<not> opens_log cmd \<Longrightarrow> ?thesis" using verify_log_calls by (cases c) simp_all
qed (simp_all add: key_calls ca_calls seal_calls del: dispatch.simps(4-7))

fun only_verifies :: "command \<Rightarrow> bool" where
  "only_verifies (Verify _ _) = True"
| "only_verifies (Log (Verify_Log _)) = True"
| "only_verifies (Ca (Verify_Cert _ _ _)) = True"
| "only_verifies _ = False"

lemma read_only_artifact [simp]: "read_only (read_artifact_file p)"
  by (auto simp: read_artifact_file_def simp del: lit_simps)

lemma dispatch_read_only: "only_verifies cmd \<Longrightarrow> read_only (dispatch e cmd)"
proof (induction cmd rule: only_verifies.induct)
  case (2 c)
  then show ?case
    by (cases c) (auto simp: verify_inclusion_cmd_def verify_consistency_cmd_def simp del: print_lines.simps lit_simps)
qed (auto simp: verify_run_def ca_verify_def simp del: print_lines.simps lit_simps split: result.splits trust_error.splits)

section \<open>Properties\<close>

text \<open>C39 (commands end): whatever the operating system replies, a run of the tool makes at most 17 system calls (operations of the standard library),
  unless the command opens a log directory, whose size is not bounded; and a run that only verifies makes no
  call that changes a file.\<close>

theorem commands_bounded:
  "(\<not> opens_log cmd \<longrightarrow> calls_le (cli_main e cmd) 17) \<and> (only_verifies cmd \<longrightarrow> read_only (cli_main e cmd))"
proof (intro conjI impI)
  assume "\<not> opens_log cmd"
  then show "calls_le (cli_main e cmd) 17"
    unfolding cli_main_def
    by (intro calls_pstep [OF dispatch_calls])
      (auto intro!: calls_step [OF calls_of_files(6)] simp del: lit_simps split: result.splits)
next
  assume "only_verifies cmd"
  then show "read_only (cli_main e cmd)"
    unfolding cli_main_def by (intro read_only_pbind dispatch_read_only) (auto simp del: lit_simps split: result.splits)
qed

theorem commands_bounded_witness:
  "calls_le (cli_main ref_cli (Verify [] [])) 17 \<and> read_only (cli_main ref_cli (Verify [] []))"
  using commands_bounded [of "Verify [] []" ref_cli] by simp

text \<open>C36 (exit codes and reports): the process exits with 0 exactly if its command succeeded, with 1 and one error
  line after an error, and otherwise panicked. Whatever calls fail, a verification command that exits with 0 or prints
  anything has read files that verify, and prints their data.\<close>

theorem exit_and_reports:
  "(run (cli_main e cmd) w = (r, v) \<longrightarrow>
     (r = Ok 0 \<and> run (dispatch e cmd) w = (Ok (), v)) \<or>
     (\<exists>err u. r = Ok 1 \<and> run (dispatch e cmd) w = (Err err, u) \<and> stdout v = stdout u \<and>
       stderr v = stderr u @ [lit ''error: '' @ display_cli_error (env_dbg (ce_store e)) err]) \<or>
     (r = Panic \<and> (\<exists>r' u. run (dispatch e cmd) w = (r', u) \<and> r' \<noteq> Ok () \<and> stdout v = stdout u))) \<and>
   reports w (dispatch e (Verify attestation payload)) (\<lambda>lines. \<exists>bs m a.
     content w attestation = Some bs \<and> content w payload = Some m \<and>
     verify_attestation_bytes (ce_cbor e) (env_sha (ce_store e)) (ce_ed e) bs m = Ok a \<and>
     lines = [lit ''attestation verified'',
       lit ''signer public key (ed25519): '' @ cli_hex_lower (att_signer_public_key a),
       lit ''payload hash (sha256): '' @ cli_hex_lower (att_payload_hash a),
       lit ''signed at (unix ms): '' @ dec_int (sint (att_timestamp a))]) \<and>
   reports w (dispatch e (Log (Verify_Log (Verify_Inclusion artifact leaf key)))) (\<lambda>lines. \<exists>bs a l vk body.
     content w artifact = Some bs \<and> from_json (ce_inclusion e) bs = Inr a \<and> content w leaf = Some l \<and>
     from_spec (env_sha (ce_store e)) (env_b64 (ce_store e)) key = Ok vk \<and>
     verify_inclusion_artifact (env_ct (ce_store e)) (env_b64 (ce_store e)) (ce_ed e) a l vk = Ok body \<and>
     lines = [lit ''inclusion verified'', lit ''origin: '' @ cb_origin body, lit ''tree size: '' @ dec64 (cb_tree_size body),
       lit ''leaf index: '' @ dec64 (ia_leaf_index a), lit ''root hash (sha256): '' @ cli_hex_lower (cb_root_hash body)]) \<and>
   reports w (dispatch e (Log (Verify_Log (Verify_Consistency artifact key)))) (\<lambda>lines. \<exists>bs a vk body_1 body_2.
     content w artifact = Some bs \<and> from_json (ce_consistency e) bs = Inr a \<and>
     from_spec (env_sha (ce_store e)) (env_b64 (ce_store e)) key = Ok vk \<and>
     verify_consistency_artifact (env_ct (ce_store e)) (env_b64 (ce_store e)) (ce_ed e) a vk = Ok (body_1, body_2) \<and>
     lines = [lit ''consistency verified'', lit ''origin: '' @ cb_origin body_2,
       lit ''old tree size: '' @ dec64 (cb_tree_size body_1), lit ''new tree size: '' @ dec64 (cb_tree_size body_2),
       lit ''old root hash (sha256): '' @ cli_hex_lower (cb_root_hash body_1),
       lit ''new root hash (sha256): '' @ cli_hex_lower (cb_root_hash body_2)])"
proof (intro conjI impI, goal_cases)
  case 1
  then show ?case by (rule main_exit)
next
  case 2
  show ?case unfolding dispatch.simps by (rule verify_run_reports)
next
  case 3
  show ?case unfolding dispatch.simps log_dispatch.simps by (rule verify_inclusion_reports)
next
  case 4
  show ?case unfolding dispatch.simps log_dispatch.simps by (rule verify_consistency_reports)
qed


theorem exit_and_reports_witness:
  "\<exists>r v. run (cli_main ref_cli (Verify [] [])) w_world = (r, v) \<and> r \<noteq> Ok 0 \<and> stdout v = []"
proof -
  let ?c = "Verify [] []"
  obtain r v where r: "run (cli_main ref_cli ?c) w_world = (r, v)" by (cases "run (cli_main ref_cli ?c) w_world")
  obtain e where "exec (Read_file []) w_world = (R_err e, w_world)"
    by (simp add: exec_calm [OF w_world_facts(1)]) (simp add: w_world_def is_dir_def errno)
  then obtain err where d: "run (dispatch ref_cli ?c) w_world = (Err err, w_world)"
    by (simp add: verify_run_def read_file_def run_rbind run_perr fs_read_def)
  have "stdout w_world = []" by (simp add: w_world_def)
  with conjunct1 [OF exit_and_reports [of ref_cli ?c w_world r v "[]" "[]" "[]" "[]" "[]"]] r d
  show ?thesis by (auto simp del: lit_simps)
qed

text \<open>C37 (proofs that the tool writes, the tool accepts): in a world where no call fails and that holds a log of
  fewer than \<open>2 ^ 53\<close> leaves and an identity key, \<^verbatim>\<open>lys log prove inclusion\<close> writes an artifact for every index in range, and
  \<^verbatim>\<open>lys log verify inclusion\<close> accepts it for the leaf at that index under the verifier key of that identity;
  \<^verbatim>\<open>lys log prove consistency\<close> does for every smaller non-zero size, and \<^verbatim>\<open>lys log verify consistency\<close> accepts it, as
  long as the artifact is within the 16 MiB that the verifier reads.\<close>

theorem prove_then_verify:
  assumes "env_ok env" and "ct_verifier_ok (env_sha env) (env_ct env)" and "ed25519_signs ed" and "json_ok j" and "json_ok j'"
    and "log_at env dir origin ls ls C D" and "signing_origin origin" and "length ls < 2 ^ 53"
    and "C key = Some seed" and "length seed = 32" and "D d" and "\<not> D (path_join d n)"
  shows "\<exists>vk. verifier_key_new (env_sha env) origin (ed_public ed seed) = Ok vk \<and>
    (unat idx < length ls \<longrightarrow> (\<exists>a lines.
      does C D (prove_inclusion_cmd env ed j dir key idx (path_join d n)) (Ok ()) (C(path_join d n \<mapsto> json_bytes j a)) lines \<and>
      (length (json_bytes j a) \<le> MAX_ARTIFACT_BYTES \<and> leaf \<noteq> path_join d n \<and> C leaf = Some (ls ! unat idx) \<longrightarrow>
        does (C(path_join d n \<mapsto> json_bytes j a)) D (verify_inclusion_cmd env ed j (path_join d n) leaf (to_spec (env_b64 env) vk)) (Ok ())
          (C(path_join d n \<mapsto> json_bytes j a))
          ([lit ''inclusion verified'', lit ''origin: '' @ origin, lit ''tree size: '' @ dec64 (of_nat (length ls)),
            lit ''leaf index: '' @ dec64 idx, lit ''root hash (sha256): '' @ cli_hex_lower (mth (env_sha env) ls)])))) \<and>
    (0 < old \<and> unat old < length ls \<longrightarrow> (\<exists>a lines.
      does C D (prove_consistency_cmd env ed j' dir key old (path_join d n)) (Ok ()) (C(path_join d n \<mapsto> json_bytes j' a)) lines \<and>
      (length (json_bytes j' a) \<le> MAX_ARTIFACT_BYTES \<longrightarrow>
        does (C(path_join d n \<mapsto> json_bytes j' a)) D (verify_consistency_cmd env ed j' (path_join d n) (to_spec (env_b64 env) vk)) (Ok ())
          (C(path_join d n \<mapsto> json_bytes j' a))
          ([lit ''consistency verified'', lit ''origin: '' @ origin,
            lit ''old tree size: '' @ dec64 old, lit ''new tree size: '' @ dec64 (of_nat (length ls)),
            lit ''old root hash (sha256): '' @ cli_hex_lower (mth (env_sha env) (take (unat old) ls)),
            lit ''new root hash (sha256): '' @ cli_hex_lower (mth (env_sha env) ls)]))))"
proof -
  let ?i = "from_seed ed seed" and ?out = "path_join d n"
  note E = env_okD [OF assms(1)]
  have i: "wf_identity ed ?i" "public_key_bytes ?i = ed_public ed seed" "length (ed_public ed seed) = 32"
    using assms(3,10) by (simp_all add: wf_identity_def from_seed_def public_key_bytes_def ed25519_signsD)
  obtain t where t: "reconstruct_from_raw_leaves (env_ct env) ls = Ok t" "tree_holds (env_ct env) ls t"
    using reconstruct_raw_holds [OF E(3) log_atD(9) [OF assms(6)]] by auto
  have "valid_note_name origin" using assms(7) by (simp add: signing_origin_def)
  then obtain vk where vk: "verifier_key_new (env_sha env) origin (ed_public ed seed) = Ok vk"
    using verifier_key_new_valid [OF E(2)] by blast
  show ?thesis
  proof (intro exI [of _ vk] conjI impI vk, goal_cases)
    case 1
    from build_inclusion_complete [OF E(2,1) assms(3) i(1) assms(7) E(3) assms(2) t(2) assms(8) 1] vk i(2)
    obtain a where a: "build_inclusion_artifact (env_ct env) (env_sha env) (env_b64 env) ed t (ls ! unat idx) origin ?i idx = Ok a"
      "verify_inclusion_artifact (env_ct env) (env_b64 env) ed a (ls ! unat idx) vk = Ok (body_of (env_sha env) origin ls)"
      by auto
    have idx: "ia_leaf_index a = idx" by (rule build_inclusion_verifies [OF a(1)])
    note V = does_verify_inclusion [where C = "C(?out \<mapsto> json_bytes j a)" and out = ?out and leaf = leaf and D = D, OF assms(1,4) _ _ _ i(3) vk a(2),
        unfolded idx body_of_simps]
    obtain lines where "does C D (prove_inclusion_cmd env ed j dir key idx ?out) (Ok ()) (C(?out \<mapsto> json_bytes j a)) lines"
      using does_prove_inclusion [OF assms(1,4,6,9,10) t(1) 1 a(1) assms(11,12)] by blast
    with V show ?case by (intro exI [of _ a] exI [of _ lines] conjI impI) simp_all
  next
    case 2
    let ?es = "take (unat old) ls"
    let ?store = "\<lparr>st_dir = dir, st_origin = origin, st_leaves = ls, st_tree = t\<rparr>"
    have es: "length ?es = unat old" "of_nat (length ?es) = old" "?es \<noteq> []" "strict_prefix ?es ls"
      using 2 by (auto simp: word_less_nat_alt strict_prefix_def take_is_prefix)
    have "st_leaves ?store = ?es @ drop (unat old) ls" "length (?es @ drop (unat old) ls) \<le> ct_max_leaves"
      using log_atD(9) [OF assms(6)] by simp_all
    from prefix_tree_run [OF assms(1) this] es(2) obtain ot where
      ot: "prefix_tree env ?store old = Ok ot" "tree_holds (env_ct env) ?es ot" by auto
    from build_consistency_complete [OF E(2,1) assms(3) i(1) assms(7) E(3) assms(2) ot(2) t(2) es(4,3) assms(8)] vk i(2)
    obtain a where a: "build_consistency_artifact (env_ct env) (env_sha env) (env_b64 env) ed ot t origin ?i = Ok a"
      "verify_consistency_artifact (env_ct env) (env_b64 env) ed a vk = Ok (body_of (env_sha env) origin ?es, body_of (env_sha env) origin ls)"
      by auto
    note V = does_verify_consistency [where C = "C(?out \<mapsto> json_bytes j' a)" and out = ?out and D = D, OF assms(1,5) _ _ i(3) vk a(2),
        unfolded body_of_simps es(2)]
    have old: "unat old < length ls" using 2 by simp
    obtain lines where "does C D (prove_consistency_cmd env ed j' dir key old ?out) (Ok ()) (C(?out \<mapsto> json_bytes j' a)) lines"
      using does_prove_consistency [OF assms(1,5,6,9,10) t(1) old ot(1) a(1) assms(11,12)] by blast
    with V show ?case by (intro exI [of _ a] exI [of _ lines] conjI impI) simp_all
  qed
qed

text \<open>The log of one leaf, which the seed of an identity is, so that its leaf file serves as a key file too.\<close>

theorem prove_then_verify_witness:
  "\<exists>w v a. run (prove_inclusion_cmd ref_env ref_ed ref_inclusion_json w_dir (leaf_path w_dir 0) 0 (sub w_dir ''state.json.tmp'')) w
      = (Ok (), v) \<and> content v (sub w_dir ''state.json.tmp'') = Some (json_bytes ref_inclusion_json a)"
proof -
  let ?out = "sub w_dir ''state.json.tmp''"
  obtain v where v: "calm v" "log_in ref_env w_dir w_origin [] v" by (rule w_log)
  have "length ([] :: bytes list) < ct_max_leaves" by (simp add: ct_max_leaves_def)
  then obtain w where "calm w" "log_in ref_env w_dir w_origin ([] @ [w_seed]) w" by (rule append_log_in [OF ref_env_ok v])
  then obtain C D where w: "calm w" "sees w C D" "log_at ref_env w_dir w_origin [w_seed] [w_seed] C D"
    unfolding log_in_def append_Nil by blast
  note L = log_atD [OF w(3)]
  have key: "C (leaf_path w_dir 0) = Some w_seed" using L(8) [of 0] by simp
  have env: "ct_verifier_ok (env_sha ref_env) (env_ct ref_env)" by (simp add: ref_env_def)
  have index: "unat (0 :: u64) < length [w_seed]" by simp
  have "length [w_seed] < 2 ^ 53" "length w_seed = 32" by (simp_all add: w_seed_def)
  from prove_then_verify [OF ref_env_ok env ref_ed_signs ref_jsons_ok(3) ref_cli_jsons_ok(1) w(3) w_origin_signing this(1) key this(2) L(1,4),
      of 0 "leaf_path w_dir 0" 1]
  obtain a lines where "does C D (prove_inclusion_cmd ref_env ref_ed ref_inclusion_json w_dir (leaf_path w_dir 0) 0 ?out) (Ok ())
      (C(?out \<mapsto> json_bytes ref_inclusion_json a)) lines"
    using index by blast
  from doesD [OF this w(1,2)] show ?thesis unfolding sees_def by (metis fun_upd_same)
qed

text \<open>C38 (what is sealed can be opened): in a world where no call fails, \<^verbatim>\<open>lys seal\<close> to the X25519 key of an identity
  writes an envelope and an attestation, and \<^verbatim>\<open>lys open\<close> with that identity and the sender's public key writes exactly
  the payload, whenever the key agreement is contributory.\<close>

theorem seal_then_open:
  assumes "seal_crypto_ok c" and "sha256_size sha" and "ed25519_signs ed" and "cbor_reads rd" and "json_ok j"
    and "C key = Some seed" and "length seed = 32" and "C key' = Some seed'" and "length seed' = 32"
    and "C payload = Some m" and "length m \<le> GCM_MAX" and "length eph = 32"
    and "x_contributory c (x_dh c eph (x25519_public_key c (from_seed ed seed')))"
    and "D d" and "\<not> D (path_join d n)" and "D d'" and "\<not> D (path_join d' n')" and "D d''" and "\<not> D (path_join d'' n'')"
    and "path_join d n \<noteq> path_join d' n'" and "key' \<notin> {path_join d n, path_join d' n'}"
  shows "\<exists>C' lines lines'.
    does C D (seal_cmd c sha ed j eph now key (cli_hex_lower (x25519_public_key c (from_seed ed seed'))) payload
      (path_join d n) (path_join d' n')) (Ok ()) C' lines \<and>
    (\<forall>p. p \<notin> {path_join d n, path_join d' n'} \<longrightarrow> C' p = C p) \<and>
    does C' D (open_cmd c sha ed rd j key' (cli_hex_lower (ed_public ed seed)) (path_join d n) (path_join d' n') (path_join d'' n''))
      (Ok ()) (C'(path_join d'' n'' \<mapsto> m)) lines'"
proof -
  let ?s = "from_seed ed seed" and ?r = "from_seed ed seed'"
  have s: "wf_identity ed ?s" "public_key_bytes ?s = ed_public ed seed" "length (ed_public ed seed) = 32"
    using assms(3,7) by (simp_all add: wf_identity_def from_seed_def public_key_bytes_def ed25519_signsD)
  have r: "length (x25519_static_secret c ?r) = 32" "length (x25519_public_key c ?r) = 32"
    using assms(1,9) by (auto simp: seal_crypto_ok_def x25519_static_secret_def x25519_public_key_def from_seed_def)
  from open_sealed [OF assms(1,12) r(1) assms(11)] assms(13) obtain env where
    env: "seal c eph m (x25519_public_key c ?r) = Ok env" by (auto simp: x25519_public_key_def)
  let ?att = "sign_attestation sha ed now (contextualized_envelope_bytes env) ?s"
  have seal: "sign_and_seal c sha ed eph now m ?s (x25519_public_key c ?r) = Ok (env, ?att)"
    using env by (simp add: sign_and_seal_def)
  note opened = authenticated_roundtrip [OF assms(1-3) s(1) wf_from_seed [OF assms(9)] assms(12,11) seal, unfolded s(2)]
  have wf: "wf_attestation ?att"
    using assms(2) wf_identity_sizes [OF assms(3) s(1)] by (simp add: sign_attestation_def wf_attestation_def Let_def)
  let ?C = "C(path_join d n \<mapsto> json_bytes j env, path_join d' n' \<mapsto> to_cose_bytes ?att)"
  obtain lines where "does C D (seal_cmd c sha ed j eph now key (cli_hex_lower (x25519_public_key c ?r)) payload
      (path_join d n) (path_join d' n')) (Ok ()) ?C lines"
    using does_seal [OF assms(5-7) r(2) assms(10) seal assms(14-17)] by blast
  moreover have "?C key' = Some seed'" "?C (path_join d n) = Some (json_bytes j env)" "?C (path_join d' n') = Some (to_cose_bytes ?att)"
    using assms(8,20,21) by simp_all
  note does_open [where C = ?C and D = D, OF assms(5,4) wf this(1) assms(9) s(3) this(2,3) opened assms(18,19)]
  ultimately show ?thesis by (intro exI [of _ ?C] exI conjI) auto
qed

theorem seal_then_open_witness:
  "\<exists>w v u. run (seal_cmd ref_seal ref_sha ref_ed ref_envelope_json (replicate 32 9) 5 [Normal (Uni (lit ''id''))]
       (cli_hex_lower (x25519_public_key ref_seal w_id)) [Normal (Uni (lit ''m''))]
       (path_join [] (Uni (lit ''env''))) (path_join [] (Uni (lit ''att'')))) w = (Ok (), v) \<and>
     run (open_cmd ref_seal ref_sha ref_ed ref_cbor ref_envelope_json [Normal (Uni (lit ''id''))] (cli_hex_lower w_seed)
       (path_join [] (Uni (lit ''env''))) (path_join [] (Uni (lit ''att''))) (path_join [] (Uni (lit ''out'')))) v = (Ok (), u) \<and>
     content u (path_join [] (Uni (lit ''out''))) = Some [1, 2, 3]"
proof -
  let ?k = "[Normal (Uni (lit ''id''))]" and ?m = "[Normal (Uni (lit ''m''))]"
  let ?e = "path_join [] (Uni (lit ''env''))" and ?a = "path_join [] (Uni (lit ''att''))"
  obtain w C D where w: "calm w" "sees w C D" "C ?k = Some w_seed" "C ?m = Some [1, 2, 3]" "D []" "\<And>n. \<not> D (path_join [] n)"
    by (rule w_files [of "Uni (lit ''id'')" "Uni (lit ''m'')" w_seed "[1, 2, 3]"]) auto
  have num: "length w_seed = 32" "length [1, 2, 3 :: byte] \<le> GCM_MAX" "length (replicate 32 (9 :: byte)) = 32"
    by (simp_all add: w_seed_def GCM_MAX_def)
  have contributory: "x_contributory ref_seal (x_dh ref_seal (replicate 32 9) (x25519_public_key ref_seal (from_seed ref_ed w_seed)))"
    by (simp add: ref_seal_def x25519_public_key_def x25519_static_secret_def from_seed_def w_seed_def zip_replicate)
  have paths: "?e \<noteq> ?a" "?k \<notin> {?e, ?a}" by (auto simp: path_join_def)
  have pk: "ed_public ref_ed w_seed = w_seed" by (simp add: ref_ed_def)
  from seal_then_open [OF ref_seal_ok ref_sha_size ref_ed_signs ref_cbor_reads ref_cli_jsons_ok(2) w(3) num(1) w(3) num(1) w(4) num(2,3) contributory
      w(5,6) w(5,6) w(5,6) paths, of 5 "Uni (lit ''out'')", unfolded pk, folded w_id_def]
  obtain C' lines lines' where T: "does C D (seal_cmd ref_seal ref_sha ref_ed ref_envelope_json (replicate 32 9) 5 ?k
       (cli_hex_lower (x25519_public_key ref_seal w_id)) ?m ?e ?a) (Ok ()) C' lines"
    "does C' D (open_cmd ref_seal ref_sha ref_ed ref_cbor ref_envelope_json ?k (cli_hex_lower w_seed) ?e ?a
       (path_join [] (Uni (lit ''out'')))) (Ok ()) (C'(path_join [] (Uni (lit ''out'')) \<mapsto> [1, 2, 3])) lines'"
    by blast
  obtain v where v: "run (seal_cmd ref_seal ref_sha ref_ed ref_envelope_json (replicate 32 9) 5 ?k
       (cli_hex_lower (x25519_public_key ref_seal w_id)) ?m ?e ?a) w = (Ok (), v)" "calm v" "sees v C' D"
    by (rule doesD [OF T(1) w(1,2)])
  from doesD [OF T(2) v(2,3)] v(1) show ?thesis unfolding sees_def by (metis fun_upd_same)
qed

text \<open>C40 (a failed seal can leave a partial output): when the write of the attestation fails after \<open>k\<close> bytes and no
  other call fails, \<^verbatim>\<open>lys seal\<close> reports the error and removes the envelope, but the truncated attestation
  stays behind.\<close>

theorem seal_leaves_attestation:
  assumes "json_ok j" and "C key = Some seed" and "length seed = 32" and "length pk = 32" and "C payload = Some m"
    and "sign_and_seal c sha ed eph now m (from_seed ed seed) pk = Ok (env, att)"
    and "D d" and "\<not> D (path_join d n)" and "D d'" and "\<not> D (path_join d' n')" and "path_join d n \<noteq> path_join d' n'"
    and "calm w" and "sees w C D"
  shows "\<exists>msg v. run (seal_cmd c sha ed j eph now key (cli_hex_lower pk) payload (path_join d n) (path_join d' n'))
      (w\<lparr>faults := fail_at (seal_calls_before ed key w) e k\<rparr>) = (Err (Io msg e), v) \<and>
    content v (path_join d n) = None \<and> content v (path_join d' n') = Some (take k (to_cose_bytes att))"
  by (rule seal_torn [OF assms])

theorem seal_leaves_attestation_witness:
  "\<exists>w v msg att. run (seal_cmd ref_seal ref_sha ref_ed ref_envelope_json (replicate 32 9) 5 [Normal (Uni (lit ''id''))]
       (cli_hex_lower (x25519_public_key ref_seal w_id)) [Normal (Uni (lit ''m''))]
       (path_join [] (Uni (lit ''env''))) (path_join [] (Uni (lit ''att''))))
       (w\<lparr>faults := fail_at (seal_calls_before ref_ed [Normal (Uni (lit ''id''))] w) \<lparr>io_kind = OtherKind, io_text = []\<rparr> 1\<rparr>)
         = (Err (Io msg \<lparr>io_kind = OtherKind, io_text = []\<rparr>), v) \<and>
     content v (path_join [] (Uni (lit ''att''))) = Some (take 1 (to_cose_bytes att))"
proof -
  let ?e = "path_join [] (Uni (lit ''env''))" and ?a = "path_join [] (Uni (lit ''att''))"
  let ?k = "[Normal (Uni (lit ''id''))]" and ?m = "[Normal (Uni (lit ''m''))]"
  obtain w C D where w: "calm w" "sees w C D" "C ?k = Some w_seed" "C ?m = Some [1, 2, 3]" "D []" "\<And>n. \<not> D (path_join [] n)"
    by (rule w_files [of "Uni (lit ''id'')" "Uni (lit ''m'')" w_seed "[1, 2, 3]"]) auto
  have l: "length w_seed = 32" "length (x25519_public_key ref_seal w_id) = 32" "?e \<noteq> ?a"
    by (simp_all add: w_seed_def ref_seal_def x25519_public_key_def x25519_static_secret_def w_id_def from_seed_def path_join_def)
  have "x_contributory ref_seal (x_dh ref_seal (replicate 32 9) (x_public ref_seal w_seed))" "length [1, 2, 3 :: byte] \<le> GCM_MAX"
    by (simp_all add: ref_seal_def w_seed_def zip_replicate GCM_MAX_def)
  with open_sealed [OF ref_seal_ok _ l(1), of "replicate 32 9" "[1, 2, 3]"] obtain env where
    "seal ref_seal (replicate 32 9) [1, 2, 3] (x_public ref_seal w_seed) = Ok env" by auto
  then obtain att where "sign_and_seal ref_seal ref_sha ref_ed (replicate 32 9) 5 [1, 2, 3] (from_seed ref_ed w_seed)
      (x25519_public_key ref_seal w_id) = Ok (env, att)"
    by (simp add: sign_and_seal_def Let_def x25519_public_key_def x25519_static_secret_def w_id_def from_seed_def ref_seal_def)
  from seal_leaves_attestation [OF ref_cli_jsons_ok(2) w(3) l(1,2) w(4) this w(5,6) w(5,6) l(3) w(1,2)]
  show ?thesis by blast
qed

end
