(* ===== verification/Spec2Isabelle.thy ===== *)
theory Spec2Isabelle
  imports Tlog_Theorems Attestation_Theorems Seal_Theorems Key_Theorems Store_Theorems Store_Race Ca_Theorems Cli_Theorems
begin

text \<open>
  Verification of \<^verbatim>\<open>lys\<close>: a library (\<^verbatim>\<open>crates/lys-core\<close>) and a command-line tool (\<^verbatim>\<open>crates/lys\<close>) for
  transparency logs, attestations, sealed envelopes and certificates. The development models both, from the byte
  layouts up to the exit code of the tool, and proves what makes each part correct.

  \<^bold>\<open>The program.\<close> The library has the parts \<^verbatim>\<open>merkle\<close> (append-only tree, inclusion and consistency proofs),
  \<^verbatim>\<open>checkpoint\<close> (C2SP signed notes and checkpoint bodies), \<^verbatim>\<open>tlog\<close> (self-contained proof artifacts, built from a
  tree and a signed checkpoint), \<^verbatim>\<open>attestation\<close> (COSE\_Sign1 statements over a payload hash), \<^verbatim>\<open>seal\<close> (envelopes
  and their authenticated form, which attests the envelope), \<^verbatim>\<open>keys\<close> (Ed25519 identities, in memory, in the environment
  and in files), \<^verbatim>\<open>ca\<close> (certificates) and \<^verbatim>\<open>error\<close>. The tool keeps a log in a directory (\<^verbatim>\<open>commands/log/store.rs\<close>)
  and offers every part as a command; \<^verbatim>\<open>main.rs\<close> dispatches and turns results into exit codes.

  \<^bold>\<open>Values and effects.\<close> A fallible function returns \<open>('e, 'a) result\<close> with \<open>Ok\<close>, \<open>Err\<close> and \<open>Panic\<close>
  (\<open>Prelude\<close>): a panic is an outcome, so that its absence is a theorem. Machine integers are words, strings are
  lists of Unicode scalars with their UTF-8 encoding (\<open>Rust_Str\<close>, \<open>Rust_Text\<close>), structs are records, enums are
  datatypes. What touches the outside is a program over system calls (\<open>Os_Model\<close>: \<open>prog\<close>, \<open>run\<close>) on a world that
  holds files with inodes, modes and hard links, the output streams and a stream of failures to inject; a failing
  write leaves a prefix. A crash is a program stopped between two calls (\<open>reaches\<close>), concurrency is interleaving
  call by call (\<open>Interference\<close>: \<open>sys_steps\<close>). Random bytes, clock readings and the process id are arguments.

  \<^bold>\<open>Crates are parameters.\<close> \<open>Crates\<close>, \<open>Cbor\<close>, \<open>Merkle_Model\<close>, \<open>Store_Model\<close>, \<open>Ca_Model\<close> and
  \<open>Pem\<close> hold one record per third-party crate (\<open>sha256\<close>, \<open>base64\<close>, \<open>ed25519\<close>, \<open>ct_merkle\<close>, \<open>json\<close>, the
  sealing primitives, the X.509 and time crates) and, next to it, a predicate with the documented behaviour that the program relies on
  (\<open>sha256_size\<close>, \<open>base64_standard\<close>, \<open>ed25519_signs\<close>, \<open>ct_trees_ok\<close>, \<open>json_ok\<close>, \<open>hkdf_ok\<close>,
  \<open>seal_crypto_ok\<close>, \<open>env_ok\<close> and those of \<open>Ca_Facts\<close>). Collision resistance is stated
  as injectivity on exactly the strings that a theorem hashes (\<open>collision_free\<close>), and that a signature binds its message
  on exactly the two messages at hand (\<open>ed25519_binds\<close>); unforgeability is never assumed: theorems
  on signatures say which message a valid signature was checked on. The theories \<open>Reference_Crates\<close>, \<open>Reference_Json\<close>,
  \<open>Reference_Ca\<close> and \<open>Reference_Cli\<close> hold executable instances that meet the predicates; the witnesses run on them.

  \<^bold>\<open>Theories and sources\<close> (below \<^verbatim>\<open>src/crates\<close>).
  \<^item> \<open>Prelude\<close>, \<open>Rust_Str\<close>, \<open>Rust_Text\<close>: outcomes, slices, and the standard library's text functions.
  \<^item> \<open>Errors\<close>: \<^verbatim>\<open>lys-core/src/error.rs\<close>, each variant with its message. \<open>Hex\<close>: \<^verbatim>\<open>lib.rs\<close>, \<^verbatim>\<open>commands/hex.rs\<close>.
  \<^item> \<open>Merkle_Spec\<close> is RFC 6962 by itself (tree hash, audit paths, consistency proofs, their soundness and completeness);
    \<open>Merkle_Model\<close> is \<^verbatim>\<open>merkle/leaf.rs\<close>, \<^verbatim>\<open>tree.rs\<close> and \<^verbatim>\<open>proof.rs\<close>; \<open>Merkle_Theorems\<close> relates the two.
  \<^item> \<open>Verifier_Key_Model\<close>, \<open>Checkpoint_Body\<close>, \<open>Note_Model\<close>, \<open>Checkpoint_Theorems\<close>: \<^verbatim>\<open>checkpoint/*.rs\<close>.
  \<^item> \<open>Tlog_Model\<close>, \<open>Tlog_Theorems\<close>: \<^verbatim>\<open>tlog/artifact.rs\<close>, \<^verbatim>\<open>build.rs\<close>, \<^verbatim>\<open>verify.rs\<close>.
  \<^item> \<open>Cbor\<close> is the deterministic encoding of RFC 8949 as a specification; \<open>Attestation_Model\<close> and
    \<open>Attestation_Theorems\<close> are \<^verbatim>\<open>attestation/encoding.rs\<close>, \<^verbatim>\<open>artifact.rs\<close> and \<^verbatim>\<open>sign.rs\<close>.
  \<^item> \<open>Seal_Model\<close>, \<open>Seal_Theorems\<close>: \<^verbatim>\<open>seal/sealed_envelope.rs\<close> and \<^verbatim>\<open>authenticated.rs\<close>.
  \<^item> \<open>Identity\<close> and \<open>Key_Files\<close> are \<^verbatim>\<open>keys/identity.rs\<close>; \<open>Key_Race\<close>, \<open>Key_Publish\<close> and \<open>Key_Theorems\<close> are
    the proof about concurrent generators.
  \<^item> \<open>Cli_Base\<close>: \<^verbatim>\<open>commands/error.rs\<close>, \<^verbatim>\<open>files.rs\<close>. \<open>Store_Model\<close>: \<^verbatim>\<open>commands/log/store.rs\<close>.
    \<open>Log_Commands\<close>: the other files of \<^verbatim>\<open>commands/log\<close>. \<open>File_View\<close>, \<open>Store_Facts\<close>, \<open>Store_Append\<close>,
    \<open>Store_Sessions\<close>, \<open>Store_Theorems\<close> and \<open>Store_Race\<close> are the proofs about the log directory.
  \<^item> \<open>Pem\<close>: \<^verbatim>\<open>commands/pem.rs\<close>. \<open>Ca_Model\<close>: \<^verbatim>\<open>ca/*.rs\<close>. \<open>Cli_Commands\<close>: \<^verbatim>\<open>commands/key.rs\<close>,
    \<^verbatim>\<open>attest.rs\<close>, \<^verbatim>\<open>verify.rs\<close>, \<^verbatim>\<open>seal.rs\<close>, \<^verbatim>\<open>ca.rs\<close>, \<^verbatim>\<open>cli.rs\<close> and \<^verbatim>\<open>main.rs\<close>. \<open>Cli_Runs\<close>, \<open>Cli_Reports\<close>,
    \<open>Cli_Roundtrips\<close>, \<open>Seal_Failures\<close>, \<open>Ca_Facts\<close>, \<open>Ca_Theorems\<close> and \<open>Cli_Theorems\<close> are the proofs about commands.

  \<^bold>\<open>Interfaces\<close> (\<open>Interfaces\<close>, \<open>Interference\<close>). \<open>wire_codec\<close> (decoding inverts encoding on well-formed values) is
  interpreted on hex, checkpoint bodies and verifier keys, and its extension \<open>canonical_codec\<close> (only encodings decode) on attestations;
  \<open>collapsing\<close> (one failure value, no panic) on every verifier; \<open>append_log\<close> (appending represents extending a list)
  on the raw and the serialized Merkle tree; \<open>rely_guarantee\<close> (invariant, what a thread expects of the others, tokens) on
  the key files.

  \<^bold>\<open>What is proved.\<close>
  \<^item> Proofs: an accepted inclusion or consistency proof or artifact is true of the log that the signed root commits
    to; the builders return one exactly when the claim is true; sizes are bounded; nothing panics (C1--C9).
  \<^item> Checkpoints: what is signed verifies; which line decides; a verified checkpoint belongs to the verifier's origin; the text
    forms are exact (C10--C15).
  \<^item> Attestations: the byte layout is the deterministic CBOR of a COSE\_Sign1 structure, and nothing else is accepted; an
    accepted one is signed in every field; no accepted note carries the signature of an accepted attestation of the same key (C16--C20).
  \<^item> Sealing: an accepted attestation is signed by the sender over the hash of the context tag and the envelope, a rejected one stops
    everything before decryption; which generic attestations the tag keeps out and which it lets pass (C21, C22).
  \<^item> Key files: under every interleaving of any number of generators and any failures the key file never changes once
    written, all generators return its identity, and all finish within 13 calls each (C23--C26).
  \<^item> Log directories: the commands refine an append-only list; a log survives crashes; an open accepts only what the pinned
    state allows; torn leaves are adopted; concurrent appends never touch an existing leaf and never share an index, but
    two of them can leave a directory that no open accepts (C27--C32).
  \<^item> Failures: one error value per verifier (C33, in this theory, since it spans the components).
  \<^item> Commands: certificates are accepted in their validity window; output is about verified data only and free of
    control characters; exit codes; what one command writes another accepts; bounded system calls; what a failed
    \<^verbatim>\<open>lys seal\<close> leaves behind (C34--C40).

  \<^bold>\<open>Bounds.\<close> Every model function terminates by its recursion; there is no fuel. Trees have at most \<open>ct_max_leaves\<close> = \<open>2 ^ 63\<close>
  leaves, the domain that the Merkle crate documents; it is a hypothesis on the length of the log. Artifacts are limited by the
  code to sizes below \<open>2 ^ 53\<close> (\<open>MAX_JSON_TREE_SIZE\<close>) and artifact files that are read to 16 MiB (\<open>MAX_ARTIFACT_BYTES\<close>). A system call is an operation
  of the standard library, such as reading a whole file, not one of the kernel; a command that opens no log makes at most 17 of them; one that opens a log makes a number that depends on the directory.

  \<^bold>\<open>Not modelled.\<close> The parsing of arguments (derived by \<^verbatim>\<open>clap\<close>; the model starts from the parsed command), module files
  and re-exports, the \<^verbatim>\<open>Debug\<close> forms of the tree and the store (diagnostics that no command prints), the fields of
  tracing events (their messages are modelled), the variants for systems other than Unix (compiled out there),
  erasure of secrets from memory (no counterpart in a functional model), \<^verbatim>\<open>serde\<close> derivations (a parameter with its round
  trip), and all test code. Paths are taken as written: spellings of one file through symbolic links are not identified.
  Secrecy of encryption is not stated: that needs a probabilistic model.
\<close>

text \<open>C33 (failures tell nothing): on every input the note, checkpoint, artifact and attestation verifiers
  succeed or return the one error value of their kind, and never panic. With HKDF as documented the same
  holds of opening an envelope, whose only error is \<^verbatim>\<open>UnsealFailed\<close>, and of the authenticated opening, which
  can only add \<^verbatim>\<open>AttestationFailed\<close>, the error of an attestation that does not verify, before it touches the ciphertext;
  and sealing fails only with \<^verbatim>\<open>Seal\<close>.\<close>

theorem failures_collapse:
  "((\<exists>body. verify_note b64 ed nb vk = Ok body) \<or> verify_note b64 ed nb vk = Err NoteVerification) \<and>
   ((\<exists>b. verify_checkpoint b64 ed nb vk = Ok b) \<or> verify_checkpoint b64 ed nb vk = Err NoteVerification) \<and>
   ((\<exists>b. verify_inclusion_artifact ct b64 ed ia d vk = Ok b)
     \<or> verify_inclusion_artifact ct b64 ed ia d vk = Err LogArtifactVerification) \<and>
   ((\<exists>b. verify_consistency_artifact ct b64 ed ca vk = Ok b)
     \<or> verify_consistency_artifact ct b64 ed ca vk = Err LogArtifactVerification) \<and>
   ((\<exists>a. from_cose_bytes rd bs = Ok a) \<or> from_cose_bytes rd bs = Err InvalidSignature) \<and>
   ((\<exists>a. verify_attestation_bytes rd sha ed bs payload = Ok a)
     \<or> verify_attestation_bytes rd sha ed bs payload = Err InvalidSignature) \<and>
   (hkdf_ok c \<longrightarrow>
     ((\<exists>m. open_envelope c e s = Ok m) \<or> open_envelope c e s = Err UnsealFailed) \<and>
     open_and_verify c sha ed e a sender s = (if sender_gate sha ed e a sender then open_envelope c e s else Err AttestationFailed) \<and>
     ((\<exists>e'. seal c seed payload pk = Ok e') \<or> (\<exists>r. seal c seed payload pk = Err (Seal r))))"
proof -
  have "(\<exists>e'. seal c seed payload pk = Ok e') \<or> (\<exists>r. seal c seed payload pk = Err (Seal r))" if "hkdf_ok c"
    using seal_failures [OF that, of seed payload pk] by (cases "seal c seed payload pk") auto
  moreover have "(\<exists>m. open_envelope c e s = Ok m) \<or> open_envelope c e s = Err UnsealFailed" if "hkdf_ok c"
    using seal_failures [OF that] by blast
  ultimately show ?thesis
    using verify_note.run_cases [of "(b64, ed, nb, vk)"] verify_checkpoint.run_cases [of "(b64, ed, nb, vk)"]
      verify_ia.run_cases [of "(ct, b64, ed, ia, d, vk)"] verify_ca.run_cases [of "(ct, b64, ed, ca, vk)"]
      parse_cose.run_cases [of "(rd, bs)"] verify_cose.run_cases [of "(rd, sha, ed, bs, payload)"]
    by (simp add: open_and_verify_gate)
qed

theorem failures_collapse_witness:
  "hkdf_ok ref_seal \<and>
   open_envelope ref_seal \<lparr>se_ephemeral_public_key = w_seed, se_ciphertext = [], se_nonce = []\<rparr> w_seed = Err UnsealFailed"
proof
  let ?e = "\<lparr>se_ephemeral_public_key = w_seed, se_ciphertext = [], se_nonce = []\<rparr>"
  show h: "hkdf_ok ref_seal" by (rule seal_crypto_hkdf [OF ref_seal_ok])
  then have "(\<exists>m. open_envelope ref_seal ?e w_seed = Ok m) \<or> open_envelope ref_seal ?e w_seed = Err UnsealFailed"
    using failures_collapse [where c = ref_seal and e = ?e and s = w_seed] by blast
  then show "open_envelope ref_seal ?e w_seed = Err UnsealFailed"
    by (auto simp: open_envelope_def ref_seal_def Let_def outcome split: if_splits)
qed

end
